(* ===== verification/Rust_Prelude.thy ===== *)
theory Rust_Prelude
  imports Main "HOL-Library.Word"
begin

unbundle bit_operations_syntax

text \<open>
  What the whole development shares: the widths of the machine integers, the outcome type of a
  Rust computation (a value, an error returned through \<open>Result<_, &'static str>\<close>, a panic, or no
  return), arithmetic as the compiler emits it with and without overflow checks, slices and their
  bounds checks, and UTF-8 validity as \<open>core::str::from_utf8\<close> decides it.
\<close>

section \<open>Machine integers\<close>

type_synonym u8 = "8 word"
type_synonym u16 = "16 word"
type_synonym u32 = "32 word"
type_synonym u64 = "64 word"
type_synonym i32 = "32 word"
type_synonym i64 = "64 word"
type_synonym usize = "64 word"
type_synonym bytes = "u8 list"

named_theorems res_simps \<open>characteristic equations of the outcome type and its sequencing\<close>
named_theorems const_defs \<open>the numeric constants of the Mach-O bindings\<close>
named_theorems word_bounds \<open>unsigned readings of word operations that do not wrap\<close>

section \<open>Errors, panics, outcomes\<close>

text \<open>The \<open>&'static str\<close> errors of the program, each under a name.\<close>

type_synonym error = string

definition LCIter_Create :: error where
  "LCIter_Create = ''error: could not create load command iterator for container''"

definition LCIter_Next :: error where
  "LCIter_Next = ''error: could not iterate over load commands''"

definition No_Linkedit_Data :: error where
  "No_Linkedit_Data = ''error: could not find `linkedit_data_command`''"

definition No_Fixups_Header :: error where
  "No_Fixups_Header = ''error: could not find `dyld_chained_fixups_header`''"

definition No_Starts_In_Image :: error where
  "No_Starts_In_Image = ''error: could not find `dyld_chained_starts_in_image`''"

definition No_Starts_In_Segment :: error where
  "No_Starts_In_Segment = ''error: could not read `dyld_chained_starts_in_segment` from a segment offset''"

definition No_Page_Starts :: error where
  "No_Page_Starts = ''error: could not read the page starts array''"

definition No_Fixup_Value :: error where
  "No_Fixup_Value = ''error: could read the fixup value from a chain_offset''"

definition No_Import :: error where
  "No_Import = ''error: could parse a dyld_chained_import_format_variants::DYLD_CHAINED_IMPORT from imports_offset''"

definition No_Import_Addend :: error where
  "No_Import_Addend = ''error: could parse a dyld_chained_import_format_variants::DYLD_CHAINED_IMPORT_ADDEND from imports_offset''"

definition No_Import_Addend64 :: error where
  "No_Import_Addend64 = ''error: could parse a dyld_chained_import_format_variants::DYLD_CHAINED_IMPORT_ADDEND64 from imports_offset''"

definition Bind_Self_Unsupported :: error where
  "Bind_Self_Unsupported = ''BIND_SPECIAL_DYLIB_SELF is not yet supported''"

definition Bind_Main_Exec_Unsupported :: error where
  "Bind_Main_Exec_Unsupported = ''BIND_SPECIAL_DYLIB_MAIN_EXECUTABLE is not yet supported''"

definition Bind_Flat_Unsupported :: error where
  "Bind_Flat_Unsupported = ''BIND_SPECIAL_DYLIB_FLAT_LOOKUP is not yet supported''"

definition Weak_Symbol_Missing :: error where
  "Weak_Symbol_Missing = ''could not find a matching symbol while fixing up a BIND_SPECIAL_DYLIB_WEAK_LOOKUP''"

definition Cache_Symbol_Missing :: error where
  "Cache_Symbol_Missing = ''could not find a symbol in the dyld shared cache''"

definition User_Symbol_Missing :: error where
  "User_Symbol_Missing = ''failed to find symbol in user dylib''"

definition Link_Library_Failed :: error where
  "Link_Library_Failed = ''failed to link library''"

definition Too_Many_Dylibs :: error where
  "Too_Many_Dylibs = ''exceeded maximum amount of dylibs''"

definition No_Arm64_Header :: error where
  "No_Arm64_Header = ''could not read `mach_header_64` from arm64 image''"

definition Bad_Filetype :: error where
  "Bad_Filetype = ''the arm64 image filetype must be MH_EXECUTE''"

definition No_Load_Command :: error where
  "No_Load_Command = ''could not parse a load command in the inner arm64 image''"

definition No_Dylib_Command :: error where
  "No_Dylib_Command = ''could not parse a dylib_command in the inner arm64 image''"

definition Main_In_Dylib :: error where
  "Main_In_Dylib = ''a dynamic library should not contain a `LC_MAIN` load command''"

definition No_Entry_Point :: error where
  "No_Entry_Point = ''could not parse `entry_point_command` in the inner arm64 image''"

definition No_Rpath_Command :: error where
  "No_Rpath_Command = ''could not parse `rpath_command` in the inner arm64 image''"

definition Unknown_Rpath :: error where
  "Unknown_Rpath = ''coulnt not parse rpath: unknown placeholder''"

definition No_Symtab_Command :: error where
  "No_Symtab_Command = ''could not parse `symtab_command` in the inner arm64 image''"

definition No_Nlist :: error where
  "No_Nlist = ''could not parse `nlist_64` in the inner arm64 image''"

definition No_Symbol_Name :: error where
  "No_Symbol_Name = ''could not read symbol name''"

definition AltEntry_TranslationUnit :: error where
  "AltEntry_TranslationUnit = ''makeAltEntry with Scope::translationUnit''"

definition WeakDef_WasPrivateExtern :: error where
  "WeakDef_WasPrivateExtern = ''makeWeakDefWasPrivateExtern''"

definition AltEntry_WasLinkageUnit :: error where
  "AltEntry_WasLinkageUnit = ''unsupported makeAltEntry with Scope::wasLinkageUnit''"

definition AltEntry_LinkageUnit :: error where
  "AltEntry_LinkageUnit = ''makeAltEntry with Scope::linkageUnit''"

definition WeakDef_Hidden :: error where
  "WeakDef_Hidden = ''makeWeakDefHidden''"

definition Resolver_LinkageUnit :: error where
  "Resolver_LinkageUnit = ''makeDynamicResolver with Scope::linkageUnit''"

definition Regular_Hidden :: error where
  "Regular_Hidden = ''makeRegularHidden''"

definition AltEntry_Global :: error where
  "AltEntry_Global = ''makeAltEntry with Scope::global''"

definition WeakDef_AutoHide :: error where
  "WeakDef_AutoHide = ''makeWeakDefAutoHide''"

definition Resolver_Global :: error where
  "Resolver_Global = ''makeDynamicResolver''"

definition Unknown_Symbol_Kind :: error where
  "Unknown_Symbol_Kind = ''unknown symbol kind''"

definition No_Segment_Command :: error where
  "No_Segment_Command = ''could not parse `segment_command_64` in the inner arm64 image''"

definition No_Section :: error where
  "No_Section = ''could not parse `section_64` in the inner arm64 image''"

definition No_Init_Func_Offsets :: error where
  "No_Init_Func_Offsets = ''could not parse S_INIT_FUNC_OFFSETS''"

definition Vm_Alloc_Failed :: error where
  "Vm_Alloc_Failed = ''failed to vm_alloc_task_self''"

definition Vm_Protect_Failed :: error where
  "Vm_Protect_Failed = ''could not apply vm protections to a memory region''"

definition No_Cache_Header :: error where
  "No_Cache_Header = ''could not deserialize dyld_cache_header''"

definition No_Subcache_Entry :: error where
  "No_Subcache_Entry = ''could not deserialize dyld_subcache_entry''"

definition No_Image_Info :: error where
  "No_Image_Info = ''could not deserialize dyld_cache_image_info''"

definition Path_Not_Mapped :: error where
  "Path_Not_Mapped = ''image path offset not covered by any mapping''"

definition Vm_Address_Not_Mapped :: error where
  "Vm_Address_Not_Mapped = ''vm address not covered by any cache mapping''"

definition No_First_Mapping :: error where
  "No_First_Mapping = ''could not read first mapping_info''"

definition No_Mapping_Info :: error where
  "No_Mapping_Info = ''could not read mapping_info''"

definition Img_No_Header :: error where
  "Img_No_Header = ''could not read mach_header_64''"

definition Img_No_Load_Command :: error where
  "Img_No_Load_Command = ''could not read load_command header''"

definition Img_No_Dylib_Header :: error where
  "Img_No_Dylib_Header = ''could not read dylib_command_header''"

definition Img_No_Linkedit_Data :: error where
  "Img_No_Linkedit_Data = ''could not read linkedit_data_command''"

definition Img_No_Dyld_Info :: error where
  "Img_No_Dyld_Info = ''could not read dyld_info_command''"

definition Img_No_Segment :: error where
  "Img_No_Segment = ''could not read segment_command_64''"

definition Open_Failed :: error where
  "Open_Failed = ''could not open path''"

definition Stat_Failed :: error where
  "Stat_Failed = ''could not stat cache file''"

definition Mmap_Failed :: error where
  "Mmap_Failed = ''could not mmap cache file''"

definition Not_Arm64_Or_Fat :: error where
  "Not_Arm64_Or_Fat = ''Not a valid ARM64 Mach-O or fat binary''"

definition No_Inner_Header :: error where
  "No_Inner_Header = ''error: could not read `mach_header_64` from inner mach-o''"

datatype panic =
    Arith_Overflow       \<comment> \<open>attempt to add/subtract/multiply with overflow\<close>
  | Index_Bounds         \<comment> \<open>index or slice bound out of range\<close>
  | Str_Out_Of_Bounds    \<comment> \<open>panic!("out of bounds")\<close>
  | Str_No_Nul           \<comment> \<open>panic!("no null terminator")\<close>
  | Str_Invalid_Utf8     \<comment> \<open>panic!("invalid UTF-8")\<close>
  | ArrayVec_Full        \<comment> \<open>panic!("ArrayVec is full")\<close>
  | Unwrap_Failed        \<comment> \<open>unwrap or expect on None or Err\<close>
  | Debug_Assertion      \<comment> \<open>debug\_assert! in a build with debug assertions\<close>
  | Unimplemented        \<comment> \<open>unimplemented!()\<close>
  | Exit_Error           \<comment> \<open>the process left through libc::exit\_error\<close>
  | Uninit_Read          \<comment> \<open>undefined behaviour: a read of memory that was never written\<close>
  | Wild_Access          \<comment> \<open>undefined behaviour: an access outside the object\<close>
  | Invalid_Enum         \<comment> \<open>undefined behaviour: a value that is none of its enum\<close>

text \<open>
  The outcome of a Rust call that returns \<open>Result<'a, &'static str>\<close>. \<open>Diverge\<close> is a call that
  never returns: the value of a loop whose fuel ran out, so that "it returns" can be stated.
\<close>

datatype 'a res = Ok 'a | Err error | Panic panic | Diverge

primrec rbind :: "'a res \<Rightarrow> ('a \<Rightarrow> 'b res) \<Rightarrow> 'b res" where
  "rbind (Ok x) f = f x"
| "rbind (Err e) f = Err e"
| "rbind (Panic p) f = Panic p"
| "rbind Diverge f = Diverge"

definition ok_or :: "error \<Rightarrow> 'a option \<Rightarrow> 'a res" where
  "ok_or e x = (case x of None \<Rightarrow> Err e | Some v \<Rightarrow> Ok v)"

definition unwrap :: "'a option \<Rightarrow> 'a res" where
  "unwrap x = (case x of None \<Rightarrow> Panic Unwrap_Failed | Some v \<Rightarrow> Ok v)"

text \<open>\<open>let Some(x) = m? else { return Ok(None) }\<close>, and \<open>?\<close> inside a function that returns an
  \<open>Option\<close>.\<close>

definition obind :: "'a option res \<Rightarrow> ('a \<Rightarrow> 'b option res) \<Rightarrow> 'b option res" where
  "obind m f = rbind m (\<lambda>x. case x of None \<Rightarrow> Ok None | Some v \<Rightarrow> f v)"

definition returns :: "'a res \<Rightarrow> bool" where
  "returns r \<longleftrightarrow> r \<noteq> Diverge"

definition no_panic :: "'a res \<Rightarrow> bool" where
  "no_panic r \<longleftrightarrow> (\<forall>p. r \<noteq> Panic p)"

lemma rbind_cong [fundef_cong]:
  "m = m' \<Longrightarrow> (\<And>x. m' = Ok x \<Longrightarrow> f x = g x) \<Longrightarrow> rbind m f = rbind m' g"
  by (cases m') auto

lemma rbind_Ok_iff [res_simps]: "rbind m f = Ok y \<longleftrightarrow> (\<exists>x. m = Ok x \<and> f x = Ok y)"
  by (cases m) auto

lemma rbind_Err_iff [res_simps]:
  "rbind m f = Err e \<longleftrightarrow> m = Err e \<or> (\<exists>x. m = Ok x \<and> f x = Err e)"
  by (cases m) auto

lemma rbind_Panic_iff [res_simps]:
  "rbind m f = Panic p \<longleftrightarrow> m = Panic p \<or> (\<exists>x. m = Ok x \<and> f x = Panic p)"
  by (cases m) auto

lemma rbind_Diverge_iff [res_simps]:
  "rbind m f = Diverge \<longleftrightarrow> m = Diverge \<or> (\<exists>x. m = Ok x \<and> f x = Diverge)"
  by (cases m) auto

lemma rbind_assoc: "rbind (rbind m f) g = rbind m (\<lambda>x. rbind (f x) g)"
  by (cases m) auto

lemma rbind_Ok_right [simp]: "rbind m Ok = m"
  by (cases m) auto

lemma ok_or_simps [simp]:
  "ok_or e (Some v) = Ok v" "ok_or e None = Err e"
  by (simp_all add: ok_or_def)

lemma ok_or_Ok_iff [res_simps]: "ok_or e x = Ok v \<longleftrightarrow> x = Some v"
  by (cases x) auto

lemma ok_or_Err_iff [res_simps]: "ok_or e x = Err e' \<longleftrightarrow> x = None \<and> e' = e"
  by (cases x) auto

lemma ok_or_total [simp]: "ok_or e x \<noteq> Panic p" "ok_or e x \<noteq> Diverge"
  by (cases x; simp)+

lemma unwrap_simps [simp]:
  "unwrap (Some v) = Ok v" "unwrap None = Panic Unwrap_Failed"
  by (simp_all add: unwrap_def)

lemma unwrap_Ok_iff [res_simps]: "unwrap x = Ok v \<longleftrightarrow> x = Some v"
  by (cases x) auto

lemma obind_simps [simp]:
  "obind (Ok None) f = Ok None" "obind (Ok (Some v)) f = f v"
  "obind (Err e) f = Err e" "obind (Panic p) f = Panic p" "obind Diverge f = Diverge"
  by (simp_all add: obind_def)

lemma obind_cong [fundef_cong]:
  "m = m' \<Longrightarrow> (\<And>x. m' = Ok (Some x) \<Longrightarrow> f x = g x) \<Longrightarrow> obind m f = obind m' g"
  by (cases m') (auto simp: obind_def split: option.splits)

lemma obind_Ok_Some_iff [res_simps]:
  "obind m f = Ok (Some y) \<longleftrightarrow> (\<exists>x. m = Ok (Some x) \<and> f x = Ok (Some y))"
  by (cases m) (auto simp: obind_def split: option.splits)

lemma obind_Ok_None_iff [res_simps]:
  "obind m f = Ok None \<longleftrightarrow> m = Ok None \<or> (\<exists>x. m = Ok (Some x) \<and> f x = Ok None)"
  by (cases m) (auto simp: obind_def split: option.splits)

lemma obind_Panic_iff [res_simps]:
  "obind m f = Panic p \<longleftrightarrow> m = Panic p \<or> (\<exists>x. m = Ok (Some x) \<and> f x = Panic p)"
  by (cases m) (auto simp: obind_def split: option.splits)

lemma obind_Err_iff [res_simps]:
  "obind m f = Err e \<longleftrightarrow> m = Err e \<or> (\<exists>x. m = Ok (Some x) \<and> f x = Err e)"
  by (cases m) (auto simp: obind_def split: option.splits)

lemma obind_Diverge_iff [res_simps]:
  "obind m f = Diverge \<longleftrightarrow> m = Diverge \<or> (\<exists>x. m = Ok (Some x) \<and> f x = Diverge)"
  by (cases m) (auto simp: obind_def split: option.splits)

section \<open>Arithmetic of the two build profiles\<close>

text \<open>
  \<open>a + b\<close>, \<open>a - b\<close> and \<open>a * b\<close> on unsigned integers panic on overflow in the dev profile and
  wrap in the release profile; \<open>tools/launcher/Makefile\<close> builds either. The first argument says
  whether the build has overflow checks.
\<close>

definition wadd :: "bool \<Rightarrow> 'a::len word \<Rightarrow> 'a word \<Rightarrow> 'a word res" where
  "wadd oc a b = (if oc \<and> 2 ^ LENGTH('a) \<le> unat a + unat b then Panic Arith_Overflow else Ok (a + b))"

definition wsub :: "bool \<Rightarrow> 'a::len word \<Rightarrow> 'a word \<Rightarrow> 'a word res" where
  "wsub oc a b = (if oc \<and> unat a < unat b then Panic Arith_Overflow else Ok (a - b))"

definition wmul :: "bool \<Rightarrow> 'a::len word \<Rightarrow> 'a word \<Rightarrow> 'a word res" where
  "wmul oc a b = (if oc \<and> 2 ^ LENGTH('a) \<le> unat a * unat b then Panic Arith_Overflow else Ok (a * b))"

definition checked_add :: "'a::len word \<Rightarrow> 'a word \<Rightarrow> 'a word option" where
  "checked_add a b = (if unat a + unat b < 2 ^ LENGTH('a) then Some (a + b) else None)"

definition checked_sub :: "'a::len word \<Rightarrow> 'a word \<Rightarrow> 'a word option" where
  "checked_sub a b = (if unat b \<le> unat a then Some (a - b) else None)"

lemma wadd_fits [simp]: "unat a + unat b < 2 ^ LENGTH('a) \<Longrightarrow> wadd oc a b = Ok (a + b)"
  for a b :: "'a::len word"
  by (simp add: wadd_def)

lemma wadd_unchecked [simp]: "wadd False a b = Ok (a + b)"
  by (simp add: wadd_def)

lemma wsub_unchecked [simp]: "wsub False a b = Ok (a - b)"
  by (simp add: wsub_def)

lemma wmul_unchecked [simp]: "wmul False a b = Ok (a * b)"
  by (simp add: wmul_def)

lemma wsub_fits [simp]: "unat b \<le> unat a \<Longrightarrow> wsub oc a b = Ok (a - b)"
  by (simp add: wsub_def)

lemma wadd_Ok_iff [res_simps]:
  "wadd oc a b = Ok c \<longleftrightarrow> c = a + b \<and> (oc \<longrightarrow> unat a + unat b < 2 ^ LENGTH('a))"
  for a b :: "'a::len word"
  by (auto simp: wadd_def not_le)

lemma wadd_not_Err [simp]: "wadd oc a b \<noteq> Err e" "wadd oc a b \<noteq> Diverge"
  by (simp_all add: wadd_def)

lemma wsub_not_Err [simp]: "wsub oc a b \<noteq> Err e" "wsub oc a b \<noteq> Diverge"
  by (simp_all add: wsub_def)

lemma wmul_not_Err [simp]: "wmul oc a b \<noteq> Err e" "wmul oc a b \<noteq> Diverge"
  by (simp_all add: wmul_def)

lemma wadd_Panic_iff [res_simps]:
  "wadd oc a b = Panic p \<longleftrightarrow> oc \<and> 2 ^ LENGTH('a) \<le> unat a + unat b \<and> p = Arith_Overflow"
  for a b :: "'a::len word"
  by (auto simp: wadd_def)

lemma wsub_Ok_iff [res_simps]:
  "wsub oc a b = Ok c \<longleftrightarrow> c = a - b \<and> (oc \<longrightarrow> unat b \<le> unat a)"
  by (auto simp: wsub_def not_less)

lemma unat_add_fits [word_bounds]:
  "unat a + unat b < 2 ^ LENGTH('a) \<Longrightarrow> unat (a + b) = unat a + unat b"
  for a b :: "'a::len word"
  by (simp add: unat_word_ariths)

lemma unat_of_nat_fits [word_bounds]:
  "n < 2 ^ LENGTH('a) \<Longrightarrow> unat (of_nat n :: 'a::len word) = n"
  by (simp add: unat_of_nat take_bit_nat_eq_self)

lemma of_nat_eq_fits:
  "m < 2 ^ LENGTH('a) \<Longrightarrow> n < 2 ^ LENGTH('a) \<Longrightarrow> (of_nat m :: 'a::len word) = of_nat n \<longleftrightarrow> m = n"
  by (metis unat_of_nat_fits)

lemma unat_ucast_up [simp]:
  "LENGTH('a) \<le> LENGTH('b) \<Longrightarrow> unat (ucast w :: 'b::len word) = unat w" for w :: "'a::len word"
  by (simp add: unsigned_ucast_eq take_bit_nat_eq_self order_less_le_trans [OF unsigned_less])

lemma unat_pred [word_bounds]: "w \<noteq> 0 \<Longrightarrow> unat (w - 1) = unat w - 1" for w :: "'a::len word"
  by (rule unat_minus_one)

lemma unat_sub_fits [word_bounds]: "unat b \<le> unat a \<Longrightarrow> unat (a - b) = unat a - unat b"
  by (rule unat_sub) (simp only: word_le_nat_alt)

lemma checked_add_Some_iff:
  "checked_add a b = Some c \<longleftrightarrow> unat a + unat b < 2 ^ LENGTH('a) \<and> c = a + b"
  for a b :: "'a::len word"
  by (auto simp: checked_add_def)

section \<open>Slices\<close>

definition slice_from :: "'a list \<Rightarrow> usize \<Rightarrow> 'a list res" where
  "slice_from xs i = (if unat i \<le> length xs then Ok (drop (unat i) xs) else Panic Index_Bounds)"

definition index_at :: "'a list \<Rightarrow> usize \<Rightarrow> 'a res" where
  "index_at xs i = (if unat i < length xs then Ok (xs ! unat i) else Panic Index_Bounds)"

text \<open>\<open>xs[i..i + n]\<close> and \<open>xs.get(i..j)\<close>.\<close>

definition slice_range :: "'a list \<Rightarrow> usize \<Rightarrow> usize \<Rightarrow> 'a list res" where
  "slice_range xs i j =
     (if unat i \<le> unat j \<and> unat j \<le> length xs
      then Ok (take (unat j - unat i) (drop (unat i) xs)) else Panic Index_Bounds)"

definition get_range :: "'a list \<Rightarrow> usize \<Rightarrow> usize \<Rightarrow> 'a list option" where
  "get_range xs i j =
     (if unat i \<le> unat j \<and> unat j \<le> length xs
      then Some (take (unat j - unat i) (drop (unat i) xs)) else None)"

fun position :: "('a \<Rightarrow> bool) \<Rightarrow> 'a list \<Rightarrow> nat option" where
  "position P [] = None"
| "position P (x # xs) = (if P x then Some 0 else map_option Suc (position P xs))"

fun starts_with :: "'a list \<Rightarrow> 'a list \<Rightarrow> bool" where
  "starts_with xs [] = True"
| "starts_with [] (y # ys) = False"
| "starts_with (x # xs) (y # ys) = (x = y \<and> starts_with xs ys)"

text \<open>\<open>Iterator::find_map\<close> over an iterator whose items may panic.\<close>

fun find_map :: "('a \<Rightarrow> 'b option res) \<Rightarrow> 'a list \<Rightarrow> 'b option res" where
  "find_map f [] = Ok None"
| "find_map f (x # xs) =
     rbind (f x) (\<lambda>r. case r of Some y \<Rightarrow> Ok (Some y) | None \<Rightarrow> find_map f xs)"

lemma position_Some_iff:
  "position P xs = Some n \<longleftrightarrow> n < length xs \<and> P (xs ! n) \<and> (\<forall>i < n. \<not> P (xs ! i))"
proof (induction xs arbitrary: n)
  case Nil
  then show ?case by simp
next
  case (Cons x xs)
  show ?case
  proof (cases n)
    case 0
    then show ?thesis by auto
  next
    case (Suc m)
    show ?thesis
      unfolding Suc All_less_Suc2 using Cons.IH [of m] by auto
  qed
qed

lemma position_None_iff: "position P xs = None \<longleftrightarrow> (\<forall>x \<in> set xs. \<not> P x)"
  by (induction xs) auto

lemma position_less [dest]: "position P xs = Some n \<Longrightarrow> n < length xs"
  by (simp add: position_Some_iff)

lemma position_append_first:
  "\<forall>x \<in> set xs. \<not> P x \<Longrightarrow> P y \<Longrightarrow> position P (xs @ y # ys) = Some (length xs)"
  by (induction xs) auto

lemma starts_with_iff: "starts_with xs ys \<longleftrightarrow> (\<exists>zs. xs = ys @ zs)"
  by (induction xs ys rule: starts_with.induct) auto

lemma starts_with_length: "starts_with xs ys \<Longrightarrow> length ys \<le> length xs"
  by (auto simp: starts_with_iff)

lemma slice_from_Ok_iff [res_simps]:
  "slice_from xs i = Ok ys \<longleftrightarrow> unat i \<le> length xs \<and> ys = drop (unat i) xs"
  by (auto simp: slice_from_def)

lemma slice_from_fits [simp]: "unat i \<le> length xs \<Longrightarrow> slice_from xs i = Ok (drop (unat i) xs)"
  by (simp add: slice_from_def)

lemma slice_range_fits [simp]:
  "unat i \<le> unat j \<Longrightarrow> unat j \<le> length xs \<Longrightarrow>
     slice_range xs i j = Ok (take (unat j - unat i) (drop (unat i) xs))"
  by (simp add: slice_range_def)

lemma index_at_fits [simp]: "unat i < length xs \<Longrightarrow> index_at xs i = Ok (xs ! unat i)"
  by (simp add: index_at_def)

text \<open>The same operations at an index known as a natural number.\<close>

lemma wadd_of_nat [word_bounds]:
  "p + k < 2 ^ LENGTH('a) \<Longrightarrow> wadd oc (of_nat p) (of_nat k) = Ok (of_nat (p + k) :: 'a::len word)"
  by (simp add: unat_of_nat_fits)

lemma slice_from_of_nat [word_bounds]:
  "p \<le> length xs \<Longrightarrow> length xs < 2 ^ 64 \<Longrightarrow> slice_from xs (of_nat p) = Ok (drop p xs)"
  by (simp add: unat_of_nat_fits)

lemma index_at_of_nat [word_bounds]:
  "p < length xs \<Longrightarrow> length xs < 2 ^ 64 \<Longrightarrow> index_at xs (of_nat p) = Ok (xs ! p)"
  by (simp add: unat_of_nat_fits)

lemma slice_range_of_nat [word_bounds]:
  "p \<le> q \<Longrightarrow> q \<le> length xs \<Longrightarrow> length xs < 2 ^ 64 \<Longrightarrow>
     slice_range xs (of_nat p) (of_nat q) = Ok (take (q - p) (drop p xs))"
  by (simp add: unat_of_nat_fits)

lemma find_map_cong [fundef_cong]:
  "xs = ys \<Longrightarrow> (\<And>x. x \<in> set ys \<Longrightarrow> f x = g x) \<Longrightarrow> find_map f xs = find_map g ys"
proof (induction ys arbitrary: xs)
  case Nil
  then show ?case by simp
next
  case (Cons y ys)
  then have "find_map f ys = find_map g ys" by simp
  with Cons.prems show ?case by simp
qed

section \<open>Memory as an interface\<close>

text \<open>
  What the code needs of a memory it stores records in: a store is read back where it was made, and a
  store elsewhere does not touch it. \<open>store_all\<close> makes several stores in turn, \<open>None\<close> being none.
\<close>

fun store_all :: "('m \<Rightarrow> 'a \<Rightarrow> 'v \<Rightarrow> 'm) \<Rightarrow> ('a \<times> 'v option) list \<Rightarrow> 'm \<Rightarrow> 'm" where
  "store_all wr [] m = m"
| "store_all wr ((a, v) # ws) m = store_all wr ws (case v of None \<Rightarrow> m | Some w \<Rightarrow> wr m a w)"

locale memory =
  fixes rd :: "'m \<Rightarrow> 'a \<Rightarrow> 'v" and wr :: "'m \<Rightarrow> 'a \<Rightarrow> 'v \<Rightarrow> 'm"
    and valid :: "'v \<Rightarrow> bool" and apart :: "'a \<Rightarrow> 'a \<Rightarrow> bool"
  assumes rd_same: "valid v \<Longrightarrow> rd (wr m a v) a = v"
    and rd_other: "apart a b \<Longrightarrow> rd (wr m a v) b = rd m b"
    and apart_sym: "apart a b \<Longrightarrow> apart b a"
begin

lemma rd_store_all_other:
  "\<forall>a \<in> set (map fst ws). apart a b \<Longrightarrow> rd (store_all wr ws m) b = rd m b"
  by (induction ws arbitrary: m) (auto simp: rd_other split: option.split)

lemma rd_store_all:
  assumes "sorted_wrt apart (map fst ws)" "\<forall>a w. (a, Some w) \<in> set ws \<longrightarrow> valid w" "(a, v) \<in> set ws"
  shows "rd (store_all wr ws m) a = (case v of None \<Rightarrow> rd m a | Some w \<Rightarrow> w)"
  using assms
proof (induction ws arbitrary: m)
  case (Cons x ws)
  obtain b u where x: "x = (b, u)" by fastforce
  let ?m = "case u of None \<Rightarrow> m | Some w \<Rightarrow> wr m b w"
  show ?case
  proof (cases "(a, v) \<in> set ws")
    case True
    then have "a \<in> set (map fst ws)" by (force simp: image_iff)
    then have "apart b a" using Cons.prems(1) x by auto
    with Cons.IH [of ?m] Cons.prems True x show ?thesis by (auto simp: rd_other split: option.split)
  next
    case False
    with Cons.prems(3) x have e: "a = b" "v = u" by auto
    have "rd (store_all wr ws ?m) b = rd ?m b"
      by (rule rd_store_all_other) (use Cons.prems(1) x apart_sym in auto)
    with Cons.prems(2) x e show ?thesis by (auto simp: rd_same split: option.split)
  qed
qed simp

end

section \<open>UTF-8\<close>

text \<open>
  \<open>core::str::from_utf8\<close> accepts exactly the well-formed byte sequences of the Unicode standard
  (table 3-7): no overlong form, no surrogate, nothing above U+10FFFF.
\<close>

definition utf8_cont :: "u8 \<Rightarrow> bool" where
  "utf8_cont b \<longleftrightarrow> 0x80 \<le> b \<and> b \<le> 0xBF"

fun utf8_valid :: "bytes \<Rightarrow> bool" where
  "utf8_valid [] = True"
| "utf8_valid (a # bs) =
     (if a \<le> 0x7F then utf8_valid bs
      else case bs of
        [] \<Rightarrow> False
      | b # cs \<Rightarrow>
          if 0xC2 \<le> a \<and> a \<le> 0xDF then utf8_cont b \<and> utf8_valid cs
          else (case cs of
            [] \<Rightarrow> False
          | c # ds \<Rightarrow>
              if 0xE0 \<le> a \<and> a \<le> 0xEF then
                utf8_cont b \<and> utf8_cont c \<and>
                (a = 0xE0 \<longrightarrow> 0xA0 \<le> b) \<and> (a = 0xED \<longrightarrow> b \<le> 0x9F) \<and> utf8_valid ds
              else (case ds of
                [] \<Rightarrow> False
              | d # es \<Rightarrow>
                  0xF0 \<le> a \<and> a \<le> 0xF4 \<and> utf8_cont b \<and> utf8_cont c \<and> utf8_cont d \<and>
                  (a = 0xF0 \<longrightarrow> 0x90 \<le> b) \<and> (a = 0xF4 \<longrightarrow> b \<le> 0x8F) \<and> utf8_valid es)))"

lemma utf8_valid_ascii: "\<forall>b \<in> set bs. b \<le> 0x7F \<Longrightarrow> utf8_valid bs"
  by (induction bs) auto

text \<open>A literal of the source as its bytes.\<close>

definition lit :: "string \<Rightarrow> bytes" where
  "lit s = map (\<lambda>c. of_nat (of_char c)) s"

end
