(* ===== verification/Macho_Bindings.thy ===== *)
theory Macho_Bindings
  imports Rust_Prelude
begin

unbundle bit_operations_syntax

text \<open>
  The Mach-O types of \<open>src/src/bindings_macho.rs\<close>: every enum with its discriminants, every struct
  that the linker reads as a record (field names carry a short prefix, since record fields are global
  names), the layout that \<open>repr(C)\<close> gives it, the flag constants, and the bit-field accessors of the
  chained-fixup words. The lemmas show that the discriminants are pairwise distinct, that the accessors
  of one word lose no bit, and that library ordinals survive being stored in \<open>n_desc\<close>.
\<close>

section \<open>CPU types and magic numbers\<close>

definition CPU_ARCH_ABI64 :: i32 where
  [const_defs]: "CPU_ARCH_ABI64 = 0x01000000"

definition CPU_TYPE_ARM :: i32 where
  [const_defs]: "CPU_TYPE_ARM = 12"

definition CPU_TYPE_ARM64 :: i32 where
  [const_defs]: "CPU_TYPE_ARM64 = CPU_TYPE_ARM OR CPU_ARCH_ABI64"

datatype (plugins only: code) mach_magic =
    MH_MAGIC
  | MH_CIGAM
  | MH_MAGIC_64
  | MH_CIGAM_64
  | FAT_MAGIC
  | FAT_CIGAM
  | FAT_MAGIC_64
  | FAT_CIGAM_64

primrec mach_magic_repr :: "mach_magic \<Rightarrow> u32" where
    "mach_magic_repr MH_MAGIC = 0xfeedface"
  | "mach_magic_repr MH_CIGAM = 0xcefaedfe"
  | "mach_magic_repr MH_MAGIC_64 = 0xfeedfacf"
  | "mach_magic_repr MH_CIGAM_64 = 0xcffaedfe"
  | "mach_magic_repr FAT_MAGIC = 0xcafebabe"
  | "mach_magic_repr FAT_CIGAM = 0xbebafeca"
  | "mach_magic_repr FAT_MAGIC_64 = 0xcafebabf"
  | "mach_magic_repr FAT_CIGAM_64 = 0xbfbafeca"

definition mach_magic_all :: "mach_magic list" where
  "mach_magic_all = [MH_MAGIC, MH_CIGAM, MH_MAGIC_64, MH_CIGAM_64, FAT_MAGIC, FAT_CIGAM, FAT_MAGIC_64, FAT_CIGAM_64]"

datatype (plugins only: code) macho_filetype_variants =
    MH_OBJECT
  | MH_EXECUTE
  | MH_FVMLIB
  | MH_CORE
  | MH_PRELOAD
  | MH_DYLIB
  | MH_DYLINKER
  | MH_BUNDLE
  | MH_DYLIB_STUB
  | MH_DSYM
  | MH_KEXT_BUNDLE
  | MH_FILESET
  | MH_GPU_EXECUTE
  | MH_GPU_DYLIB

primrec macho_filetype_variants_repr :: "macho_filetype_variants \<Rightarrow> u32" where
    "macho_filetype_variants_repr MH_OBJECT = 0x1"
  | "macho_filetype_variants_repr MH_EXECUTE = 0x2"
  | "macho_filetype_variants_repr MH_FVMLIB = 0x3"
  | "macho_filetype_variants_repr MH_CORE = 0x4"
  | "macho_filetype_variants_repr MH_PRELOAD = 0x5"
  | "macho_filetype_variants_repr MH_DYLIB = 0x6"
  | "macho_filetype_variants_repr MH_DYLINKER = 0x7"
  | "macho_filetype_variants_repr MH_BUNDLE = 0x8"
  | "macho_filetype_variants_repr MH_DYLIB_STUB = 0x9"
  | "macho_filetype_variants_repr MH_DSYM = 0xa"
  | "macho_filetype_variants_repr MH_KEXT_BUNDLE = 0xb"
  | "macho_filetype_variants_repr MH_FILESET = 0xc"
  | "macho_filetype_variants_repr MH_GPU_EXECUTE = 0xd"
  | "macho_filetype_variants_repr MH_GPU_DYLIB = 0xe"

definition macho_filetype_variants_all :: "macho_filetype_variants list" where
  "macho_filetype_variants_all = [MH_OBJECT, MH_EXECUTE, MH_FVMLIB, MH_CORE, MH_PRELOAD, MH_DYLIB, MH_DYLINKER, MH_BUNDLE, MH_DYLIB_STUB, MH_DSYM, MH_KEXT_BUNDLE, MH_FILESET, MH_GPU_EXECUTE, MH_GPU_DYLIB]"

section \<open>Load commands\<close>

definition LC_REQ_DYLD :: u32 where
  [const_defs]: "LC_REQ_DYLD = 0x80000000"

datatype (plugins only: code) load_command_variants =
    LC_SEGMENT
  | LC_SYMTAB
  | LC_SYMSEG
  | LC_THREAD
  | LC_UNIXTHREAD
  | LC_LOADFVMLIB
  | LC_IDFVMLIB
  | LC_IDENT
  | LC_FVMFILE
  | LC_PREPAGE
  | LC_DYSYMTAB
  | LC_LOAD_DYLIB
  | LC_ID_DYLIB
  | LC_LOAD_DYLINKER
  | LC_ID_DYLINKER
  | LC_PREBOUND_DYLIB
  | LC_ROUTINES
  | LC_SUB_FRAMEWORK
  | LC_SUB_UMBRELLA
  | LC_SUB_CLIENT
  | LC_SUB_LIBRARY
  | LC_TWOLEVEL_HINTS
  | LC_PREBIND_CKSUM
  | LC_LOAD_WEAK_DYLIB
  | LC_SEGMENT_64
  | LC_ROUTINES_64
  | LC_UUID
  | LC_RPATH
  | LC_CODE_SIGNATURE
  | LC_SEGMENT_SPLIT_INFO
  | LC_REEXPORT_DYLIB
  | LC_LAZY_LOAD_DYLIB
  | LC_ENCRYPTION_INFO
  | LC_DYLD_INFO
  | LC_DYLD_INFO_ONLY
  | LC_LOAD_UPWARD_DYLIB
  | LC_VERSION_MIN_MACOSX
  | LC_VERSION_MIN_IPHONEOS
  | LC_FUNCTION_STARTS
  | LC_DYLD_ENVIRONMENT
  | LC_MAIN
  | LC_DATA_IN_CODE
  | LC_SOURCE_VERSION
  | LC_DYLIB_CODE_SIGN_DRS
  | LC_ENCRYPTION_INFO_64
  | LC_LINKER_OPTION
  | LC_LINKER_OPTIMIZATION_HINT
  | LC_VERSION_MIN_TVOS
  | LC_VERSION_MIN_WATCHOS
  | LC_NOTE
  | LC_BUILD_VERSION
  | LC_DYLD_EXPORTS_TRIE
  | LC_DYLD_CHAINED_FIXUPS
  | LC_FILESET_ENTRY
  | LC_ATOM_INFO
  | LC_FUNCTION_VARIANTS
  | LC_FUNCTION_VARIANT_FIXUPS
  | LC_TARGET_TRIPLE

primrec load_command_variants_repr :: "load_command_variants \<Rightarrow> u32" where
    "load_command_variants_repr LC_SEGMENT = 0x1"
  | "load_command_variants_repr LC_SYMTAB = 0x2"
  | "load_command_variants_repr LC_SYMSEG = 0x3"
  | "load_command_variants_repr LC_THREAD = 0x4"
  | "load_command_variants_repr LC_UNIXTHREAD = 0x5"
  | "load_command_variants_repr LC_LOADFVMLIB = 0x6"
  | "load_command_variants_repr LC_IDFVMLIB = 0x7"
  | "load_command_variants_repr LC_IDENT = 0x8"
  | "load_command_variants_repr LC_FVMFILE = 0x9"
  | "load_command_variants_repr LC_PREPAGE = 0xa"
  | "load_command_variants_repr LC_DYSYMTAB = 0xb"
  | "load_command_variants_repr LC_LOAD_DYLIB = 0xc"
  | "load_command_variants_repr LC_ID_DYLIB = 0xd"
  | "load_command_variants_repr LC_LOAD_DYLINKER = 0xe"
  | "load_command_variants_repr LC_ID_DYLINKER = 0xf"
  | "load_command_variants_repr LC_PREBOUND_DYLIB = 0x10"
  | "load_command_variants_repr LC_ROUTINES = 0x11"
  | "load_command_variants_repr LC_SUB_FRAMEWORK = 0x12"
  | "load_command_variants_repr LC_SUB_UMBRELLA = 0x13"
  | "load_command_variants_repr LC_SUB_CLIENT = 0x14"
  | "load_command_variants_repr LC_SUB_LIBRARY = 0x15"
  | "load_command_variants_repr LC_TWOLEVEL_HINTS = 0x16"
  | "load_command_variants_repr LC_PREBIND_CKSUM = 0x17"
  | "load_command_variants_repr LC_LOAD_WEAK_DYLIB = 0x18 OR LC_REQ_DYLD"
  | "load_command_variants_repr LC_SEGMENT_64 = 0x19"
  | "load_command_variants_repr LC_ROUTINES_64 = 0x1a"
  | "load_command_variants_repr LC_UUID = 0x1b"
  | "load_command_variants_repr LC_RPATH = 0x1c OR LC_REQ_DYLD"
  | "load_command_variants_repr LC_CODE_SIGNATURE = 0x1d"
  | "load_command_variants_repr LC_SEGMENT_SPLIT_INFO = 0x1e"
  | "load_command_variants_repr LC_REEXPORT_DYLIB = 0x1f OR LC_REQ_DYLD"
  | "load_command_variants_repr LC_LAZY_LOAD_DYLIB = 0x20"
  | "load_command_variants_repr LC_ENCRYPTION_INFO = 0x21"
  | "load_command_variants_repr LC_DYLD_INFO = 0x22"
  | "load_command_variants_repr LC_DYLD_INFO_ONLY = 0x22 OR LC_REQ_DYLD"
  | "load_command_variants_repr LC_LOAD_UPWARD_DYLIB = 0x23 OR LC_REQ_DYLD"
  | "load_command_variants_repr LC_VERSION_MIN_MACOSX = 0x24"
  | "load_command_variants_repr LC_VERSION_MIN_IPHONEOS = 0x25"
  | "load_command_variants_repr LC_FUNCTION_STARTS = 0x26"
  | "load_command_variants_repr LC_DYLD_ENVIRONMENT = 0x27"
  | "load_command_variants_repr LC_MAIN = 0x28 OR LC_REQ_DYLD"
  | "load_command_variants_repr LC_DATA_IN_CODE = 0x29"
  | "load_command_variants_repr LC_SOURCE_VERSION = 0x2a"
  | "load_command_variants_repr LC_DYLIB_CODE_SIGN_DRS = 0x2b"
  | "load_command_variants_repr LC_ENCRYPTION_INFO_64 = 0x2c"
  | "load_command_variants_repr LC_LINKER_OPTION = 0x2d"
  | "load_command_variants_repr LC_LINKER_OPTIMIZATION_HINT = 0x2e"
  | "load_command_variants_repr LC_VERSION_MIN_TVOS = 0x2f"
  | "load_command_variants_repr LC_VERSION_MIN_WATCHOS = 0x30"
  | "load_command_variants_repr LC_NOTE = 0x31"
  | "load_command_variants_repr LC_BUILD_VERSION = 0x32"
  | "load_command_variants_repr LC_DYLD_EXPORTS_TRIE = 0x33 OR LC_REQ_DYLD"
  | "load_command_variants_repr LC_DYLD_CHAINED_FIXUPS = 0x34 OR LC_REQ_DYLD"
  | "load_command_variants_repr LC_FILESET_ENTRY = 0x35 OR LC_REQ_DYLD"
  | "load_command_variants_repr LC_ATOM_INFO = 0x36"
  | "load_command_variants_repr LC_FUNCTION_VARIANTS = 0x37"
  | "load_command_variants_repr LC_FUNCTION_VARIANT_FIXUPS = 0x38"
  | "load_command_variants_repr LC_TARGET_TRIPLE = 0x39"

definition load_command_variants_all :: "load_command_variants list" where
  "load_command_variants_all = [LC_SEGMENT, LC_SYMTAB, LC_SYMSEG, LC_THREAD, LC_UNIXTHREAD, LC_LOADFVMLIB, LC_IDFVMLIB, LC_IDENT, LC_FVMFILE, LC_PREPAGE, LC_DYSYMTAB, LC_LOAD_DYLIB, LC_ID_DYLIB, LC_LOAD_DYLINKER, LC_ID_DYLINKER, LC_PREBOUND_DYLIB, LC_ROUTINES, LC_SUB_FRAMEWORK, LC_SUB_UMBRELLA, LC_SUB_CLIENT, LC_SUB_LIBRARY, LC_TWOLEVEL_HINTS, LC_PREBIND_CKSUM, LC_LOAD_WEAK_DYLIB, LC_SEGMENT_64, LC_ROUTINES_64, LC_UUID, LC_RPATH, LC_CODE_SIGNATURE, LC_SEGMENT_SPLIT_INFO, LC_REEXPORT_DYLIB, LC_LAZY_LOAD_DYLIB, LC_ENCRYPTION_INFO, LC_DYLD_INFO, LC_DYLD_INFO_ONLY, LC_LOAD_UPWARD_DYLIB, LC_VERSION_MIN_MACOSX, LC_VERSION_MIN_IPHONEOS, LC_FUNCTION_STARTS, LC_DYLD_ENVIRONMENT, LC_MAIN, LC_DATA_IN_CODE, LC_SOURCE_VERSION, LC_DYLIB_CODE_SIGN_DRS, LC_ENCRYPTION_INFO_64, LC_LINKER_OPTION, LC_LINKER_OPTIMIZATION_HINT, LC_VERSION_MIN_TVOS, LC_VERSION_MIN_WATCHOS, LC_NOTE, LC_BUILD_VERSION, LC_DYLD_EXPORTS_TRIE, LC_DYLD_CHAINED_FIXUPS, LC_FILESET_ENTRY, LC_ATOM_INFO, LC_FUNCTION_VARIANTS, LC_FUNCTION_VARIANT_FIXUPS, LC_TARGET_TRIPLE]"

definition load_command_variants_bitand :: "load_command_variants \<Rightarrow> u32 \<Rightarrow> u32" where
  "load_command_variants_bitand c rhs = load_command_variants_repr c AND rhs"

datatype (plugins only: code) dyld_chained_ptr_format_variants =
    DYLD_CHAINED_PTR_ARM64E
  | DYLD_CHAINED_PTR_64
  | DYLD_CHAINED_PTR_32
  | DYLD_CHAINED_PTR_32_CACHE
  | DYLD_CHAINED_PTR_32_FIRMWARE
  | DYLD_CHAINED_PTR_64_OFFSET
  | DYLD_CHAINED_PTR_ARM64E_OFFSET
  | DYLD_CHAINED_PTR_64_KERNEL_CACHE
  | DYLD_CHAINED_PTR_ARM64E_USERLAND
  | DYLD_CHAINED_PTR_ARM64E_FIRMWARE
  | DYLD_CHAINED_PTR_X86_64_KERNEL_CACHE
  | DYLD_CHAINED_PTR_ARM64E_USERLAND24
  | DYLD_CHAINED_PTR_ARM64E_SHARED_CACHE
  | DYLD_CHAINED_PTR_ARM64E_SEGMENTED

primrec dyld_chained_ptr_format_variants_repr :: "dyld_chained_ptr_format_variants \<Rightarrow> u16" where
    "dyld_chained_ptr_format_variants_repr DYLD_CHAINED_PTR_ARM64E = 1"
  | "dyld_chained_ptr_format_variants_repr DYLD_CHAINED_PTR_64 = 2"
  | "dyld_chained_ptr_format_variants_repr DYLD_CHAINED_PTR_32 = 3"
  | "dyld_chained_ptr_format_variants_repr DYLD_CHAINED_PTR_32_CACHE = 4"
  | "dyld_chained_ptr_format_variants_repr DYLD_CHAINED_PTR_32_FIRMWARE = 5"
  | "dyld_chained_ptr_format_variants_repr DYLD_CHAINED_PTR_64_OFFSET = 6"
  | "dyld_chained_ptr_format_variants_repr DYLD_CHAINED_PTR_ARM64E_OFFSET = 7"
  | "dyld_chained_ptr_format_variants_repr DYLD_CHAINED_PTR_64_KERNEL_CACHE = 8"
  | "dyld_chained_ptr_format_variants_repr DYLD_CHAINED_PTR_ARM64E_USERLAND = 9"
  | "dyld_chained_ptr_format_variants_repr DYLD_CHAINED_PTR_ARM64E_FIRMWARE = 10"
  | "dyld_chained_ptr_format_variants_repr DYLD_CHAINED_PTR_X86_64_KERNEL_CACHE = 11"
  | "dyld_chained_ptr_format_variants_repr DYLD_CHAINED_PTR_ARM64E_USERLAND24 = 12"
  | "dyld_chained_ptr_format_variants_repr DYLD_CHAINED_PTR_ARM64E_SHARED_CACHE = 13"
  | "dyld_chained_ptr_format_variants_repr DYLD_CHAINED_PTR_ARM64E_SEGMENTED = 14"

definition dyld_chained_ptr_format_variants_all :: "dyld_chained_ptr_format_variants list" where
  "dyld_chained_ptr_format_variants_all = [DYLD_CHAINED_PTR_ARM64E, DYLD_CHAINED_PTR_64, DYLD_CHAINED_PTR_32, DYLD_CHAINED_PTR_32_CACHE, DYLD_CHAINED_PTR_32_FIRMWARE, DYLD_CHAINED_PTR_64_OFFSET, DYLD_CHAINED_PTR_ARM64E_OFFSET, DYLD_CHAINED_PTR_64_KERNEL_CACHE, DYLD_CHAINED_PTR_ARM64E_USERLAND, DYLD_CHAINED_PTR_ARM64E_FIRMWARE, DYLD_CHAINED_PTR_X86_64_KERNEL_CACHE, DYLD_CHAINED_PTR_ARM64E_USERLAND24, DYLD_CHAINED_PTR_ARM64E_SHARED_CACHE, DYLD_CHAINED_PTR_ARM64E_SEGMENTED]"

datatype (plugins only: code) dyld_chained_import_format_variants =
    DYLD_CHAINED_IMPORT
  | DYLD_CHAINED_IMPORT_ADDEND
  | DYLD_CHAINED_IMPORT_ADDEND64

primrec dyld_chained_import_format_variants_repr :: "dyld_chained_import_format_variants \<Rightarrow> u32" where
    "dyld_chained_import_format_variants_repr DYLD_CHAINED_IMPORT = 1"
  | "dyld_chained_import_format_variants_repr DYLD_CHAINED_IMPORT_ADDEND = 2"
  | "dyld_chained_import_format_variants_repr DYLD_CHAINED_IMPORT_ADDEND64 = 3"

definition dyld_chained_import_format_variants_all :: "dyld_chained_import_format_variants list" where
  "dyld_chained_import_format_variants_all = [DYLD_CHAINED_IMPORT, DYLD_CHAINED_IMPORT_ADDEND, DYLD_CHAINED_IMPORT_ADDEND64]"

section \<open>Structures\<close>

text \<open>
  \<open>#[repr(C)]\<close> places every field at the next multiple of its alignment and rounds the size up to
  the largest alignment. A layout lists size and alignment of the fields in declaration order.
\<close>

type_synonym layout = "(nat \<times> nat) list"

abbreviation f_u8 :: "nat \<times> nat" where "f_u8 \<equiv> (1, 1)"
abbreviation f_u16 :: "nat \<times> nat" where "f_u16 \<equiv> (2, 2)"
abbreviation f_u32 :: "nat \<times> nat" where "f_u32 \<equiv> (4, 4)"
abbreviation f_u64 :: "nat \<times> nat" where "f_u64 \<equiv> (8, 8)"
abbreviation f_bytes :: "nat \<Rightarrow> nat \<times> nat" where "f_bytes n \<equiv> (n, 1)"

definition round_up :: "nat \<Rightarrow> nat \<Rightarrow> nat" where
  "round_up n a = (n + a - 1) div a * a"

fun fields_end :: "nat \<Rightarrow> layout \<Rightarrow> nat" where
  "fields_end n [] = n"
| "fields_end n ((s, a) # fs) = fields_end (round_up n a + s) fs"

definition size_of :: "layout \<Rightarrow> nat" where
  "size_of fs = round_up (fields_end 0 fs) (foldr max (map snd fs) 1)"

definition packed_size :: "layout \<Rightarrow> nat" where
  "packed_size fs = sum_list (map fst fs)"

record fat_header =
  fh_magic :: mach_magic
  fh_nfat_arch :: u32

definition fat_header_layout :: layout where
  "fat_header_layout = [f_u32, f_u32]"

record fat_arch =
  fa_cputype :: i32
  fa_cpusubtype :: i32
  fa_offset :: u32
  fa_size :: u32
  fa_align :: u32

definition fat_arch_layout :: layout where
  "fat_arch_layout = [f_u32, f_u32, f_u32, f_u32, f_u32]"

record mach_header_64 =
  mh_magic :: mach_magic
  mh_cputype :: i32
  mh_cpusubtype :: i32
  mh_filetype :: macho_filetype_variants
  mh_ncmds :: u32
  mh_sizeofcmds :: u32
  mh_flags :: u32
  mh_reserved :: u32

definition mach_header_64_layout :: layout where
  "mach_header_64_layout = [f_u32, f_u32, f_u32, f_u32, f_u32, f_u32, f_u32, f_u32]"

record load_command =
  lc_cmd :: load_command_variants
  lc_cmdsize :: u32

definition load_command_layout :: layout where
  "load_command_layout = [f_u32, f_u32]"

record lc_str =
  ls_offset :: u32

definition lc_str_layout :: layout where
  "lc_str_layout = [f_u32]"

record segment_command_64 =
  sg_cmd :: load_command_variants
  sg_cmdsize :: u32
  sg_segname :: bytes
  sg_vmaddr :: u64
  sg_vmsize :: u64
  sg_fileoff :: u64
  sg_filesize :: u64
  sg_maxprot :: u32
  sg_initprot :: u32
  sg_nsects :: u32
  sg_flags :: u32

definition segment_command_64_layout :: layout where
  "segment_command_64_layout = [f_u32, f_u32, f_bytes 16, f_u64, f_u64, f_u64, f_u64, f_u32, f_u32, f_u32, f_u32]"

record section_64 =
  se_sectname :: bytes
  se_segname :: bytes
  se_addr :: u64
  se_size :: u64
  se_offset :: u32
  se_align :: u32
  se_reloff :: u32
  se_nreloc :: u32
  se_flags :: u32
  se_reserved1 :: u32
  se_reserved2 :: u32
  se_reserved3 :: u32

definition section_64_layout :: layout where
  "section_64_layout = [f_bytes 16, f_bytes 16, f_u64, f_u64, f_u32, f_u32, f_u32, f_u32, f_u32, f_u32, f_u32, f_u32]"

record dylib =
  dl_name :: lc_str
  dl_timestamp :: u32
  dl_current_version :: u32
  dl_compatibility_version :: u32

definition dylib_layout :: layout where
  "dylib_layout = [f_u32, f_u32, f_u32, f_u32]"

record dylib_command =
  dc_cmd :: load_command_variants
  dc_cmdsize :: u32
  dc_dylib :: dylib

definition dylib_command_layout :: layout where
  "dylib_command_layout = f_u32 # f_u32 # dylib_layout"

record symtab_command =
  st_cmd :: load_command_variants
  st_cmdsize :: u32
  st_symoff :: u32
  st_nsyms :: u32
  st_stroff :: u32
  st_strsize :: u32

definition symtab_command_layout :: layout where
  "symtab_command_layout = [f_u32, f_u32, f_u32, f_u32, f_u32, f_u32]"

record linkedit_data_command =
  ld_cmd :: load_command_variants
  ld_cmdsize :: u32
  ld_dataoff :: u32
  ld_datasize :: u32

definition linkedit_data_command_layout :: layout where
  "linkedit_data_command_layout = [f_u32, f_u32, f_u32, f_u32]"

record entry_point_command =
  ep_cmd :: load_command_variants
  ep_cmdsize :: u32
  ep_entryoff :: u64
  ep_stacksize :: u64

definition entry_point_command_layout :: layout where
  "entry_point_command_layout = [f_u32, f_u32, f_u64, f_u64]"

record rpath_command =
  rp_cmd :: u32
  rp_cmdsize :: u32
  rp_path :: lc_str

definition rpath_command_layout :: layout where
  "rpath_command_layout = [f_u32, f_u32, f_u32]"

record nlist_64_n_un =
  n_strx :: u32

definition nlist_64_n_un_layout :: layout where
  "nlist_64_n_un_layout = [f_u32]"

record nlist_64 =
  n_un :: nlist_64_n_un
  n_type :: u8
  n_sect :: u8
  n_desc :: u16
  n_value :: u64

definition nlist_64_layout :: layout where
  "nlist_64_layout = [f_u32, f_u8, f_u8, f_u16, f_u64]"

record dyld_chained_fixups_header =
  cf_fixups_version :: u32
  cf_starts_offset :: u32
  cf_imports_offset :: u32
  cf_symbols_offset :: u32
  cf_imports_count :: u32
  cf_imports_format :: dyld_chained_import_format_variants
  cf_symbols_format :: u32

definition dyld_chained_fixups_header_layout :: layout where
  "dyld_chained_fixups_header_layout = [f_u32, f_u32, f_u32, f_u32, f_u32, f_u32, f_u32]"

record dyld_chained_starts_in_image =
  si_seg_count :: u32

definition dyld_chained_starts_in_image_layout :: layout where
  "dyld_chained_starts_in_image_layout = [f_u32]"

record dyld_chained_starts_in_segment =
  ss_size :: u32
  ss_page_size :: u16
  ss_pointer_format :: dyld_chained_ptr_format_variants
  ss_segment_offset :: u64
  ss_max_valid_pointer :: u32
  ss_page_count :: u16
  ss_page_start :: "u16 list"

definition dyld_chained_starts_in_segment_layout :: layout where
  "dyld_chained_starts_in_segment_layout = [f_u32, f_u16, f_u16, f_u64, f_u32, f_u16, f_u16]"

section \<open>Constants\<close>

definition VM_PROT_NONE :: u32 where
  [const_defs]: "VM_PROT_NONE = 0x00"

definition VM_PROT_READ :: u32 where
  [const_defs]: "VM_PROT_READ = 0x01"

definition VM_PROT_WRITE :: u32 where
  [const_defs]: "VM_PROT_WRITE = 0x02"

definition VM_PROT_EXECUTE :: u32 where
  [const_defs]: "VM_PROT_EXECUTE = 0x04"

definition VM_PROT_DEFAULT :: u32 where
  [const_defs]: "VM_PROT_DEFAULT = VM_PROT_READ OR VM_PROT_WRITE"

definition VM_PROT_ALL :: u32 where
  [const_defs]: "VM_PROT_ALL = VM_PROT_READ OR VM_PROT_EXECUTE"

definition SECTION_TYPE :: u32 where
  [const_defs]: "SECTION_TYPE = 0x000000ff"

definition S_THREAD_LOCAL_VARIABLES :: u32 where
  [const_defs]: "S_THREAD_LOCAL_VARIABLES = 0x13"

definition S_INIT_FUNC_OFFSETS :: u32 where
  [const_defs]: "S_INIT_FUNC_OFFSETS = 0x16"

definition EXPORT_SYMBOL_FLAGS_KIND_MASK :: u64 where
  [const_defs]: "EXPORT_SYMBOL_FLAGS_KIND_MASK = 0x03"

definition EXPORT_SYMBOL_FLAGS_REEXPORT :: u64 where
  [const_defs]: "EXPORT_SYMBOL_FLAGS_REEXPORT = 0x08"

definition EXPORT_SYMBOL_FLAGS_STUB_AND_RESOLVER :: u64 where
  [const_defs]: "EXPORT_SYMBOL_FLAGS_STUB_AND_RESOLVER = 0x10"

definition SEG_TEXT :: bytes where
  [const_defs]: "SEG_TEXT = lit ''__TEXT''"

definition SEG_DATA :: bytes where
  [const_defs]: "SEG_DATA = lit ''__DATA''"

definition SELF_LIBRARY_ORDINAL :: u8 where
  [const_defs]: "SELF_LIBRARY_ORDINAL = 0x00"

definition MAX_LIBRARY_ORDINAL :: u8 where
  [const_defs]: "MAX_LIBRARY_ORDINAL = 0xfd"

definition DYNAMIC_LOOKUP_ORDINAL :: u8 where
  [const_defs]: "DYNAMIC_LOOKUP_ORDINAL = 0xfe"

definition EXECUTABLE_ORDINAL :: u8 where
  [const_defs]: "EXECUTABLE_ORDINAL = 0xff"

definition N_STAB :: u8 where
  [const_defs]: "N_STAB = 0xe0"

definition N_PEXT :: u8 where
  [const_defs]: "N_PEXT = 0x10"

definition N_TYPE :: u8 where
  [const_defs]: "N_TYPE = 0x0e"

definition N_EXT :: u8 where
  [const_defs]: "N_EXT = 0x01"

definition N_UNDF :: u8 where
  [const_defs]: "N_UNDF = 0x0"

definition N_ABS :: u8 where
  [const_defs]: "N_ABS = 0x2"

definition N_SECT :: u8 where
  [const_defs]: "N_SECT = 0xe"

definition N_PBUD :: u8 where
  [const_defs]: "N_PBUD = 0xc"

definition N_INDR :: u8 where
  [const_defs]: "N_INDR = 0xa"

definition N_WEAK_REF :: u16 where
  [const_defs]: "N_WEAK_REF = 0x0040"

definition N_WEAK_DEF :: u16 where
  [const_defs]: "N_WEAK_DEF = 0x0080"

definition N_ARM_THUMB_DEF :: u16 where
  [const_defs]: "N_ARM_THUMB_DEF = 0x0008"

definition N_SYMBOL_RESOLVER :: u16 where
  [const_defs]: "N_SYMBOL_RESOLVER = 0x0100"

definition N_ALT_ENTRY :: u16 where
  [const_defs]: "N_ALT_ENTRY = 0x0200"

definition N_COLD_FUNC :: u16 where
  [const_defs]: "N_COLD_FUNC = 0x0400"

definition DYLD_CHAINED_PTR_START_NONE :: u16 where
  [const_defs]: "DYLD_CHAINED_PTR_START_NONE = 0xFFFF"

definition DYLD_CHAINED_PTR_START_MULTI :: u16 where
  [const_defs]: "DYLD_CHAINED_PTR_START_MULTI = 0x8000"

definition BIND_SPECIAL_DYLIB_SELF :: u32 where
  [const_defs]: "BIND_SPECIAL_DYLIB_SELF = 0"

definition BIND_SPECIAL_DYLIB_MAIN_EXECUTABLE :: u32 where
  [const_defs]: "BIND_SPECIAL_DYLIB_MAIN_EXECUTABLE = 255"

definition BIND_SPECIAL_DYLIB_FLAT_LOOKUP :: u32 where
  [const_defs]: "BIND_SPECIAL_DYLIB_FLAT_LOOKUP = 254"

definition BIND_SPECIAL_DYLIB_WEAK_LOOKUP :: u32 where
  [const_defs]: "BIND_SPECIAL_DYLIB_WEAK_LOOKUP = 253"

definition get_library_ordinal :: "u16 \<Rightarrow> u8" where
  "get_library_ordinal d = ucast (drop_bit 8 d AND 0xff)"

definition set_library_ordinal :: "u16 \<Rightarrow> u8 \<Rightarrow> u16" where
  "set_library_ordinal d ordinal = (d AND 0x00ff) OR push_bit 8 (ucast ordinal)"

section \<open>Chained-fixup words\<close>

text \<open>Each newtype over \<open>u64\<close> or \<open>u32\<close> is its word; the accessors carry the newtype's name.\<close>

definition dyld_chained_ptr_arm64e_rebase_target :: "u64 \<Rightarrow> u64" where
  "dyld_chained_ptr_arm64e_rebase_target v = v AND 0x000007FFFFFFFFFF"

definition dyld_chained_ptr_arm64e_rebase_high8 :: "u64 \<Rightarrow> u8" where
  "dyld_chained_ptr_arm64e_rebase_high8 v = ucast (drop_bit 43 v AND 0xFF)"

definition dyld_chained_ptr_arm64e_rebase_next :: "u64 \<Rightarrow> u16" where
  "dyld_chained_ptr_arm64e_rebase_next v = ucast (drop_bit 51 v AND 0x7FF)"

definition dyld_chained_ptr_arm64e_bind_ordinal :: "u64 \<Rightarrow> u16" where
  "dyld_chained_ptr_arm64e_bind_ordinal v = ucast (v AND 0xFFFF)"

definition dyld_chained_ptr_arm64e_bind_addend :: "u64 \<Rightarrow> i32" where
  "dyld_chained_ptr_arm64e_bind_addend v = ucast (drop_bit 32 v AND 0x7FFFF)"

definition dyld_chained_ptr_arm64e_bind_next :: "u64 \<Rightarrow> u16" where
  "dyld_chained_ptr_arm64e_bind_next v = ucast (drop_bit 51 v AND 0x7FF)"

definition dyld_chained_ptr_arm64e_auth_rebase_target :: "u64 \<Rightarrow> u32" where
  "dyld_chained_ptr_arm64e_auth_rebase_target v = ucast (v AND 0xFFFFFFFF)"

definition dyld_chained_ptr_arm64e_auth_rebase_diversity :: "u64 \<Rightarrow> u16" where
  "dyld_chained_ptr_arm64e_auth_rebase_diversity v = ucast (drop_bit 32 v AND 0xFFFF)"

definition dyld_chained_ptr_arm64e_auth_rebase_addr_div :: "u64 \<Rightarrow> bool" where
  "dyld_chained_ptr_arm64e_auth_rebase_addr_div v = (v AND push_bit 48 1 \<noteq> 0)"

definition dyld_chained_ptr_arm64e_auth_rebase_key :: "u64 \<Rightarrow> u8" where
  "dyld_chained_ptr_arm64e_auth_rebase_key v = ucast (drop_bit 49 v AND 0x3)"

definition dyld_chained_ptr_arm64e_auth_rebase_next :: "u64 \<Rightarrow> u16" where
  "dyld_chained_ptr_arm64e_auth_rebase_next v = ucast (drop_bit 51 v AND 0x7FF)"

definition dyld_chained_ptr_arm64e_auth_bind_ordinal :: "u64 \<Rightarrow> u16" where
  "dyld_chained_ptr_arm64e_auth_bind_ordinal v = ucast (v AND 0xFFFF)"

definition dyld_chained_ptr_arm64e_auth_bind_diversity :: "u64 \<Rightarrow> u16" where
  "dyld_chained_ptr_arm64e_auth_bind_diversity v = ucast (drop_bit 32 v AND 0xFFFF)"

definition dyld_chained_ptr_arm64e_auth_bind_addr_div :: "u64 \<Rightarrow> bool" where
  "dyld_chained_ptr_arm64e_auth_bind_addr_div v = (v AND push_bit 48 1 \<noteq> 0)"

definition dyld_chained_ptr_arm64e_auth_bind_key :: "u64 \<Rightarrow> u8" where
  "dyld_chained_ptr_arm64e_auth_bind_key v = ucast (drop_bit 49 v AND 0x3)"

definition dyld_chained_ptr_arm64e_auth_bind_next :: "u64 \<Rightarrow> u16" where
  "dyld_chained_ptr_arm64e_auth_bind_next v = ucast (drop_bit 51 v AND 0x7FF)"

definition dyld_chained_ptr_64_rebase_target :: "u64 \<Rightarrow> u64" where
  "dyld_chained_ptr_64_rebase_target v = v AND 0x0000000FFFFFFFFF"

definition dyld_chained_ptr_64_rebase_high8 :: "u64 \<Rightarrow> u8" where
  "dyld_chained_ptr_64_rebase_high8 v = ucast (drop_bit 36 v AND 0xFF)"

definition dyld_chained_ptr_64_rebase_next :: "u64 \<Rightarrow> u16" where
  "dyld_chained_ptr_64_rebase_next v = ucast (drop_bit 51 v AND 0xFFF)"

definition dyld_chained_ptr_64_bind_ordinal :: "u64 \<Rightarrow> u32" where
  "dyld_chained_ptr_64_bind_ordinal v = ucast (v AND 0x00FFFFFF)"

definition dyld_chained_ptr_64_bind_addend :: "u64 \<Rightarrow> u8" where
  "dyld_chained_ptr_64_bind_addend v = ucast (drop_bit 24 v AND 0xFF)"

definition dyld_chained_ptr_64_bind_next :: "u64 \<Rightarrow> u16" where
  "dyld_chained_ptr_64_bind_next v = ucast (drop_bit 51 v AND 0xFFF)"

definition dyld_chained_ptr_arm64e_bind_24_ordinal :: "u64 \<Rightarrow> u32" where
  "dyld_chained_ptr_arm64e_bind_24_ordinal v = ucast (v AND 0x00FFFFFF)"

definition dyld_chained_ptr_arm64e_bind_24_addend :: "u64 \<Rightarrow> i32" where
  "dyld_chained_ptr_arm64e_bind_24_addend v = ucast (drop_bit 32 v AND 0x7FFFF)"

definition dyld_chained_ptr_arm64e_bind_24_next :: "u64 \<Rightarrow> u16" where
  "dyld_chained_ptr_arm64e_bind_24_next v = ucast (drop_bit 51 v AND 0x7FF)"

definition dyld_chained_ptr_arm64e_auth_bind_24_ordinal :: "u64 \<Rightarrow> u32" where
  "dyld_chained_ptr_arm64e_auth_bind_24_ordinal v = ucast (v AND 0x00FFFFFF)"

definition dyld_chained_ptr_arm64e_auth_bind_24_diversity :: "u64 \<Rightarrow> u16" where
  "dyld_chained_ptr_arm64e_auth_bind_24_diversity v = ucast (drop_bit 32 v AND 0xFFFF)"

definition dyld_chained_ptr_arm64e_auth_bind_24_addr_div :: "u64 \<Rightarrow> bool" where
  "dyld_chained_ptr_arm64e_auth_bind_24_addr_div v = (v AND push_bit 48 1 \<noteq> 0)"

definition dyld_chained_ptr_arm64e_auth_bind_24_key :: "u64 \<Rightarrow> u8" where
  "dyld_chained_ptr_arm64e_auth_bind_24_key v = ucast (drop_bit 49 v AND 0x3)"

definition dyld_chained_ptr_arm64e_auth_bind_24_next :: "u64 \<Rightarrow> u16" where
  "dyld_chained_ptr_arm64e_auth_bind_24_next v = ucast (drop_bit 51 v AND 0x7FF)"

definition dyld_chained_import_lib_ordinal :: "u32 \<Rightarrow> u8" where
  "dyld_chained_import_lib_ordinal v = ucast (v AND 0x000000FF)"

definition dyld_chained_import_weak_import :: "u32 \<Rightarrow> bool" where
  "dyld_chained_import_weak_import v = (v AND 0x00000100 \<noteq> 0)"

definition dyld_chained_import_name_offset :: "u32 \<Rightarrow> u32" where
  "dyld_chained_import_name_offset v = drop_bit 9 (v AND 0xFFFFFE00)"

record dyld_chained_import_addend =
  ia_header :: u32
  ia_addend :: i32

definition dyld_chained_import_addend_layout :: layout where
  "dyld_chained_import_addend_layout = [f_u32, f_u32]"

record dyld_chained_import_addend64 =
  ia64_header :: u32
  ia64_addend :: u64

definition dyld_chained_import_addend64_layout :: layout where
  "dyld_chained_import_addend64_layout = [f_u32, f_u64]"

section \<open>Discriminants and layouts\<close>

lemma load_command_variants_all_complete: "c \<in> set load_command_variants_all"
  by (cases c) (simp_all add: load_command_variants_all_def)

lemma mach_magic_all_complete: "c \<in> set mach_magic_all"
  by (cases c) (simp_all add: mach_magic_all_def)

lemma load_command_variants_repr_distinct:
  "distinct (map load_command_variants_repr load_command_variants_all)"
  unfolding load_command_variants_all_def by (simp add: LC_REQ_DYLD_def)

lemma mach_magic_repr_distinct: "distinct (map mach_magic_repr mach_magic_all)"
  by (simp add: mach_magic_all_def)

lemma load_command_variants_repr_inject:
  "load_command_variants_repr a = load_command_variants_repr b \<Longrightarrow> a = b"
  using load_command_variants_repr_distinct load_command_variants_all_complete
  by (auto simp: distinct_map inj_on_def)

lemma mach_magic_repr_inject: "mach_magic_repr a = mach_magic_repr b \<Longrightarrow> a = b"
  using mach_magic_repr_distinct mach_magic_all_complete by (auto simp: distinct_map inj_on_def)

lemmas layout_defs =
  fat_header_layout_def fat_arch_layout_def mach_header_64_layout_def load_command_layout_def
  lc_str_layout_def segment_command_64_layout_def section_64_layout_def dylib_layout_def
  dylib_command_layout_def symtab_command_layout_def linkedit_data_command_layout_def
  entry_point_command_layout_def rpath_command_layout_def nlist_64_n_un_layout_def
  nlist_64_layout_def dyld_chained_fixups_header_layout_def
  dyld_chained_starts_in_image_layout_def dyld_chained_starts_in_segment_layout_def
  dyld_chained_import_addend_layout_def dyld_chained_import_addend64_layout_def

text \<open>The sizes that the walks over load commands, sections, symbols and slices step by.\<close>

lemma size_of_layouts [simp]:
  "size_of mach_header_64_layout = 32"
  "size_of fat_header_layout = 8"
  "size_of fat_arch_layout = 20"
  "size_of segment_command_64_layout = 72"
  "size_of section_64_layout = 80"
  "size_of nlist_64_layout = 16"
  "size_of dyld_chained_starts_in_image_layout = 4"
  by (simp_all add: layout_defs size_of_def round_up_def)

section \<open>Bit fields\<close>

lemma and_masks:
  "v AND 0x3 = take_bit 2 v" "v AND 0xFF = take_bit 8 v" "v AND 0x7FF = take_bit 11 v"
  "v AND 0xFFF = take_bit 12 v" "v AND 0xFFFF = take_bit 16 v" "v AND 0x7FFFF = take_bit 19 v"
  "v AND 0x00FFFFFF = take_bit 24 v" "v AND 0xFFFFFFFF = take_bit 32 v"
  "v AND 0x0000000FFFFFFFFF = take_bit 36 v" "v AND 0x000007FFFFFFFFFF = take_bit 43 v"
  for v :: u64
  by (simp_all add: take_bit_eq_mask mask_eq_exp_minus_1)

lemma and_single_bit: "v AND push_bit n 1 \<noteq> 0 \<longleftrightarrow> bit v n" for v :: u64
  by (simp add: bit_iff_and_push_bit_not_eq_0)

lemma ucast_ucast_take_bit:
  "n \<le> LENGTH('b) \<Longrightarrow> ucast (ucast (take_bit n v) :: 'b::len word) = take_bit n v" for v :: "'a::len word"
  by (rule bit_word_eqI) (auto simp: bit_simps)

lemma split_low: "take_bit n v OR push_bit n (drop_bit n v) = v" for v :: "'a::len word"
proof (rule bit_word_eqI)
  fix i assume "i < LENGTH('a)"
  then show "bit (take_bit n v OR push_bit n (drop_bit n v)) i = bit v i"
    by (cases "i < n") (auto simp: bit_simps)
qed

lemma split_field:
  "push_bit n (take_bit m (drop_bit n v)) OR push_bit (n + m) (drop_bit (n + m) v) =
     push_bit n (drop_bit n v)"
  for v :: "'a::len word"
proof (rule bit_word_eqI)
  fix i assume "i < LENGTH('a)"
  then show "bit (push_bit n (take_bit m (drop_bit n v)) OR push_bit (n + m) (drop_bit (n + m) v)) i
     = bit (push_bit n (drop_bit n v)) i"
    by (cases "i < n + m") (auto simp: bit_simps)
qed

lemma split_bit:
  "push_bit n (of_bool (bit v n)) OR push_bit (n + 1) (drop_bit (n + 1) v) = push_bit n (drop_bit n v)"
  for v :: u64
  using split_field [of n 1 v] by (simp add: bit_iff_odd_drop_bit mod_2_eq_odd)

lemmas reassemble = and_masks ucast_ucast_take_bit or.assoc

lemmas rebase_field_defs =
  dyld_chained_ptr_arm64e_rebase_target_def dyld_chained_ptr_arm64e_rebase_high8_def
  dyld_chained_ptr_arm64e_rebase_next_def dyld_chained_ptr_arm64e_auth_rebase_target_def
  dyld_chained_ptr_arm64e_auth_rebase_diversity_def dyld_chained_ptr_arm64e_auth_rebase_addr_div_def
  dyld_chained_ptr_arm64e_auth_rebase_key_def dyld_chained_ptr_arm64e_auth_rebase_next_def
  dyld_chained_ptr_64_rebase_target_def dyld_chained_ptr_64_rebase_high8_def
  dyld_chained_ptr_64_rebase_next_def

lemmas bind_field_defs =
  dyld_chained_ptr_arm64e_bind_ordinal_def dyld_chained_ptr_arm64e_bind_addend_def
  dyld_chained_ptr_arm64e_bind_next_def dyld_chained_ptr_arm64e_auth_bind_ordinal_def
  dyld_chained_ptr_arm64e_auth_bind_diversity_def dyld_chained_ptr_arm64e_auth_bind_addr_div_def
  dyld_chained_ptr_arm64e_auth_bind_key_def dyld_chained_ptr_arm64e_auth_bind_next_def
  dyld_chained_ptr_64_bind_ordinal_def dyld_chained_ptr_64_bind_addend_def
  dyld_chained_ptr_64_bind_next_def dyld_chained_ptr_arm64e_bind_24_ordinal_def
  dyld_chained_ptr_arm64e_bind_24_addend_def dyld_chained_ptr_arm64e_bind_24_next_def
  dyld_chained_ptr_arm64e_auth_bind_24_ordinal_def dyld_chained_ptr_arm64e_auth_bind_24_diversity_def
  dyld_chained_ptr_arm64e_auth_bind_24_addr_div_def dyld_chained_ptr_arm64e_auth_bind_24_key_def
  dyld_chained_ptr_arm64e_auth_bind_24_next_def

lemma arm64e_rebase_reassemble:
  "dyld_chained_ptr_arm64e_rebase_target v
     OR push_bit 43 (ucast (dyld_chained_ptr_arm64e_rebase_high8 v))
     OR push_bit 51 (ucast (dyld_chained_ptr_arm64e_rebase_next v))
     OR push_bit 62 (drop_bit 62 v) = v"
  using split_low [of 43 v] split_field [of 43 8 v] split_field [of 51 11 v]
  by (simp add: rebase_field_defs reassemble)

lemma arm64e_auth_rebase_reassemble:
  "ucast (dyld_chained_ptr_arm64e_auth_rebase_target v)
     OR push_bit 32 (ucast (dyld_chained_ptr_arm64e_auth_rebase_diversity v))
     OR push_bit 48 (of_bool (dyld_chained_ptr_arm64e_auth_rebase_addr_div v))
     OR push_bit 49 (ucast (dyld_chained_ptr_arm64e_auth_rebase_key v))
     OR push_bit 51 (ucast (dyld_chained_ptr_arm64e_auth_rebase_next v))
     OR push_bit 62 (drop_bit 62 v) = v"
  using split_low [of 32 v] split_field [of 32 16 v] split_bit [of 48 v] split_field [of 49 2 v]
    split_field [of 51 11 v]
  unfolding rebase_field_defs and_single_bit by (simp add: reassemble)

lemma ptr_64_rebase_reassemble:
  "dyld_chained_ptr_64_rebase_target v
     OR push_bit 36 (ucast (dyld_chained_ptr_64_rebase_high8 v))
     OR push_bit 44 (take_bit 7 (drop_bit 44 v))
     OR push_bit 51 (ucast (dyld_chained_ptr_64_rebase_next v))
     OR push_bit 63 (drop_bit 63 v) = v"
  using split_low [of 36 v] split_field [of 36 8 v] split_field [of 44 7 v] split_field [of 51 12 v]
  by (simp add: rebase_field_defs reassemble)

lemma ptr_64_bind_reassemble:
  "ucast (dyld_chained_ptr_64_bind_ordinal v)
     OR push_bit 24 (ucast (dyld_chained_ptr_64_bind_addend v))
     OR push_bit 32 (take_bit 19 (drop_bit 32 v))
     OR push_bit 51 (ucast (dyld_chained_ptr_64_bind_next v))
     OR push_bit 63 (drop_bit 63 v) = v"
  using split_low [of 24 v] split_field [of 24 8 v] split_field [of 32 19 v] split_field [of 51 12 v]
  by (simp add: bind_field_defs reassemble)

lemma arm64e_bind_24_reassemble:
  "ucast (dyld_chained_ptr_arm64e_bind_24_ordinal v)
     OR push_bit 24 (take_bit 8 (drop_bit 24 v))
     OR push_bit 32 (ucast (dyld_chained_ptr_arm64e_bind_24_addend v))
     OR push_bit 51 (ucast (dyld_chained_ptr_arm64e_bind_24_next v))
     OR push_bit 62 (drop_bit 62 v) = v"
  using split_low [of 24 v] split_field [of 24 8 v] split_field [of 32 19 v] split_field [of 51 11 v]
  by (simp add: bind_field_defs reassemble)

lemma arm64e_auth_bind_24_reassemble:
  "ucast (dyld_chained_ptr_arm64e_auth_bind_24_ordinal v)
     OR push_bit 24 (take_bit 8 (drop_bit 24 v))
     OR push_bit 32 (ucast (dyld_chained_ptr_arm64e_auth_bind_24_diversity v))
     OR push_bit 48 (of_bool (dyld_chained_ptr_arm64e_auth_bind_24_addr_div v))
     OR push_bit 49 (ucast (dyld_chained_ptr_arm64e_auth_bind_24_key v))
     OR push_bit 51 (ucast (dyld_chained_ptr_arm64e_auth_bind_24_next v))
     OR push_bit 62 (drop_bit 62 v) = v"
  using split_low [of 24 v] split_field [of 24 8 v] split_field [of 32 16 v] split_bit [of 48 v]
    split_field [of 49 2 v] split_field [of 51 11 v]
  unfolding bind_field_defs and_single_bit by (simp add: reassemble)

lemma and_ff_u16: "d AND 0xff = take_bit 8 d" for d :: u16
  by (simp add: take_bit_eq_mask mask_eq_exp_minus_1)

lemma library_ordinal_get_set: "get_library_ordinal (set_library_ordinal d k) = k"
  unfolding get_library_ordinal_def set_library_ordinal_def and_ff_u16
  by (rule bit_word_eqI) (auto simp: bit_simps)

lemma library_ordinal_set_get: "set_library_ordinal d (get_library_ordinal d) = d"
  unfolding get_library_ordinal_def set_library_ordinal_def and_ff_u16
  by (rule bit_word_eqI) (auto simp: bit_simps)

lemma library_ordinal_keeps_flags: "set_library_ordinal d k AND 0x00ff = d AND 0x00ff"
  unfolding set_library_ordinal_def and_ff_u16
  by (rule bit_word_eqI) (auto simp: bit_simps)

end
