(* ===== verification/Dsc_Bindings.thy ===== *)
theory Dsc_Bindings
  imports Macho_Bindings
begin

text \<open>
  The on-disk structures of the dyld shared cache, \<open>src/src/bindings_dsc.rs\<close>, and the layout that
  \<open>repr(C)\<close> gives them.
\<close>

record dyld_cache_header =
  ch_magic :: bytes
  ch_mapping_offset :: u32
  ch_mapping_count :: u32
  ch_images_offset_old :: u32
  ch_images_count_old :: u32
  ch_dyld_base_address :: u64
  ch_code_signature_offset :: u64
  ch_code_signature_size :: u64
  ch_slide_info_offset_unused :: u64
  ch_slide_info_size_unused :: u64
  ch_local_symbols_offset :: u64
  ch_local_symbols_size :: u64
  ch_uuid :: bytes
  ch_cache_type :: u64
  ch_branch_pools_offset :: u32
  ch_branch_pools_count :: u32
  ch_dyld_in_cache_mh :: u64
  ch_dyld_in_cache_entry :: u64
  ch_images_text_offset :: u64
  ch_images_text_count :: u64
  ch_patch_info_addr :: u64
  ch_patch_info_size :: u64
  ch_other_image_group_addr_unused :: u64
  ch_other_image_group_size_unused :: u64
  ch_prog_closures_addr :: u64
  ch_prog_closures_size :: u64
  ch_prog_closures_trie_addr :: u64
  ch_prog_closures_trie_size :: u64
  ch_platform :: u32
  ch_flags :: u32
  ch_shared_region_start :: u64
  ch_shared_region_size :: u64
  ch_max_slide :: u64
  ch_dylibs_image_array_addr :: u64
  ch_dylibs_image_array_size :: u64
  ch_dylibs_trie_addr :: u64
  ch_dylibs_trie_size :: u64
  ch_other_image_array_addr :: u64
  ch_other_image_array_size :: u64
  ch_other_trie_addr :: u64
  ch_other_trie_size :: u64
  ch_mapping_with_slide_offset :: u32
  ch_mapping_with_slide_count :: u32
  ch_dylibs_pbl_state_array_addr_unused :: u64
  ch_dylibs_pbl_set_addr :: u64
  ch_programs_pbl_set_pool_addr :: u64
  ch_programs_pbl_set_pool_size :: u64
  ch_program_trie_addr :: u64
  ch_program_trie_size :: u32
  ch_os_version :: u32
  ch_alt_platform :: u32
  ch_alt_os_version :: u32
  ch_swift_opts_offset :: u64
  ch_swift_opts_size :: u64
  ch_sub_cache_array_offset :: u32
  ch_sub_cache_array_count :: u32
  ch_symbol_file_uuid :: bytes
  ch_rosetta_read_only_addr :: u64
  ch_rosetta_read_only_size :: u64
  ch_rosetta_read_write_addr :: u64
  ch_rosetta_read_write_size :: u64
  ch_images_offset :: u32
  ch_images_count :: u32
  ch_cache_sub_type :: u32
  ch_objc_opts_offset :: u64
  ch_objc_opts_size :: u64
  ch_cache_atlas_offset :: u64
  ch_cache_atlas_size :: u64
  ch_dynamic_data_offset :: u64
  ch_dynamic_data_max_size :: u64
  ch_tpro_mappings_offset :: u32
  ch_tpro_mappings_count :: u32
  ch_function_variant_info_addr :: u64
  ch_function_variant_info_size :: u64
  ch_prewarming_data_offset :: u64
  ch_prewarming_data_size :: u64

definition dyld_cache_header_layout :: layout where
  "dyld_cache_header_layout = [
     f_bytes 16, f_u32, f_u32, f_u32, f_u32, f_u64, f_u64, f_u64, f_u64, f_u64,
     f_u64, f_u64, f_bytes 16, f_u64, f_u32, f_u32, f_u64, f_u64, f_u64, f_u64,
     f_u64, f_u64, f_u64, f_u64, f_u64, f_u64, f_u64, f_u64, f_u32, f_u32,
     f_u64, f_u64, f_u64, f_u64, f_u64, f_u64, f_u64, f_u64, f_u64, f_u64,
     f_u64, f_u32, f_u32, f_u64, f_u64, f_u64, f_u64, f_u64, f_u32, f_u32,
     f_u32, f_u32, f_u64, f_u64, f_u32, f_u32, f_bytes 16, f_u64, f_u64, f_u64,
     f_u64, f_u32, f_u32, f_u32, f_u64, f_u64, f_u64, f_u64, f_u64, f_u64,
     f_u32, f_u32, f_u64, f_u64, f_u64, f_u64]"

record dyld_cache_mapping_info =
  mi_address :: u64
  mi_size :: u64
  mi_file_offset :: u64
  mi_max_prot :: u32
  mi_init_prot :: u32

definition dyld_cache_mapping_info_layout :: layout where
  "dyld_cache_mapping_info_layout = [
     f_u64, f_u64, f_u64, f_u32, f_u32]"

record dyld_cache_image_info =
  ii_address :: u64
  ii_mod_time :: u64
  ii_inode :: u64
  ii_path_file_offset :: u32
  ii_pad :: u32

definition dyld_cache_image_info_layout :: layout where
  "dyld_cache_image_info_layout = [
     f_u64, f_u64, f_u64, f_u32, f_u32]"

record dyld_subcache_entry =
  sce_uuid :: bytes
  sce_cache_vm_offset :: u64
  sce_file_suffix :: bytes

definition dyld_subcache_entry_layout :: layout where
  "dyld_subcache_entry_layout = [
     f_bytes 16, f_u64, f_bytes 32]"

record dyld_info_command =
  di_cmd :: u32
  di_cmdsize :: u32
  di_rebase_off :: u32
  di_rebase_size :: u32
  di_bind_off :: u32
  di_bind_size :: u32
  di_weak_bind_off :: u32
  di_weak_bind_size :: u32
  di_lazy_bind_off :: u32
  di_lazy_bind_size :: u32
  di_export_off :: u32
  di_export_size :: u32

definition dyld_info_command_layout :: layout where
  "dyld_info_command_layout = [
     f_u32, f_u32, f_u32, f_u32, f_u32, f_u32, f_u32, f_u32, f_u32, f_u32,
     f_u32, f_u32]"

record dylib_command_header =
  dh_cmd :: u32
  dh_cmdsize :: u32
  dh_name_offset :: u32
  dh_timestamp :: u32
  dh_current_version :: u32
  dh_compatibility_version :: u32

definition dylib_command_header_layout :: layout where
  "dylib_command_header_layout = [
     f_u32, f_u32, f_u32, f_u32, f_u32, f_u32]"

lemma dsc_size_of_layouts [simp]:
  "size_of dyld_cache_mapping_info_layout = 32"
  "size_of dyld_cache_image_info_layout = 32"
  "size_of dyld_subcache_entry_layout = 56"
  by (simp_all add: dyld_cache_mapping_info_layout_def dyld_cache_image_info_layout_def
      dyld_subcache_entry_layout_def size_of_def round_up_def)

lemma size_of_dyld_cache_header [simp]: "size_of dyld_cache_header_layout = 552"
  by (simp add: dyld_cache_header_layout_def size_of_def round_up_def)

end
