(* ===== verification/Scroll.thy ===== *)
theory Scroll
  imports Dsc_Bindings "HOL-Library.Monad_Syntax"
begin

text \<open>
  The \<open>scroll\<close> crate and the code its \<open>Pread\<close> derive generates are not part of the repository, so
  the readers it provides are a parameter of the model: the record \<open>env\<close>, together with the one
  compiler setting the source depends on, whether arithmetic is checked for overflow. The locale
  \<open>scroll_bounds\<close> states what the linker relies on: a read that succeeds lies inside the buffer.
  Theorems that do not name it hold for every reader. \<open>scroll_ref\<close> is a complete instance, fields
  read in declaration order without padding, on which the locale is interpreted and on which closed
  instances of the theorems are evaluated.
\<close>

section \<open>The parameter\<close>

datatype endian = Little | Big

type_synonym 'a reader = "endian \<Rightarrow> bytes \<Rightarrow> usize \<Rightarrow> 'a option"

record env =
  overflow_checks :: bool
  pread_u16 :: "u16 reader"
  pread_u32 :: "u32 reader"
  pread_u64 :: "u64 reader"
  pread_fat_header :: "fat_header reader"
  pread_fat_arch :: "fat_arch reader"
  pread_mach_header_64 :: "mach_header_64 reader"
  pread_load_command :: "load_command reader"
  pread_segment_command_64 :: "segment_command_64 reader"
  pread_section_64 :: "section_64 reader"
  pread_dylib_command :: "dylib_command reader"
  pread_symtab_command :: "symtab_command reader"
  pread_linkedit_data_command :: "linkedit_data_command reader"
  pread_entry_point_command :: "entry_point_command reader"
  pread_rpath_command :: "rpath_command reader"
  pread_nlist_64 :: "nlist_64 reader"
  pread_dyld_chained_fixups_header :: "dyld_chained_fixups_header reader"
  pread_dyld_chained_starts_in_image :: "dyld_chained_starts_in_image reader"
  pread_dyld_chained_starts_in_segment :: "dyld_chained_starts_in_segment reader"
  pread_dyld_chained_import_addend :: "dyld_chained_import_addend reader"
  pread_dyld_chained_import_addend64 :: "dyld_chained_import_addend64 reader"
  pread_dyld_cache_header :: "dyld_cache_header reader"
  pread_dyld_cache_mapping_info :: "dyld_cache_mapping_info reader"
  pread_dyld_cache_image_info :: "dyld_cache_image_info reader"
  pread_dyld_subcache_entry :: "dyld_subcache_entry reader"
  pread_dyld_info_command :: "dyld_info_command reader"
  pread_dylib_command_header :: "dylib_command_header reader"

definition reads_within :: "nat \<Rightarrow> 'a reader \<Rightarrow> bool" where
  "reads_within n rd \<longleftrightarrow> (\<forall>e bs off v. rd e bs off = Some v \<longrightarrow> unat off + n \<le> length bs)"

locale scroll_bounds =
  fixes E :: env
  assumes u16_within: "reads_within 2 (pread_u16 E)"
    and u32_within: "reads_within 4 (pread_u32 E)"
    and u64_within: "reads_within 8 (pread_u64 E)"
    and fat_header_within: "reads_within (packed_size fat_header_layout) (pread_fat_header E)"
    and fat_arch_within: "reads_within (packed_size fat_arch_layout) (pread_fat_arch E)"
    and mach_header_64_within: "reads_within (packed_size mach_header_64_layout) (pread_mach_header_64 E)"
    and load_command_within: "reads_within (packed_size load_command_layout) (pread_load_command E)"
    and segment_command_64_within: "reads_within (packed_size segment_command_64_layout) (pread_segment_command_64 E)"
    and section_64_within: "reads_within (packed_size section_64_layout) (pread_section_64 E)"
    and dylib_command_within: "reads_within (packed_size dylib_command_layout) (pread_dylib_command E)"
    and symtab_command_within: "reads_within (packed_size symtab_command_layout) (pread_symtab_command E)"
    and linkedit_data_command_within: "reads_within (packed_size linkedit_data_command_layout) (pread_linkedit_data_command E)"
    and entry_point_command_within: "reads_within (packed_size entry_point_command_layout) (pread_entry_point_command E)"
    and rpath_command_within: "reads_within (packed_size rpath_command_layout) (pread_rpath_command E)"
    and nlist_64_within: "reads_within (packed_size nlist_64_layout) (pread_nlist_64 E)"
    and dyld_chained_fixups_header_within: "reads_within (packed_size dyld_chained_fixups_header_layout) (pread_dyld_chained_fixups_header E)"
    and dyld_chained_starts_in_image_within: "reads_within (packed_size dyld_chained_starts_in_image_layout) (pread_dyld_chained_starts_in_image E)"
    and dyld_chained_starts_in_segment_within: "reads_within (packed_size dyld_chained_starts_in_segment_layout) (pread_dyld_chained_starts_in_segment E)"
    and dyld_chained_import_addend_within: "reads_within (packed_size dyld_chained_import_addend_layout) (pread_dyld_chained_import_addend E)"
    and dyld_chained_import_addend64_within: "reads_within (packed_size dyld_chained_import_addend64_layout) (pread_dyld_chained_import_addend64 E)"
    and dyld_cache_header_within: "reads_within (packed_size dyld_cache_header_layout) (pread_dyld_cache_header E)"
    and dyld_cache_mapping_info_within: "reads_within (packed_size dyld_cache_mapping_info_layout) (pread_dyld_cache_mapping_info E)"
    and dyld_cache_image_info_within: "reads_within (packed_size dyld_cache_image_info_layout) (pread_dyld_cache_image_info E)"
    and dyld_subcache_entry_within: "reads_within (packed_size dyld_subcache_entry_layout) (pread_dyld_subcache_entry E)"
    and dyld_info_command_within: "reads_within (packed_size dyld_info_command_layout) (pread_dyld_info_command E)"
    and dylib_command_header_within: "reads_within (packed_size dylib_command_header_layout) (pread_dylib_command_header E)"
begin

lemma u64_in_bounds: "pread_u64 E e bs off = Some v \<Longrightarrow> unat off + 8 \<le> length bs"
  using u64_within unfolding reads_within_def by blast

lemma u32_in_bounds: "pread_u32 E e bs off = Some v \<Longrightarrow> unat off + 4 \<le> length bs"
  using u32_within unfolding reads_within_def by blast

lemma load_command_in_bounds:
  "pread_load_command E e bs off = Some v \<Longrightarrow> unat off + 8 \<le> length bs"
  using load_command_within unfolding reads_within_def
  by (auto simp: packed_size_def load_command_layout_def)

end

section \<open>A reference instance\<close>

type_synonym 'a parser = "endian \<Rightarrow> bytes \<Rightarrow> ('a \<times> bytes) option"

fun le_nat :: "bytes \<Rightarrow> nat" where
  "le_nat [] = 0"
| "le_nat (b # bs) = unat b + 256 * le_nat bs"

definition bytes_nat :: "endian \<Rightarrow> bytes \<Rightarrow> nat" where
  "bytes_nat e bs = (case e of Little \<Rightarrow> le_nat bs | Big \<Rightarrow> le_nat (rev bs))"

definition p_bytes :: "nat \<Rightarrow> bytes parser" where
  "p_bytes n e bs = (if n \<le> length bs then Some (take n bs, drop n bs) else None)"

definition p_int :: "nat \<Rightarrow> 'a::len word parser" where
  "p_int n e bs = do { (x, bs) \<leftarrow> p_bytes n e bs; Some (of_nat (bytes_nat e x), bs) }"

abbreviation p_u8 :: "u8 parser" where "p_u8 \<equiv> p_int 1"
abbreviation p_u16 :: "u16 parser" where "p_u16 \<equiv> p_int 2"
abbreviation p_u32 :: "u32 parser" where "p_u32 \<equiv> p_int 4"
abbreviation p_u64 :: "u64 parser" where "p_u64 \<equiv> p_int 8"

definition p_u16_1 :: "u16 list parser" where
  "p_u16_1 e bs = do { (x, bs) \<leftarrow> p_u16 e bs; Some ([x], bs) }"

text \<open>An enum is read as its representation type; a value that is no discriminant is an error.\<close>

definition p_enum :: "'b::len word parser \<Rightarrow> ('a \<Rightarrow> 'b word) \<Rightarrow> 'a list \<Rightarrow> 'a parser" where
  "p_enum p repr all e bs =
     do { (x, bs) \<leftarrow> p e bs; c \<leftarrow> find (\<lambda>c. repr c = x) all; Some (c, bs) }"

definition p_mach_magic :: "mach_magic parser" where
  "p_mach_magic = p_enum p_u32 mach_magic_repr mach_magic_all"

definition p_filetype :: "macho_filetype_variants parser" where
  "p_filetype = p_enum p_u32 macho_filetype_variants_repr macho_filetype_variants_all"

definition p_load_command_variants :: "load_command_variants parser" where
  "p_load_command_variants = p_enum p_u32 load_command_variants_repr load_command_variants_all"

definition p_import_format :: "dyld_chained_import_format_variants parser" where
  "p_import_format =
     p_enum p_u32 dyld_chained_import_format_variants_repr dyld_chained_import_format_variants_all"

definition p_ptr_format :: "dyld_chained_ptr_format_variants parser" where
  "p_ptr_format =
     p_enum p_u16 dyld_chained_ptr_format_variants_repr dyld_chained_ptr_format_variants_all"

definition p_lc_str :: "lc_str parser" where
  "p_lc_str e bs = do {
       (x0, bs) \<leftarrow> p_u32 e bs;
       Some (\<lparr>ls_offset = x0\<rparr>, bs) }"

definition p_nlist_64_n_un :: "nlist_64_n_un parser" where
  "p_nlist_64_n_un e bs = do {
       (x0, bs) \<leftarrow> p_u32 e bs;
       Some (\<lparr>n_strx = x0\<rparr>, bs) }"

definition p_dylib :: "dylib parser" where
  "p_dylib e bs = do {
       (x0, bs) \<leftarrow> p_lc_str e bs;
       (x1, bs) \<leftarrow> p_u32 e bs;
       (x2, bs) \<leftarrow> p_u32 e bs;
       (x3, bs) \<leftarrow> p_u32 e bs;
       Some (\<lparr>dl_name = x0, dl_timestamp = x1, dl_current_version = x2, dl_compatibility_version = x3\<rparr>, bs) }"

definition p_fat_header :: "fat_header parser" where
  "p_fat_header e bs = do {
       (x0, bs) \<leftarrow> p_mach_magic e bs;
       (x1, bs) \<leftarrow> p_u32 e bs;
       Some (\<lparr>fh_magic = x0, fh_nfat_arch = x1\<rparr>, bs) }"

definition p_fat_arch :: "fat_arch parser" where
  "p_fat_arch e bs = do {
       (x0, bs) \<leftarrow> p_u32 e bs;
       (x1, bs) \<leftarrow> p_u32 e bs;
       (x2, bs) \<leftarrow> p_u32 e bs;
       (x3, bs) \<leftarrow> p_u32 e bs;
       (x4, bs) \<leftarrow> p_u32 e bs;
       Some (\<lparr>fa_cputype = x0, fa_cpusubtype = x1, fa_offset = x2, fa_size = x3,
          fa_align = x4\<rparr>, bs) }"

definition p_mach_header_64 :: "mach_header_64 parser" where
  "p_mach_header_64 e bs = do {
       (x0, bs) \<leftarrow> p_mach_magic e bs;
       (x1, bs) \<leftarrow> p_u32 e bs;
       (x2, bs) \<leftarrow> p_u32 e bs;
       (x3, bs) \<leftarrow> p_filetype e bs;
       (x4, bs) \<leftarrow> p_u32 e bs;
       (x5, bs) \<leftarrow> p_u32 e bs;
       (x6, bs) \<leftarrow> p_u32 e bs;
       (x7, bs) \<leftarrow> p_u32 e bs;
       Some (\<lparr>mh_magic = x0, mh_cputype = x1, mh_cpusubtype = x2, mh_filetype = x3,
          mh_ncmds = x4, mh_sizeofcmds = x5, mh_flags = x6, mh_reserved = x7\<rparr>, bs) }"

definition p_load_command :: "load_command parser" where
  "p_load_command e bs = do {
       (x0, bs) \<leftarrow> p_load_command_variants e bs;
       (x1, bs) \<leftarrow> p_u32 e bs;
       Some (\<lparr>lc_cmd = x0, lc_cmdsize = x1\<rparr>, bs) }"

definition p_segment_command_64 :: "segment_command_64 parser" where
  "p_segment_command_64 e bs = do {
       (x0, bs) \<leftarrow> p_load_command_variants e bs;
       (x1, bs) \<leftarrow> p_u32 e bs;
       (x2, bs) \<leftarrow> p_bytes 16 e bs;
       (x3, bs) \<leftarrow> p_u64 e bs;
       (x4, bs) \<leftarrow> p_u64 e bs;
       (x5, bs) \<leftarrow> p_u64 e bs;
       (x6, bs) \<leftarrow> p_u64 e bs;
       (x7, bs) \<leftarrow> p_u32 e bs;
       (x8, bs) \<leftarrow> p_u32 e bs;
       (x9, bs) \<leftarrow> p_u32 e bs;
       (x10, bs) \<leftarrow> p_u32 e bs;
       Some (\<lparr>sg_cmd = x0, sg_cmdsize = x1, sg_segname = x2, sg_vmaddr = x3,
          sg_vmsize = x4, sg_fileoff = x5, sg_filesize = x6, sg_maxprot = x7,
          sg_initprot = x8, sg_nsects = x9, sg_flags = x10\<rparr>, bs) }"

definition p_section_64 :: "section_64 parser" where
  "p_section_64 e bs = do {
       (x0, bs) \<leftarrow> p_bytes 16 e bs;
       (x1, bs) \<leftarrow> p_bytes 16 e bs;
       (x2, bs) \<leftarrow> p_u64 e bs;
       (x3, bs) \<leftarrow> p_u64 e bs;
       (x4, bs) \<leftarrow> p_u32 e bs;
       (x5, bs) \<leftarrow> p_u32 e bs;
       (x6, bs) \<leftarrow> p_u32 e bs;
       (x7, bs) \<leftarrow> p_u32 e bs;
       (x8, bs) \<leftarrow> p_u32 e bs;
       (x9, bs) \<leftarrow> p_u32 e bs;
       (x10, bs) \<leftarrow> p_u32 e bs;
       (x11, bs) \<leftarrow> p_u32 e bs;
       Some (\<lparr>se_sectname = x0, se_segname = x1, se_addr = x2, se_size = x3,
          se_offset = x4, se_align = x5, se_reloff = x6, se_nreloc = x7,
          se_flags = x8, se_reserved1 = x9, se_reserved2 = x10, se_reserved3 = x11\<rparr>, bs) }"

definition p_dylib_command :: "dylib_command parser" where
  "p_dylib_command e bs = do {
       (x0, bs) \<leftarrow> p_load_command_variants e bs;
       (x1, bs) \<leftarrow> p_u32 e bs;
       (x2, bs) \<leftarrow> p_dylib e bs;
       Some (\<lparr>dc_cmd = x0, dc_cmdsize = x1, dc_dylib = x2\<rparr>, bs) }"

definition p_symtab_command :: "symtab_command parser" where
  "p_symtab_command e bs = do {
       (x0, bs) \<leftarrow> p_load_command_variants e bs;
       (x1, bs) \<leftarrow> p_u32 e bs;
       (x2, bs) \<leftarrow> p_u32 e bs;
       (x3, bs) \<leftarrow> p_u32 e bs;
       (x4, bs) \<leftarrow> p_u32 e bs;
       (x5, bs) \<leftarrow> p_u32 e bs;
       Some (\<lparr>st_cmd = x0, st_cmdsize = x1, st_symoff = x2, st_nsyms = x3,
          st_stroff = x4, st_strsize = x5\<rparr>, bs) }"

definition p_linkedit_data_command :: "linkedit_data_command parser" where
  "p_linkedit_data_command e bs = do {
       (x0, bs) \<leftarrow> p_load_command_variants e bs;
       (x1, bs) \<leftarrow> p_u32 e bs;
       (x2, bs) \<leftarrow> p_u32 e bs;
       (x3, bs) \<leftarrow> p_u32 e bs;
       Some (\<lparr>ld_cmd = x0, ld_cmdsize = x1, ld_dataoff = x2, ld_datasize = x3\<rparr>, bs) }"

definition p_entry_point_command :: "entry_point_command parser" where
  "p_entry_point_command e bs = do {
       (x0, bs) \<leftarrow> p_load_command_variants e bs;
       (x1, bs) \<leftarrow> p_u32 e bs;
       (x2, bs) \<leftarrow> p_u64 e bs;
       (x3, bs) \<leftarrow> p_u64 e bs;
       Some (\<lparr>ep_cmd = x0, ep_cmdsize = x1, ep_entryoff = x2, ep_stacksize = x3\<rparr>, bs) }"

definition p_rpath_command :: "rpath_command parser" where
  "p_rpath_command e bs = do {
       (x0, bs) \<leftarrow> p_u32 e bs;
       (x1, bs) \<leftarrow> p_u32 e bs;
       (x2, bs) \<leftarrow> p_lc_str e bs;
       Some (\<lparr>rp_cmd = x0, rp_cmdsize = x1, rp_path = x2\<rparr>, bs) }"

definition p_nlist_64 :: "nlist_64 parser" where
  "p_nlist_64 e bs = do {
       (x0, bs) \<leftarrow> p_nlist_64_n_un e bs;
       (x1, bs) \<leftarrow> p_u8 e bs;
       (x2, bs) \<leftarrow> p_u8 e bs;
       (x3, bs) \<leftarrow> p_u16 e bs;
       (x4, bs) \<leftarrow> p_u64 e bs;
       Some (\<lparr>n_un = x0, n_type = x1, n_sect = x2, n_desc = x3,
          n_value = x4\<rparr>, bs) }"

definition p_dyld_chained_fixups_header :: "dyld_chained_fixups_header parser" where
  "p_dyld_chained_fixups_header e bs = do {
       (x0, bs) \<leftarrow> p_u32 e bs;
       (x1, bs) \<leftarrow> p_u32 e bs;
       (x2, bs) \<leftarrow> p_u32 e bs;
       (x3, bs) \<leftarrow> p_u32 e bs;
       (x4, bs) \<leftarrow> p_u32 e bs;
       (x5, bs) \<leftarrow> p_import_format e bs;
       (x6, bs) \<leftarrow> p_u32 e bs;
       Some (\<lparr>cf_fixups_version = x0, cf_starts_offset = x1, cf_imports_offset = x2, cf_symbols_offset = x3,
          cf_imports_count = x4, cf_imports_format = x5, cf_symbols_format = x6\<rparr>, bs) }"

definition p_dyld_chained_starts_in_image :: "dyld_chained_starts_in_image parser" where
  "p_dyld_chained_starts_in_image e bs = do {
       (x0, bs) \<leftarrow> p_u32 e bs;
       Some (\<lparr>si_seg_count = x0\<rparr>, bs) }"

definition p_dyld_chained_starts_in_segment :: "dyld_chained_starts_in_segment parser" where
  "p_dyld_chained_starts_in_segment e bs = do {
       (x0, bs) \<leftarrow> p_u32 e bs;
       (x1, bs) \<leftarrow> p_u16 e bs;
       (x2, bs) \<leftarrow> p_ptr_format e bs;
       (x3, bs) \<leftarrow> p_u64 e bs;
       (x4, bs) \<leftarrow> p_u32 e bs;
       (x5, bs) \<leftarrow> p_u16 e bs;
       (x6, bs) \<leftarrow> p_u16_1 e bs;
       Some (\<lparr>ss_size = x0, ss_page_size = x1, ss_pointer_format = x2, ss_segment_offset = x3,
          ss_max_valid_pointer = x4, ss_page_count = x5, ss_page_start = x6\<rparr>, bs) }"

definition p_dyld_chained_import_addend :: "dyld_chained_import_addend parser" where
  "p_dyld_chained_import_addend e bs = do {
       (x0, bs) \<leftarrow> p_u32 e bs;
       (x1, bs) \<leftarrow> p_u32 e bs;
       Some (\<lparr>ia_header = x0, ia_addend = x1\<rparr>, bs) }"

definition p_dyld_chained_import_addend64 :: "dyld_chained_import_addend64 parser" where
  "p_dyld_chained_import_addend64 e bs = do {
       (x0, bs) \<leftarrow> p_u32 e bs;
       (x1, bs) \<leftarrow> p_u64 e bs;
       Some (\<lparr>ia64_header = x0, ia64_addend = x1\<rparr>, bs) }"

definition p_dyld_cache_header :: "dyld_cache_header parser" where
  "p_dyld_cache_header e bs = do {
       (x0, bs) \<leftarrow> p_bytes 16 e bs;
       (x1, bs) \<leftarrow> p_u32 e bs;
       (x2, bs) \<leftarrow> p_u32 e bs;
       (x3, bs) \<leftarrow> p_u32 e bs;
       (x4, bs) \<leftarrow> p_u32 e bs;
       (x5, bs) \<leftarrow> p_u64 e bs;
       (x6, bs) \<leftarrow> p_u64 e bs;
       (x7, bs) \<leftarrow> p_u64 e bs;
       (x8, bs) \<leftarrow> p_u64 e bs;
       (x9, bs) \<leftarrow> p_u64 e bs;
       (x10, bs) \<leftarrow> p_u64 e bs;
       (x11, bs) \<leftarrow> p_u64 e bs;
       (x12, bs) \<leftarrow> p_bytes 16 e bs;
       (x13, bs) \<leftarrow> p_u64 e bs;
       (x14, bs) \<leftarrow> p_u32 e bs;
       (x15, bs) \<leftarrow> p_u32 e bs;
       (x16, bs) \<leftarrow> p_u64 e bs;
       (x17, bs) \<leftarrow> p_u64 e bs;
       (x18, bs) \<leftarrow> p_u64 e bs;
       (x19, bs) \<leftarrow> p_u64 e bs;
       (x20, bs) \<leftarrow> p_u64 e bs;
       (x21, bs) \<leftarrow> p_u64 e bs;
       (x22, bs) \<leftarrow> p_u64 e bs;
       (x23, bs) \<leftarrow> p_u64 e bs;
       (x24, bs) \<leftarrow> p_u64 e bs;
       (x25, bs) \<leftarrow> p_u64 e bs;
       (x26, bs) \<leftarrow> p_u64 e bs;
       (x27, bs) \<leftarrow> p_u64 e bs;
       (x28, bs) \<leftarrow> p_u32 e bs;
       (x29, bs) \<leftarrow> p_u32 e bs;
       (x30, bs) \<leftarrow> p_u64 e bs;
       (x31, bs) \<leftarrow> p_u64 e bs;
       (x32, bs) \<leftarrow> p_u64 e bs;
       (x33, bs) \<leftarrow> p_u64 e bs;
       (x34, bs) \<leftarrow> p_u64 e bs;
       (x35, bs) \<leftarrow> p_u64 e bs;
       (x36, bs) \<leftarrow> p_u64 e bs;
       (x37, bs) \<leftarrow> p_u64 e bs;
       (x38, bs) \<leftarrow> p_u64 e bs;
       (x39, bs) \<leftarrow> p_u64 e bs;
       (x40, bs) \<leftarrow> p_u64 e bs;
       (x41, bs) \<leftarrow> p_u32 e bs;
       (x42, bs) \<leftarrow> p_u32 e bs;
       (x43, bs) \<leftarrow> p_u64 e bs;
       (x44, bs) \<leftarrow> p_u64 e bs;
       (x45, bs) \<leftarrow> p_u64 e bs;
       (x46, bs) \<leftarrow> p_u64 e bs;
       (x47, bs) \<leftarrow> p_u64 e bs;
       (x48, bs) \<leftarrow> p_u32 e bs;
       (x49, bs) \<leftarrow> p_u32 e bs;
       (x50, bs) \<leftarrow> p_u32 e bs;
       (x51, bs) \<leftarrow> p_u32 e bs;
       (x52, bs) \<leftarrow> p_u64 e bs;
       (x53, bs) \<leftarrow> p_u64 e bs;
       (x54, bs) \<leftarrow> p_u32 e bs;
       (x55, bs) \<leftarrow> p_u32 e bs;
       (x56, bs) \<leftarrow> p_bytes 16 e bs;
       (x57, bs) \<leftarrow> p_u64 e bs;
       (x58, bs) \<leftarrow> p_u64 e bs;
       (x59, bs) \<leftarrow> p_u64 e bs;
       (x60, bs) \<leftarrow> p_u64 e bs;
       (x61, bs) \<leftarrow> p_u32 e bs;
       (x62, bs) \<leftarrow> p_u32 e bs;
       (x63, bs) \<leftarrow> p_u32 e bs;
       (x64, bs) \<leftarrow> p_u64 e bs;
       (x65, bs) \<leftarrow> p_u64 e bs;
       (x66, bs) \<leftarrow> p_u64 e bs;
       (x67, bs) \<leftarrow> p_u64 e bs;
       (x68, bs) \<leftarrow> p_u64 e bs;
       (x69, bs) \<leftarrow> p_u64 e bs;
       (x70, bs) \<leftarrow> p_u32 e bs;
       (x71, bs) \<leftarrow> p_u32 e bs;
       (x72, bs) \<leftarrow> p_u64 e bs;
       (x73, bs) \<leftarrow> p_u64 e bs;
       (x74, bs) \<leftarrow> p_u64 e bs;
       (x75, bs) \<leftarrow> p_u64 e bs;
       Some (\<lparr>ch_magic = x0, ch_mapping_offset = x1, ch_mapping_count = x2, ch_images_offset_old = x3,
          ch_images_count_old = x4, ch_dyld_base_address = x5, ch_code_signature_offset = x6, ch_code_signature_size = x7,
          ch_slide_info_offset_unused = x8, ch_slide_info_size_unused = x9, ch_local_symbols_offset = x10, ch_local_symbols_size = x11,
          ch_uuid = x12, ch_cache_type = x13, ch_branch_pools_offset = x14, ch_branch_pools_count = x15,
          ch_dyld_in_cache_mh = x16, ch_dyld_in_cache_entry = x17, ch_images_text_offset = x18, ch_images_text_count = x19,
          ch_patch_info_addr = x20, ch_patch_info_size = x21, ch_other_image_group_addr_unused = x22, ch_other_image_group_size_unused = x23,
          ch_prog_closures_addr = x24, ch_prog_closures_size = x25, ch_prog_closures_trie_addr = x26, ch_prog_closures_trie_size = x27,
          ch_platform = x28, ch_flags = x29, ch_shared_region_start = x30, ch_shared_region_size = x31,
          ch_max_slide = x32, ch_dylibs_image_array_addr = x33, ch_dylibs_image_array_size = x34, ch_dylibs_trie_addr = x35,
          ch_dylibs_trie_size = x36, ch_other_image_array_addr = x37, ch_other_image_array_size = x38, ch_other_trie_addr = x39,
          ch_other_trie_size = x40, ch_mapping_with_slide_offset = x41, ch_mapping_with_slide_count = x42, ch_dylibs_pbl_state_array_addr_unused = x43,
          ch_dylibs_pbl_set_addr = x44, ch_programs_pbl_set_pool_addr = x45, ch_programs_pbl_set_pool_size = x46, ch_program_trie_addr = x47,
          ch_program_trie_size = x48, ch_os_version = x49, ch_alt_platform = x50, ch_alt_os_version = x51,
          ch_swift_opts_offset = x52, ch_swift_opts_size = x53, ch_sub_cache_array_offset = x54, ch_sub_cache_array_count = x55,
          ch_symbol_file_uuid = x56, ch_rosetta_read_only_addr = x57, ch_rosetta_read_only_size = x58, ch_rosetta_read_write_addr = x59,
          ch_rosetta_read_write_size = x60, ch_images_offset = x61, ch_images_count = x62, ch_cache_sub_type = x63,
          ch_objc_opts_offset = x64, ch_objc_opts_size = x65, ch_cache_atlas_offset = x66, ch_cache_atlas_size = x67,
          ch_dynamic_data_offset = x68, ch_dynamic_data_max_size = x69, ch_tpro_mappings_offset = x70, ch_tpro_mappings_count = x71,
          ch_function_variant_info_addr = x72, ch_function_variant_info_size = x73, ch_prewarming_data_offset = x74, ch_prewarming_data_size = x75\<rparr>, bs) }"

definition p_dyld_cache_mapping_info :: "dyld_cache_mapping_info parser" where
  "p_dyld_cache_mapping_info e bs = do {
       (x0, bs) \<leftarrow> p_u64 e bs;
       (x1, bs) \<leftarrow> p_u64 e bs;
       (x2, bs) \<leftarrow> p_u64 e bs;
       (x3, bs) \<leftarrow> p_u32 e bs;
       (x4, bs) \<leftarrow> p_u32 e bs;
       Some (\<lparr>mi_address = x0, mi_size = x1, mi_file_offset = x2, mi_max_prot = x3,
          mi_init_prot = x4\<rparr>, bs) }"

definition p_dyld_cache_image_info :: "dyld_cache_image_info parser" where
  "p_dyld_cache_image_info e bs = do {
       (x0, bs) \<leftarrow> p_u64 e bs;
       (x1, bs) \<leftarrow> p_u64 e bs;
       (x2, bs) \<leftarrow> p_u64 e bs;
       (x3, bs) \<leftarrow> p_u32 e bs;
       (x4, bs) \<leftarrow> p_u32 e bs;
       Some (\<lparr>ii_address = x0, ii_mod_time = x1, ii_inode = x2, ii_path_file_offset = x3,
          ii_pad = x4\<rparr>, bs) }"

definition p_dyld_subcache_entry :: "dyld_subcache_entry parser" where
  "p_dyld_subcache_entry e bs = do {
       (x0, bs) \<leftarrow> p_bytes 16 e bs;
       (x1, bs) \<leftarrow> p_u64 e bs;
       (x2, bs) \<leftarrow> p_bytes 32 e bs;
       Some (\<lparr>sce_uuid = x0, sce_cache_vm_offset = x1, sce_file_suffix = x2\<rparr>, bs) }"

definition p_dyld_info_command :: "dyld_info_command parser" where
  "p_dyld_info_command e bs = do {
       (x0, bs) \<leftarrow> p_u32 e bs;
       (x1, bs) \<leftarrow> p_u32 e bs;
       (x2, bs) \<leftarrow> p_u32 e bs;
       (x3, bs) \<leftarrow> p_u32 e bs;
       (x4, bs) \<leftarrow> p_u32 e bs;
       (x5, bs) \<leftarrow> p_u32 e bs;
       (x6, bs) \<leftarrow> p_u32 e bs;
       (x7, bs) \<leftarrow> p_u32 e bs;
       (x8, bs) \<leftarrow> p_u32 e bs;
       (x9, bs) \<leftarrow> p_u32 e bs;
       (x10, bs) \<leftarrow> p_u32 e bs;
       (x11, bs) \<leftarrow> p_u32 e bs;
       Some (\<lparr>di_cmd = x0, di_cmdsize = x1, di_rebase_off = x2, di_rebase_size = x3,
          di_bind_off = x4, di_bind_size = x5, di_weak_bind_off = x6, di_weak_bind_size = x7,
          di_lazy_bind_off = x8, di_lazy_bind_size = x9, di_export_off = x10, di_export_size = x11\<rparr>, bs) }"

definition p_dylib_command_header :: "dylib_command_header parser" where
  "p_dylib_command_header e bs = do {
       (x0, bs) \<leftarrow> p_u32 e bs;
       (x1, bs) \<leftarrow> p_u32 e bs;
       (x2, bs) \<leftarrow> p_u32 e bs;
       (x3, bs) \<leftarrow> p_u32 e bs;
       (x4, bs) \<leftarrow> p_u32 e bs;
       (x5, bs) \<leftarrow> p_u32 e bs;
       Some (\<lparr>dh_cmd = x0, dh_cmdsize = x1, dh_name_offset = x2, dh_timestamp = x3,
          dh_current_version = x4, dh_compatibility_version = x5\<rparr>, bs) }"

definition pread_with :: "'a parser \<Rightarrow> 'a reader" where
  "pread_with p e bs off =
     (if unat off < length bs then map_option fst (p e (drop (unat off) bs)) else None)"

definition scroll_ref :: "bool \<Rightarrow> env" where
  "scroll_ref oc = \<lparr>
     overflow_checks = oc,
     pread_u16 = pread_with p_u16,
     pread_u32 = pread_with p_u32,
     pread_u64 = pread_with p_u64,
     pread_fat_header = pread_with p_fat_header,
     pread_fat_arch = pread_with p_fat_arch,
     pread_mach_header_64 = pread_with p_mach_header_64,
     pread_load_command = pread_with p_load_command,
     pread_segment_command_64 = pread_with p_segment_command_64,
     pread_section_64 = pread_with p_section_64,
     pread_dylib_command = pread_with p_dylib_command,
     pread_symtab_command = pread_with p_symtab_command,
     pread_linkedit_data_command = pread_with p_linkedit_data_command,
     pread_entry_point_command = pread_with p_entry_point_command,
     pread_rpath_command = pread_with p_rpath_command,
     pread_nlist_64 = pread_with p_nlist_64,
     pread_dyld_chained_fixups_header = pread_with p_dyld_chained_fixups_header,
     pread_dyld_chained_starts_in_image = pread_with p_dyld_chained_starts_in_image,
     pread_dyld_chained_starts_in_segment = pread_with p_dyld_chained_starts_in_segment,
     pread_dyld_chained_import_addend = pread_with p_dyld_chained_import_addend,
     pread_dyld_chained_import_addend64 = pread_with p_dyld_chained_import_addend64,
     pread_dyld_cache_header = pread_with p_dyld_cache_header,
     pread_dyld_cache_mapping_info = pread_with p_dyld_cache_mapping_info,
     pread_dyld_cache_image_info = pread_with p_dyld_cache_image_info,
     pread_dyld_subcache_entry = pread_with p_dyld_subcache_entry,
     pread_dyld_info_command = pread_with p_dyld_info_command,
     pread_dylib_command_header = pread_with p_dylib_command_header\<rparr>"

section \<open>The instance satisfies the laws\<close>


text \<open>\<open>ate n r bs\<close>: if the parse result \<open>r\<close> of \<open>bs\<close> is a success, it used up exactly \<open>n\<close> bytes.\<close>

definition ate :: "nat \<Rightarrow> ('a \<times> bytes) option \<Rightarrow> bytes \<Rightarrow> bool" where
  "ate n r bs \<longleftrightarrow> (\<forall>v bs'. r = Some (v, bs') \<longrightarrow> length bs = n + length bs')"

lemma ate_return: "ate 0 (Some (v, bs)) bs"
  by (simp add: ate_def)

lemma ate_bind:
  "ate n r bs \<Longrightarrow> (\<And>x bs1. ate m (k x bs1) bs1) \<Longrightarrow>
     ate (n + m) (Option.bind r (\<lambda>(x, bs1). k x bs1)) bs"
  by (cases r) (fastforce simp: ate_def)+

lemma ate_bytes: "ate n (p_bytes n e bs) bs"
  by (auto simp: ate_def p_bytes_def)

lemma ate_int: "ate n (p_int n e bs) bs"
  using ate_bind [OF ate_bytes ate_return] by (fastforce simp: p_int_def)

lemma ate_u16_1: "ate 2 (p_u16_1 e bs) bs"
  using ate_bind [OF ate_int ate_return] by (fastforce simp: p_u16_1_def)

lemma ate_enum: "ate n (p e bs) bs \<Longrightarrow> ate n (p_enum p repr all e bs) bs"
  by (auto simp: p_enum_def ate_def split: Option.bind_splits)

lemma ate_enums:
  "ate 4 (p_mach_magic e bs) bs" "ate 4 (p_filetype e bs) bs"
  "ate 4 (p_load_command_variants e bs) bs" "ate 4 (p_import_format e bs) bs"
  "ate 2 (p_ptr_format e bs) bs"
  unfolding p_mach_magic_def p_filetype_def p_load_command_variants_def p_import_format_def
    p_ptr_format_def
  by (rule ate_enum, rule ate_int)+

lemmas ate_prims = ate_return ate_bind ate_bytes ate_int ate_u16_1 ate_enums

lemma packed_size_simps:
  "packed_size [] = 0" "packed_size ((s, a) # fs) = s + packed_size fs"
  by (simp_all add: packed_size_def)

lemmas dsc_layout_defs =
  dyld_cache_header_layout_def dyld_cache_mapping_info_layout_def dyld_cache_image_info_layout_def
  dyld_subcache_entry_layout_def dyld_info_command_layout_def dylib_command_header_layout_def

lemma ate_lc_str: "ate 4 (p_lc_str e bs) bs"
  using ate_bind [OF ate_int ate_return] by (fastforce simp: p_lc_str_def)

lemma ate_n_un: "ate 4 (p_nlist_64_n_un e bs) bs"
  using ate_bind [OF ate_int ate_return] by (fastforce simp: p_nlist_64_n_un_def)

lemmas ate_rules = ate_lc_str ate_n_un ate_prims


lemma ate_dylib: "ate (packed_size dylib_layout) (p_dylib e bs) bs"
  unfolding p_dylib_def dylib_layout_def packed_size_simps by (rule ate_rules)+

lemma ate_fat_header: "ate (packed_size fat_header_layout) (p_fat_header e bs) bs"
  unfolding p_fat_header_def fat_header_layout_def packed_size_simps by (rule ate_rules)+

lemma ate_fat_arch: "ate (packed_size fat_arch_layout) (p_fat_arch e bs) bs"
  unfolding p_fat_arch_def fat_arch_layout_def packed_size_simps by (rule ate_rules)+

lemma ate_mach_header_64: "ate (packed_size mach_header_64_layout) (p_mach_header_64 e bs) bs"
  unfolding p_mach_header_64_def mach_header_64_layout_def packed_size_simps by (rule ate_rules)+

lemma ate_load_command: "ate (packed_size load_command_layout) (p_load_command e bs) bs"
  unfolding p_load_command_def load_command_layout_def packed_size_simps by (rule ate_rules)+

lemma ate_segment_command_64: "ate (packed_size segment_command_64_layout) (p_segment_command_64 e bs) bs"
  unfolding p_segment_command_64_def segment_command_64_layout_def packed_size_simps by (rule ate_rules)+

lemma ate_section_64: "ate (packed_size section_64_layout) (p_section_64 e bs) bs"
  unfolding p_section_64_def section_64_layout_def packed_size_simps by (rule ate_rules)+

lemma ate_dylib_command: "ate (packed_size dylib_command_layout) (p_dylib_command e bs) bs"
proof -
  have "ate (4 + (4 + (packed_size dylib_layout + 0))) (p_dylib_command e bs) bs"
    unfolding p_dylib_command_def by (rule ate_rules ate_dylib)+
  then show ?thesis
    by (simp add: dylib_command_layout_def packed_size_simps)
qed

lemma ate_symtab_command: "ate (packed_size symtab_command_layout) (p_symtab_command e bs) bs"
  unfolding p_symtab_command_def symtab_command_layout_def packed_size_simps by (rule ate_rules)+

lemma ate_linkedit_data_command: "ate (packed_size linkedit_data_command_layout) (p_linkedit_data_command e bs) bs"
  unfolding p_linkedit_data_command_def linkedit_data_command_layout_def packed_size_simps by (rule ate_rules)+

lemma ate_entry_point_command: "ate (packed_size entry_point_command_layout) (p_entry_point_command e bs) bs"
  unfolding p_entry_point_command_def entry_point_command_layout_def packed_size_simps by (rule ate_rules)+

lemma ate_rpath_command: "ate (packed_size rpath_command_layout) (p_rpath_command e bs) bs"
  unfolding p_rpath_command_def rpath_command_layout_def packed_size_simps by (rule ate_rules)+

lemma ate_nlist_64: "ate (packed_size nlist_64_layout) (p_nlist_64 e bs) bs"
  unfolding p_nlist_64_def nlist_64_layout_def packed_size_simps by (rule ate_rules)+

lemma ate_dyld_chained_fixups_header: "ate (packed_size dyld_chained_fixups_header_layout) (p_dyld_chained_fixups_header e bs) bs"
  unfolding p_dyld_chained_fixups_header_def dyld_chained_fixups_header_layout_def packed_size_simps by (rule ate_rules)+

lemma ate_dyld_chained_starts_in_image: "ate (packed_size dyld_chained_starts_in_image_layout) (p_dyld_chained_starts_in_image e bs) bs"
  unfolding p_dyld_chained_starts_in_image_def dyld_chained_starts_in_image_layout_def packed_size_simps by (rule ate_rules)+

lemma ate_dyld_chained_starts_in_segment: "ate (packed_size dyld_chained_starts_in_segment_layout) (p_dyld_chained_starts_in_segment e bs) bs"
  unfolding p_dyld_chained_starts_in_segment_def dyld_chained_starts_in_segment_layout_def packed_size_simps by (rule ate_rules)+

lemma ate_dyld_chained_import_addend: "ate (packed_size dyld_chained_import_addend_layout) (p_dyld_chained_import_addend e bs) bs"
  unfolding p_dyld_chained_import_addend_def dyld_chained_import_addend_layout_def packed_size_simps by (rule ate_rules)+

lemma ate_dyld_chained_import_addend64: "ate (packed_size dyld_chained_import_addend64_layout) (p_dyld_chained_import_addend64 e bs) bs"
  unfolding p_dyld_chained_import_addend64_def dyld_chained_import_addend64_layout_def packed_size_simps by (rule ate_rules)+

lemma ate_dyld_cache_header: "ate (packed_size dyld_cache_header_layout) (p_dyld_cache_header e bs) bs"
  unfolding p_dyld_cache_header_def dyld_cache_header_layout_def packed_size_simps by (rule ate_rules)+

lemma ate_dyld_cache_mapping_info: "ate (packed_size dyld_cache_mapping_info_layout) (p_dyld_cache_mapping_info e bs) bs"
  unfolding p_dyld_cache_mapping_info_def dyld_cache_mapping_info_layout_def packed_size_simps by (rule ate_rules)+

lemma ate_dyld_cache_image_info: "ate (packed_size dyld_cache_image_info_layout) (p_dyld_cache_image_info e bs) bs"
  unfolding p_dyld_cache_image_info_def dyld_cache_image_info_layout_def packed_size_simps by (rule ate_rules)+

lemma ate_dyld_subcache_entry: "ate (packed_size dyld_subcache_entry_layout) (p_dyld_subcache_entry e bs) bs"
  unfolding p_dyld_subcache_entry_def dyld_subcache_entry_layout_def packed_size_simps by (rule ate_rules)+

lemma ate_dyld_info_command: "ate (packed_size dyld_info_command_layout) (p_dyld_info_command e bs) bs"
  unfolding p_dyld_info_command_def dyld_info_command_layout_def packed_size_simps by (rule ate_rules)+

lemma ate_dylib_command_header: "ate (packed_size dylib_command_header_layout) (p_dylib_command_header e bs) bs"
  unfolding p_dylib_command_header_def dylib_command_header_layout_def packed_size_simps by (rule ate_rules)+

lemma reads_within_pread_with:
  assumes "\<And>e bs. ate n (p e bs) bs"
  shows "reads_within n (pread_with p)"
  unfolding reads_within_def pread_with_def
proof (intro allI impI)
  fix e bs off v
  assume "(if unat off < length bs then map_option fst (p e (drop (unat off) bs)) else None) = Some v"
  then obtain bs' where off: "unat off < length bs" and "p e (drop (unat off) bs) = Some (v, bs')"
    by (auto split: if_splits)
  with assms [of e "drop (unat off) bs"] show "unat off + n \<le> length bs"
    by (simp add: ate_def)
qed

lemmas ate_structs =
  ate_fat_header ate_fat_arch ate_mach_header_64 ate_load_command ate_segment_command_64 ate_section_64 ate_dylib_command ate_symtab_command ate_linkedit_data_command ate_entry_point_command ate_rpath_command ate_nlist_64 ate_dyld_chained_fixups_header ate_dyld_chained_starts_in_image ate_dyld_chained_starts_in_segment ate_dyld_chained_import_addend ate_dyld_chained_import_addend64 ate_dyld_cache_header ate_dyld_cache_mapping_info ate_dyld_cache_image_info ate_dyld_subcache_entry ate_dyld_info_command ate_dylib_command_header

interpretation scroll_ref: scroll_bounds "scroll_ref oc" for oc
  by unfold_locales
    (simp_all only: scroll_ref_def env.select_convs,
     (rule reads_within_pread_with, rule ate_int ate_structs)+)

text \<open>Evaluation of the readers on literal bytes.\<close>

lemmas parser_simps = p_int_def p_bytes_def bytes_nat_def p_enum_def pread_with_def p_mach_magic_def
  p_filetype_def p_load_command_variants_def mach_magic_all_def macho_filetype_variants_all_def
  load_command_variants_all_def const_defs

end
