(* ===== verification/Container.thy ===== *)
theory Container
  imports Scroll
begin

unbundle bit_operations_syntax

text \<open>
  \<open>src/src/container.rs\<close>: a Mach-O image as bytes with an endianness, the reads every other part of
  the linker goes through, and the ULEB128 decoder. The decoder is characterised completely (which
  inputs it accepts, what it returns) and is shown to invert the usual encoder on every 64-bit value;
  the string readers are shown to panic exactly on the three malformed inputs their comments name.
\<close>

section \<open>The container\<close>

record container =
  c_data :: bytes
  c_endian :: endian

definition with_bytes :: "bytes \<Rightarrow> endian \<Rightarrow> container" where
  "with_bytes data e = \<lparr>c_data = data, c_endian = e\<rparr>"

definition deserialize_type_at_offset :: "'a reader \<Rightarrow> container \<Rightarrow> usize \<Rightarrow> 'a option" where
  "deserialize_type_at_offset rd c offset = rd (c_endian c) (c_data c) offset"

definition slice :: "container \<Rightarrow> usize \<Rightarrow> usize \<Rightarrow> bytes option" where
  "slice c offset len =
     (case checked_add offset len of None \<Rightarrow> None | Some e \<Rightarrow> get_range (c_data c) offset e)"

definition as_bytes :: "container \<Rightarrow> bytes" where
  "as_bytes c = c_data c"

definition deserialize_string_at_offset :: "container \<Rightarrow> usize \<Rightarrow> bytes res" where
  "deserialize_string_at_offset c offset =
     (if length (c_data c) < unat offset then Panic Str_Out_Of_Bounds
      else let bytes_from_offset = drop (unat offset) (c_data c) in
        case position (\<lambda>b. b = 0) bytes_from_offset of
          None \<Rightarrow> Panic Str_No_Nul
        | Some null_pos \<Rightarrow>
            let cstring_bytes = take null_pos bytes_from_offset in
            if utf8_valid cstring_bytes then Ok cstring_bytes else Panic Str_Invalid_Utf8)"

text \<open>\<open>CStr::from_bytes_with_nul\<close>: the only NUL is the last byte.\<close>

definition cstr_from_bytes_with_nul :: "bytes \<Rightarrow> bytes option" where
  "cstr_from_bytes_with_nul bs =
     (if bs \<noteq> [] \<and> position (\<lambda>b. b = 0) bs = Some (length bs - 1) then Some bs else None)"

definition deserialize_cstr_at_offset :: "container \<Rightarrow> usize \<Rightarrow> bytes res" where
  "deserialize_cstr_at_offset c offset =
     (if length (c_data c) < unat offset then Panic Str_Out_Of_Bounds
      else let bytes_from_offset = drop (unat offset) (c_data c) in
        case position (\<lambda>b. b = 0) bytes_from_offset of
          None \<Rightarrow> Panic Str_No_Nul
        | Some null_pos \<Rightarrow>
            unwrap (cstr_from_bytes_with_nul (take (Suc null_pos) bytes_from_offset)))"

text \<open>\<open>CStr::to_bytes\<close> drops the terminator.\<close>

definition cstr_to_bytes :: "bytes \<Rightarrow> bytes" where
  "cstr_to_bytes cs = butlast cs"

section \<open>ULEB128\<close>

fun uleb_loop :: "nat \<Rightarrow> nat \<Rightarrow> u64 \<Rightarrow> bytes \<Rightarrow> (u64 \<times> usize) option" where
  "uleb_loop i shift result [] = None"
| "uleb_loop i shift result (b # bs) =
     (let result = result OR push_bit shift (ucast (b AND 0x7f)) in
      if b AND 0x80 = 0 then Some (result, of_nat (i + 1))
      else if 64 \<le> shift + 7 then None
      else uleb_loop (i + 1) (shift + 7) result bs)"

definition read_uleb128 :: "bytes \<Rightarrow> (u64 \<times> usize) option" where
  "read_uleb128 bs = uleb_loop 0 0 0 bs"

text \<open>What the bytes denote, and the encoder the decoder inverts.\<close>

fun uleb_nat :: "bytes \<Rightarrow> nat" where
  "uleb_nat [] = 0"
| "uleb_nat (b # bs) = unat b mod 128 + 128 * uleb_nat bs"


function uleb_encode :: "nat \<Rightarrow> bytes" where
  "uleb_encode n =
     (if n < 128 then [of_nat n] else of_nat (n mod 128 + 128) # uleb_encode (n div 128))"
  by pat_completeness auto
termination by (relation "measure id") auto

declare uleb_encode.simps [simp del]

lemma and_80: "b AND 0x80 = 0 \<longleftrightarrow> unat b < 128" for b :: u8
proof -
  have "b AND 0x80 = 0 \<longleftrightarrow> \<not> bit b 7"
    using bit_iff_and_push_bit_not_eq_0 [of b 7] by simp
  also have "bit b 7 \<longleftrightarrow> odd (unat b div 128)"
    using bit_unsigned_iff [of b 7, where ?'a = nat] by (simp add: bit_iff_odd)
  also have "\<not> odd (unat b div 128) \<longleftrightarrow> unat b < 128"
  proof -
    have "unat b < 256" using unsigned_less [of b, where ?'a = nat] by simp
    then have "unat b div 128 < 2" by (simp add: div_less_iff_less_mult)
    moreover have "unat b < 128 \<longleftrightarrow> unat b div 128 = 0" by (simp add: div_eq_0_iff)
    ultimately show ?thesis by (cases "unat b div 128 = 0") (auto simp: less_2_cases_iff)
  qed
  finally show ?thesis .
qed

lemma and_7f: "unat (b AND 0x7f) = unat b mod 128" for b :: u8
proof -
  have "b AND 0x7f = take_bit 7 b" by (simp add: take_bit_eq_mask mask_eq_exp_minus_1)
  then have "unat (b AND 0x7f) = take_bit 7 (unat b)" by (simp only: unsigned_take_bit_eq)
  then show ?thesis by (simp add: take_bit_eq_mod)
qed

lemma or_push_bit_eq_add:
  fixes r x :: u64
  assumes "unat r < 2 ^ s"
  shows "r OR push_bit s x = r + push_bit s x"
proof -
  have "take_bit s (unat r) = unat r"
    using assms by (simp add: take_bit_nat_eq_self)
  then have "take_bit s r = r"
    by (metis unsigned_take_bit_eq unsigned_word_eqI)
  then have "\<not> bit r n \<or> \<not> bit (push_bit s x) n" for n
    by (metis bit_push_bit_iff bit_take_bit_iff not_less)
  then show ?thesis by (subst disjunctive_add_eq_or) (auto simp: bit_eq_iff bit_simps)
qed

lemma push_bit_of_nat: "push_bit s (ucast (b AND 0x7f) :: u64) = of_nat (unat b mod 128 * 2 ^ s)" for b :: u8
  by (simp add: push_bit_eq_mult flip: and_7f)

lemma uleb_step:
  "s = 7 * i \<Longrightarrow> n < 2 ^ s \<Longrightarrow> i < 10 \<Longrightarrow>
    (of_nat n :: u64) OR push_bit s (ucast (b AND 0x7f)) = of_nat (n + unat b mod 128 * 2 ^ s)" for b :: u8
  by (subst or_push_bit_eq_add) (auto simp: push_bit_of_nat unat_of_nat)

lemma uleb_loop_eq:
  "shift = 7 * i \<Longrightarrow> n < 2 ^ shift \<Longrightarrow> i < 10 \<Longrightarrow>
   uleb_loop i shift (of_nat n) bs =
     (case position (\<lambda>b. unat b < 128) bs of
        Some k \<Rightarrow> if i + k < 10
                  then Some (of_nat (n + uleb_nat (take (Suc k) bs) * 2 ^ shift), of_nat (Suc (i + k)))
                  else None
      | None \<Rightarrow> None)"
proof (induction bs arbitrary: i shift n)
  case Nil
  then show ?case by simp
next
  case (Cons b bs)
  let ?n = "n + unat b mod 128 * 2 ^ shift"
  have step: "of_nat n OR push_bit shift (ucast (b AND 0x7f)) = (of_nat ?n :: u64)"
    using Cons.prems by (rule uleb_step)
  show ?case
  proof (cases "unat b < 128")
    case True
    then show ?thesis using Cons.prems step by (simp add: and_80 Let_def del: of_nat_add of_nat_mult)
  next
    case False
    show ?thesis
    proof (cases "i < 9")
      case True
      have "?n < 2 ^ (shift + 7)"
      proof -
        have "unat b mod 128 * 2 ^ shift \<le> 127 * 2 ^ shift"
          by (rule mult_le_mono1) simp
        with Cons.prems(2) have "?n < 128 * 2 ^ shift" by linarith
        then show ?thesis by (simp add: power_add mult.commute)
      qed
      then have "uleb_loop (i + 1) (shift + 7) (of_nat ?n) bs = 
         (case position (\<lambda>b. unat b < 128) bs of
          Some k \<Rightarrow> if i + 1 + k < 10
                    then Some (of_nat (?n + uleb_nat (take (Suc k) bs) * 2 ^ (shift + 7)),
                               of_nat (Suc (i + 1 + k)))
                    else None
        | None \<Rightarrow> None)"
        using True Cons.prems by (intro Cons.IH) auto
      with True False Cons.prems(1) step show ?thesis
        by (auto simp: and_80 Let_def power_add algebra_simps split: option.split)
    next
      case ge: False
      with False Cons.prems step show ?thesis
        by (auto simp: and_80 Let_def split: option.split)
    qed
  qed
qed

lemma read_uleb128_eq:
  "read_uleb128 bs =
     (case position (\<lambda>b. unat b < 128) bs of
        Some k \<Rightarrow> if k < 10 then Some (of_nat (uleb_nat (take (Suc k) bs)), of_nat (Suc k)) else None
      | None \<Rightarrow> None)"
  unfolding read_uleb128_def using uleb_loop_eq [of 0 0 0 bs] by (simp split: option.split)

lemma uleb_encode_shape:
  "position (\<lambda>b. unat b < 128) (uleb_encode n @ rest) = Some (length (uleb_encode n) - 1) \<and>
   uleb_encode n \<noteq> [] \<and> uleb_nat (uleb_encode n) = n"
proof (induction n rule: uleb_encode.induct)
  case (1 n)
  show ?case
  proof (cases "n < 128")
    case True
    then show ?thesis by (simp add: uleb_encode.simps [of n] unat_of_nat)
  next
    case False
    then have "unat (of_nat (n mod 128 + 128) :: u8) = n mod 128 + 128"
      by (intro unat_of_nat_fits) simp
    with False 1 show ?thesis
      by (simp add: uleb_encode.simps [of n] Let_def Suc_diff_1 del: of_nat_add)
  qed
qed

lemma uleb_encode_length: "n < 128 ^ Suc k \<Longrightarrow> length (uleb_encode n) \<le> Suc k"
proof (induction k arbitrary: n)
  case 0
  then show ?case by (simp add: uleb_encode.simps)
next
  case (Suc k)
  show ?case
  proof (cases "n < 128")
    case False
    have "n div 128 < 128 ^ Suc k" using Suc.prems by (simp add: div_less_iff_less_mult mult.commute)
    with Suc.IH False show ?thesis by (simp add: uleb_encode.simps [of n])
  qed (simp add: uleb_encode.simps)
qed

lemma read_uleb128_bounds:
  assumes "read_uleb128 bs = Some (v, n)"
  shows "1 \<le> unat n \<and> unat n \<le> 10 \<and> unat n \<le> length bs"
proof -
  from assms obtain k where "k < 10" "k < length bs" "n = of_nat (Suc k)"
    by (auto simp: read_uleb128_eq split: option.splits if_splits)
  moreover from this have "unat n = Suc k"
    by (simp add: unat_of_nat_fits del: of_nat_Suc)
  ultimately show ?thesis by simp
qed

lemma read_uleb128_append:
  assumes "read_uleb128 bs = Some r"
  shows "read_uleb128 (bs @ rest) = Some r"
proof -
  have "position P xs = Some k \<Longrightarrow> position P (xs @ ys) = Some k" for P :: "u8 \<Rightarrow> bool" and xs ys k
    by (induction xs arbitrary: k) (auto split: if_splits)
  with assms show ?thesis
    by (auto simp: read_uleb128_eq split: option.splits if_splits dest!: position_less)
qed

section \<open>Properties\<close>

text \<open>The ULEB128 decoder returns a value exactly when one of the first ten bytes ends the
  number; the value is then the base-128 number that the bytes up to it spell, reduced to 64 bits,
  and the count is their length. In every other case, truncated input included, it returns
  \<open>None\<close>.\<close>

theorem uleb128_decodes:
  "read_uleb128 bs =
     (case position (\<lambda>b. unat b < 128) bs of
        Some k \<Rightarrow>
          if k < 10 then Some (of_nat (uleb_nat (take (Suc k) bs)), of_nat (Suc k)) else None
      | None \<Rightarrow> None)"
  by (rule read_uleb128_eq)

text \<open>C35: decoding inverts encoding for every 64-bit value, whatever bytes follow, and reports the
  length of the encoding.\<close>

theorem uleb128_roundtrip:
  assumes "n < 2 ^ 64"
  shows "read_uleb128 (uleb_encode n @ rest) = Some (of_nat n, of_nat (length (uleb_encode n)))"
proof -
  have "n < 128 ^ Suc 9" using assms by simp
  then have "length (uleb_encode n) \<le> 10" using uleb_encode_length [of n 9] by simp
  with uleb_encode_shape [of n rest] show ?thesis
    by (cases "uleb_encode n") (auto simp: read_uleb128_eq)
qed

theorem uleb128_roundtrip_witness:
  "(624485 :: nat) < 2 ^ 64 \<and> uleb_encode 624485 = [0xE5, 0x8E, 0x26] \<and>
   read_uleb128 ([0xE5, 0x8E, 0x26] @ [7]) = Some (624485, 3)"
proof -
  have enc: "uleb_encode 624485 = [0xE5, 0x8E, 0x26]"
    by (simp add: uleb_encode.simps)
  show ?thesis
    using uleb128_roundtrip [of 624485 "[7]"] by (simp add: enc)
qed

text \<open>A slice request succeeds exactly when the range lies inside the image, also when offset
  plus length exceeds 64 bits, and then yields precisely that range.\<close>

theorem slice_exact:
  assumes "length (c_data c) < 2 ^ 64"
  shows "slice c offset len =
     (if unat offset + unat len \<le> length (c_data c)
      then Some (take (unat len) (drop (unat offset) (c_data c))) else None)"
proof (cases "unat offset + unat len < 2 ^ 64")
  case True
  then have "unat (offset + len) = unat offset + unat len" by (simp add: unat_add_fits)
  with True show ?thesis by (simp add: slice_def checked_add_def get_range_def)
next
  case False
  with assms show ?thesis by (simp add: slice_def checked_add_def)
qed

theorem slice_exact_witness:
  "slice (with_bytes [1, 2, 3, 4] Little) 1 2 = Some [2, 3] \<and>
   slice (with_bytes [1, 2, 3, 4] Little) 3 0xFFFFFFFFFFFFFFFE = None"
  using slice_exact [of "with_bytes [1, 2, 3, 4] Little" 1 2]
    slice_exact [of "with_bytes [1, 2, 3, 4] Little" 3 "0xFFFFFFFFFFFFFFFE"]
  by (simp add: with_bytes_def)

lemma position_zero_None: "position (\<lambda>b. b = 0) xs = None \<longleftrightarrow> 0 \<notin> set xs"
  by (auto simp: position_None_iff)

lemma string_at_Ok_iff:
  "deserialize_string_at_offset c off = Ok s \<longleftrightarrow>
     (\<exists>rest. unat off \<le> length (c_data c) \<and> drop (unat off) (c_data c) = s @ 0 # rest \<and>
        0 \<notin> set s \<and> utf8_valid s)"
proof
  assume "deserialize_string_at_offset c off = Ok s"
  then obtain k where off: "unat off \<le> length (c_data c)"
    and k: "position (\<lambda>b. b = 0) (drop (unat off) (c_data c)) = Some k"
    and s: "s = take k (drop (unat off) (c_data c))" "utf8_valid s"
    by (auto simp: deserialize_string_at_offset_def Let_def split: if_splits option.splits)
  from k have "drop (unat off) (c_data c) = s @ 0 # drop (Suc k) (drop (unat off) (c_data c))"
    unfolding s(1) position_Some_iff by (metis id_take_nth_drop)
  moreover have "0 \<notin> set s"
    using k by (auto simp: s(1) position_Some_iff in_set_conv_nth)
  ultimately show "\<exists>rest. unat off \<le> length (c_data c) \<and>
      drop (unat off) (c_data c) = s @ 0 # rest \<and> 0 \<notin> set s \<and> utf8_valid s"
    using off s(2) by blast
next
  assume "\<exists>rest. unat off \<le> length (c_data c) \<and>
      drop (unat off) (c_data c) = s @ 0 # rest \<and> 0 \<notin> set s \<and> utf8_valid s"
  moreover have "position (\<lambda>b. b = 0) (s @ 0 # rest) = Some (length s)" if "0 \<notin> set s" for rest
    using that by (intro position_append_first) auto
  ultimately show "deserialize_string_at_offset c off = Ok s"
    by (auto simp: deserialize_string_at_offset_def Let_def)
qed

lemma cstr_at_eq:
  "deserialize_cstr_at_offset c off =
     (if length (c_data c) < unat off then Panic Str_Out_Of_Bounds
      else case position (\<lambda>b. b = 0) (drop (unat off) (c_data c)) of
             None \<Rightarrow> Panic Str_No_Nul
           | Some k \<Rightarrow> Ok (take (Suc k) (drop (unat off) (c_data c))))"
proof -
  have "cstr_from_bytes_with_nul (take (Suc k) bs) = Some (take (Suc k) bs)"
    if "position (\<lambda>b. b = 0) bs = Some k" for bs :: bytes and k
    using that by (auto simp: cstr_from_bytes_with_nul_def position_Some_iff)
  then show ?thesis
    by (auto simp: deserialize_cstr_at_offset_def Let_def split: option.split)
qed

text \<open>\<open>deserialize_string_at_offset\<close> returns \<open>s\<close> exactly when the image holds \<open>s\<close> followed by a
  NUL at the offset, \<open>s\<close> has no NUL and is UTF-8; it panics exactly when the offset is past the
  end, no NUL follows, or the bytes before the first NUL are not UTF-8; it never fails otherwise.\<close>

theorem string_at_offset_spec:
  "(deserialize_string_at_offset c off = Ok s \<longleftrightarrow>
      (\<exists>rest. unat off \<le> length (c_data c) \<and> drop (unat off) (c_data c) = s @ 0 # rest \<and>
         0 \<notin> set s \<and> utf8_valid s)) \<and>
   (deserialize_string_at_offset c off = Panic Str_Out_Of_Bounds \<longleftrightarrow>
      length (c_data c) < unat off) \<and>
   (deserialize_string_at_offset c off = Panic Str_No_Nul \<longleftrightarrow>
      unat off \<le> length (c_data c) \<and> 0 \<notin> set (drop (unat off) (c_data c))) \<and>
   (\<exists>t. deserialize_string_at_offset c off \<in>
      {Ok t, Panic Str_Out_Of_Bounds, Panic Str_No_Nul, Panic Str_Invalid_Utf8})"
proof (intro conjI)
  show "deserialize_string_at_offset c off = Ok s \<longleftrightarrow>
      (\<exists>rest. unat off \<le> length (c_data c) \<and> drop (unat off) (c_data c) = s @ 0 # rest \<and>
         0 \<notin> set s \<and> utf8_valid s)"
    by (rule string_at_Ok_iff)
qed (auto simp: deserialize_string_at_offset_def Let_def split: option.split
    simp flip: position_zero_None)

text \<open>The \<open>CStr\<close> reader never reaches its "invalid CStr" panic: up to the first NUL the bytes
  always form a C string, and dropping the terminator gives bytes without a NUL.\<close>

theorem cstr_at_offset_total:
  "deserialize_cstr_at_offset c off \<noteq> Panic Unwrap_Failed \<and>
   (\<forall>cs. deserialize_cstr_at_offset c off = Ok cs \<longrightarrow>
      cs = cstr_to_bytes cs @ [0] \<and> 0 \<notin> set (cstr_to_bytes cs) \<and>
      (\<exists>rest. drop (unat off) (c_data c) = cs @ rest))"
proof (intro conjI allI impI)
  show "deserialize_cstr_at_offset c off \<noteq> Panic Unwrap_Failed"
    by (simp add: cstr_at_eq split: option.split)
  fix cs assume "deserialize_cstr_at_offset c off = Ok cs"
  then obtain k where k: "position (\<lambda>b. b = 0) (drop (unat off) (c_data c)) = Some k"
    and cs: "cs = take (Suc k) (drop (unat off) (c_data c))"
    by (auto simp: cstr_at_eq split: if_splits option.splits)
  have split: "cs = take k (drop (unat off) (c_data c)) @ [0]"
    using k unfolding cs position_Some_iff by (metis take_Suc_conv_app_nth)
  then show "cs = cstr_to_bytes cs @ [0]" by (simp add: cstr_to_bytes_def)
  show "0 \<notin> set (cstr_to_bytes cs)"
    unfolding split cstr_to_bytes_def using k by (auto simp: position_Some_iff in_set_conv_nth)
  show "\<exists>rest. drop (unat off) (c_data c) = cs @ rest"
    unfolding cs by (metis append_take_drop_id)
qed

theorem cstr_at_offset_total_witness:
  "deserialize_cstr_at_offset (with_bytes [9, 72, 105, 0, 5] Little) 1 = Ok [72, 105, 0] \<and>
   [72, 105, 0] = cstr_to_bytes [72, 105, 0] @ [0]"
proof -
  have "deserialize_cstr_at_offset (with_bytes [9, 72, 105, 0, 5] Little) 1 = Ok [72, 105, 0]"
    by (simp add: cstr_at_eq with_bytes_def)
  then show ?thesis
    using cstr_at_offset_total [of "with_bytes [9, 72, 105, 0, 5] Little" 1] by blast
qed

end
