(* ===== verification/Fixed_Vec.thy ===== *)
theory Fixed_Vec
  imports Rust_Prelude
begin

text \<open>
  \<open>src/src/array.rs\<close>: vectors of fixed capacity over an array of possibly uninitialised cells, their
  consuming iterator, and fixed-capacity strings. A cell is \<open>None\<close> until it is written; reading such
  a cell, or outside the array, is undefined behaviour and has its own outcome, so that its absence
  can be proved. The locale \<open>bounded_vec\<close> is the interface the loader uses (a list that grows up to
  a capacity); it is interpreted on the code's operations.
\<close>

section \<open>Cells\<close>

type_synonym 'a cells = "'a option list"

definition cell_read :: "'a cells \<Rightarrow> usize \<Rightarrow> 'a res" where
  "cell_read arr i =
     (if unat i < length arr
      then (case arr ! unat i of None \<Rightarrow> Panic Uninit_Read | Some x \<Rightarrow> Ok x)
      else Panic Wild_Access)"

definition cell_write :: "'a cells \<Rightarrow> usize \<Rightarrow> 'a \<Rightarrow> 'a cells res" where
  "cell_write arr i x =
     (if unat i < length arr then Ok (arr[unat i := Some x]) else Panic Wild_Access)"

text \<open>\<open>core::slice::from_raw_parts(arr.as_ptr().add(lo), n)\<close> as the elements it denotes.\<close>

definition cell_slice :: "'a cells \<Rightarrow> usize \<Rightarrow> usize \<Rightarrow> 'a list res" where
  "cell_slice arr lo n =
     (if length arr < unat lo + unat n then Panic Wild_Access
      else if None \<in> set (take (unat n) (drop (unat lo) arr)) then Panic Uninit_Read
      else Ok (map the (take (unat n) (drop (unat lo) arr))))"

section \<open>FixedVec\<close>

record 'a fixed_vec =
  fv_len :: u32
  fv_array :: "'a cells"

definition fv_new :: "'a cells \<Rightarrow> 'a fixed_vec" where
  "fv_new array = \<lparr>fv_len = 0, fv_array = array\<rparr>"

definition fv_into_inner :: "'a fixed_vec \<Rightarrow> 'a cells" where
  "fv_into_inner v = fv_array v"

definition fv_new_array :: "nat \<Rightarrow> 'a fixed_vec" where
  "fv_new_array n = fv_new (replicate n None)"

definition fv_length :: "'a fixed_vec \<Rightarrow> usize" where
  "fv_length v = ucast (fv_len v)"

definition fv_capacity :: "'a fixed_vec \<Rightarrow> usize" where
  "fv_capacity v = of_nat (length (fv_array v))"

definition fv_remaining_capacity :: "bool \<Rightarrow> 'a fixed_vec \<Rightarrow> usize res" where
  "fv_remaining_capacity oc v = wsub oc (fv_capacity v) (fv_length v)"

definition fv_is_full :: "bool \<Rightarrow> 'a fixed_vec \<Rightarrow> bool res" where
  "fv_is_full oc v = rbind (fv_remaining_capacity oc v) (\<lambda>r. Ok (r = 0))"

definition fv_is_empty :: "'a fixed_vec \<Rightarrow> bool" where
  "fv_is_empty v \<longleftrightarrow> fv_length v = 0"

text \<open>\<open>Inl item\<close> hands the item back (the code's \<open>Err(item)\<close>), \<open>Inr ()\<close> is success.\<close>

definition fv_try_push :: "bool \<Rightarrow> 'a \<Rightarrow> 'a fixed_vec \<Rightarrow> (('a + unit) \<times> 'a fixed_vec) res" where
  "fv_try_push oc item v =
     rbind (fv_is_full oc v) (\<lambda>full.
       if full then Ok (Inl item, v)
       else rbind (cell_write (fv_array v) (ucast (fv_len v)) item) (\<lambda>arr.
            rbind (wadd oc (fv_len v) 1) (\<lambda>n.
            Ok (Inr (), \<lparr>fv_len = n, fv_array = arr\<rparr>))))"

definition fv_push :: "bool \<Rightarrow> 'a \<Rightarrow> 'a fixed_vec \<Rightarrow> 'a fixed_vec res" where
  "fv_push oc item v =
     rbind (fv_try_push oc item v) (\<lambda>(r, v').
       case r of Inr _ \<Rightarrow> Ok v' | Inl _ \<Rightarrow> Panic ArrayVec_Full)"

definition fv_pop :: "bool \<Rightarrow> 'a fixed_vec \<Rightarrow> ('a option \<times> 'a fixed_vec) res" where
  "fv_pop oc v =
     (if fv_is_empty v then Ok (None, v)
      else rbind (wsub oc (fv_len v) 1) (\<lambda>n.
           rbind (cell_read (fv_array v) (ucast n)) (\<lambda>x.
           Ok (Some x, v\<lparr>fv_len := n\<rparr>))))"

lemma fv_pop_Some_shrinks:
  assumes "fv_pop oc v = Ok (Some x, v')"
  shows "unat (fv_len v') < unat (fv_len v)"
proof -
  from assms have v': "v' = v\<lparr>fv_len := fv_len v - 1\<rparr>" and "fv_len v \<noteq> 0"
    by (auto simp: fv_pop_def fv_is_empty_def fv_length_def res_simps split: if_splits)
  then show ?thesis by (simp add: unat_pred unat_gt_0)
qed

function fv_clear :: "bool \<Rightarrow> 'a fixed_vec \<Rightarrow> 'a fixed_vec res" where
  "fv_clear oc v =
     rbind (fv_pop oc v) (\<lambda>r. case fst r of None \<Rightarrow> Ok (snd r) | Some x \<Rightarrow> fv_clear oc (snd r))"
  by pat_completeness auto
termination
  by (relation "measure (\<lambda>(oc, v). unat (fv_len v))") (auto dest: fv_pop_Some_shrinks)

declare fv_clear.simps [simp del]

definition fv_deref :: "'a fixed_vec \<Rightarrow> 'a list res" where
  "fv_deref v = cell_slice (fv_array v) 0 (ucast (fv_len v))"

fun fv_extend :: "bool \<Rightarrow> 'a list \<Rightarrow> 'a fixed_vec \<Rightarrow> 'a fixed_vec res" where
  "fv_extend oc [] v = Ok v"
| "fv_extend oc (x # xs) v = rbind (fv_push oc x v) (fv_extend oc xs)"

text \<open>Dropping the vector drops, in order, the elements of the slice it dereferences to.\<close>

definition fv_drop :: "'a fixed_vec \<Rightarrow> 'a list res" where
  "fv_drop v = fv_deref v"

section \<open>IntoIter\<close>

record 'a into_iter =
  it_index :: usize
  it_len :: usize
  it_array :: "'a cells"

definition fv_into_iter :: "'a fixed_vec \<Rightarrow> 'a into_iter" where
  "fv_into_iter v = \<lparr>it_index = 0, it_len = ucast (fv_len v), it_array = fv_into_inner v\<rparr>"

definition it_next :: "bool \<Rightarrow> 'a into_iter \<Rightarrow> ('a option \<times> 'a into_iter) res" where
  "it_next oc it =
     (if it_index it = it_len it then Ok (None, it)
      else rbind (wadd oc (it_index it) 1) (\<lambda>i.
           rbind (cell_read (it_array it) (it_index it)) (\<lambda>x.
           Ok (Some x, it\<lparr>it_index := i\<rparr>))))"

definition it_next_back :: "bool \<Rightarrow> 'a into_iter \<Rightarrow> ('a option \<times> 'a into_iter) res" where
  "it_next_back oc it =
     (if it_index it = it_len it then Ok (None, it)
      else rbind (wsub oc (it_len it) 1) (\<lambda>n.
           rbind (cell_read (it_array it) n) (\<lambda>x.
           Ok (Some x, it\<lparr>it_len := n\<rparr>))))"

definition it_length :: "bool \<Rightarrow> 'a into_iter \<Rightarrow> usize res" where
  "it_length oc it = wsub oc (it_len it) (it_index it)"

definition it_size_hint :: "bool \<Rightarrow> 'a into_iter \<Rightarrow> (usize \<times> usize option) res" where
  "it_size_hint oc it = rbind (wsub oc (it_len it) (it_index it)) (\<lambda>r. Ok (r, Some r))"

definition it_drop :: "bool \<Rightarrow> 'a into_iter \<Rightarrow> 'a list res" where
  "it_drop oc it =
     rbind (wsub oc (it_len it) (it_index it)) (\<lambda>n. cell_slice (it_array it) (it_index it) n)"

section \<open>FixedString\<close>

record fixed_string =
  fs_vec :: "u8 fixed_vec"

definition fs_new :: "nat \<Rightarrow> fixed_string" where
  "fs_new n = \<lparr>fs_vec = fv_new_array n\<rparr>"

definition fs_remaining_capacity :: "bool \<Rightarrow> fixed_string \<Rightarrow> usize res" where
  "fs_remaining_capacity oc s = fv_remaining_capacity oc (fs_vec s)"

definition fs_as_str :: "fixed_string \<Rightarrow> bytes res" where
  "fs_as_str s = fv_deref (fs_vec s)"

fun fs_push_bytes :: "bool \<Rightarrow> bytes \<Rightarrow> u8 fixed_vec \<Rightarrow> u8 fixed_vec res" where
  "fs_push_bytes oc [] v = Ok v"
| "fs_push_bytes oc (b # bs) v =
     rbind (fv_try_push oc b v) (\<lambda>(_, v'). fs_push_bytes oc bs v')"

definition fs_try_push_str :: "bool \<Rightarrow> bytes \<Rightarrow> fixed_string \<Rightarrow> (bool \<times> fixed_string) res" where
  "fs_try_push_str oc str s =
     rbind (fs_remaining_capacity oc s) (\<lambda>r.
       if unat r < length str then Ok (False, s)
       else rbind (fs_push_bytes oc str (fs_vec s)) (\<lambda>v. Ok (True, \<lparr>fs_vec = v\<rparr>)))"

definition fs_try_from_str :: "bool \<Rightarrow> nat \<Rightarrow> bytes \<Rightarrow> fixed_string option res" where
  "fs_try_from_str oc n str =
     rbind (fs_try_push_str oc str (fs_new n)) (\<lambda>(ok, this).
       Ok (if ok then Some this else None))"

section \<open>Invariant and contents\<close>

definition fv_inv :: "'a fixed_vec \<Rightarrow> bool" where
  "fv_inv v \<longleftrightarrow> unat (fv_len v) \<le> length (fv_array v) \<and> length (fv_array v) < 2 ^ 32 \<and>
     None \<notin> set (take (unat (fv_len v)) (fv_array v))"

definition fv_list :: "'a fixed_vec \<Rightarrow> 'a list" where
  "fv_list v = map the (take (unat (fv_len v)) (fv_array v))"

definition fv_cap :: "'a fixed_vec \<Rightarrow> nat" where
  "fv_cap v = length (fv_array v)"

lemma length_fv_list: "fv_inv v \<Longrightarrow> length (fv_list v) = unat (fv_len v)"
  by (simp add: fv_list_def fv_inv_def)

lemma fv_list_le_cap: "fv_inv v \<Longrightarrow> length (fv_list v) \<le> fv_cap v"
  by (simp add: length_fv_list fv_cap_def) (simp add: fv_inv_def)

lemma fv_new_array_inv: "n < 2 ^ 32 \<Longrightarrow> fv_inv (fv_new_array n)"
  by (simp add: fv_inv_def fv_new_array_def fv_new_def)

lemma fv_new_array_list [simp]: "fv_list (fv_new_array n) = []" "fv_cap (fv_new_array n) = n"
  by (simp_all add: fv_list_def fv_cap_def fv_new_array_def fv_new_def)

lemma unat_fv_capacity: "fv_inv v \<Longrightarrow> unat (fv_capacity v) = fv_cap v"
  by (simp add: fv_capacity_def fv_cap_def fv_inv_def unat_of_nat_fits)

lemma fv_remaining:
  assumes "fv_inv v"
  shows "\<exists>r. fv_remaining_capacity oc v = Ok r \<and> unat r = fv_cap v - length (fv_list v)"
proof -
  have le: "unat (fv_length v) \<le> unat (fv_capacity v)"
    using assms fv_list_le_cap [OF assms]
    by (simp add: unat_fv_capacity fv_length_def length_fv_list)
  then have "unat (fv_capacity v - fv_length v) = fv_cap v - length (fv_list v)"
    using assms unat_fv_capacity [OF assms]
    by (simp only: unat_sub_fits) (simp add: fv_length_def length_fv_list)
  with le show ?thesis by (simp add: fv_remaining_capacity_def)
qed

lemma fv_is_full_eq:
  assumes "fv_inv v"
  shows "fv_is_full oc v = Ok (length (fv_list v) = fv_cap v)"
proof -
  obtain r where r: "fv_remaining_capacity oc v = Ok r" "unat r = fv_cap v - length (fv_list v)"
    using fv_remaining [OF assms] by blast
  have "r = 0 \<longleftrightarrow> length (fv_list v) = fv_cap v"
    using r(2) fv_list_le_cap [OF assms] unat_eq_zero [of r] by auto
  with r(1) show ?thesis by (simp add: fv_is_full_def)
qed

lemma fv_is_empty_eq: "fv_inv v \<Longrightarrow> fv_is_empty v \<longleftrightarrow> fv_list v = []"
  by (auto simp: fv_is_empty_def fv_length_def unat_eq_zero fv_inv_def fv_list_def
      simp flip: unat_eq_zero)

lemma fv_try_push_full:
  "fv_inv v \<Longrightarrow> length (fv_list v) = fv_cap v \<Longrightarrow> fv_try_push oc x v = Ok (Inl x, v)"
  by (simp add: fv_try_push_def fv_is_full_eq)

lemma fv_try_push_room:
  assumes inv: "fv_inv v" and room: "length (fv_list v) < fv_cap v"
  shows "\<exists>v'. fv_try_push oc x v = Ok (Inr (), v') \<and> fv_inv v' \<and>
     fv_list v' = fv_list v @ [x] \<and> fv_cap v' = fv_cap v"
proof -
  let ?n = "unat (fv_len v)" and ?arr = "fv_array v"
  let ?v' = "\<lparr>fv_len = fv_len v + 1, fv_array = ?arr[?n := Some x]\<rparr>"
  have n: "?n < length ?arr" "length ?arr < 2 ^ 32"
    using inv room by (auto simp: length_fv_list fv_cap_def fv_inv_def)
  then have Suc: "unat (fv_len v + 1) = Suc ?n" by (simp add: unat_add_fits)
  have take: "take (Suc ?n) (?arr[?n := Some x]) = take ?n ?arr @ [Some x]"
    using n by (simp add: take_Suc_conv_app_nth)
  have push: "fv_try_push oc x v = Ok (Inr (), ?v')"
    using n room inv by (simp add: fv_try_push_def fv_is_full_eq cell_write_def)
  moreover have "fv_inv ?v'"
    using inv n Suc take by (simp add: fv_inv_def)
  moreover have "fv_list ?v' = fv_list v @ [x]"
    using Suc take by (simp add: fv_list_def)
  ultimately show ?thesis by (auto simp: fv_cap_def)
qed

lemma fv_push_eq:
  assumes "fv_inv v"
  shows "if length (fv_list v) < fv_cap v
     then \<exists>v'. fv_push oc x v = Ok v' \<and> fv_inv v' \<and> fv_list v' = fv_list v @ [x] \<and> fv_cap v' = fv_cap v
     else fv_push oc x v = Panic ArrayVec_Full"
  using fv_try_push_room [OF assms, of oc x] fv_try_push_full [OF assms, of oc x]
    fv_list_le_cap [OF assms]
  by (auto simp: fv_push_def)

lemma fv_pop_empty: "fv_inv v \<Longrightarrow> fv_list v = [] \<Longrightarrow> fv_pop oc v = Ok (None, v)"
  by (simp add: fv_pop_def fv_is_empty_eq)

lemma fv_pop_nonempty:
  assumes inv: "fv_inv v" and "fv_list v \<noteq> []"
  shows "\<exists>v'. fv_pop oc v = Ok (Some (last (fv_list v)), v') \<and> fv_inv v' \<and>
     fv_list v' = butlast (fv_list v) \<and> fv_cap v' = fv_cap v"
proof -
  let ?arr = "fv_array v" and ?v' = "v\<lparr>fv_len := fv_len v - 1\<rparr>"
  obtain m where m: "unat (fv_len v) = Suc m"
    using assms by (cases "unat (fv_len v)") (auto simp: length_fv_list [symmetric])
  then have len: "unat (fv_len v - 1) = m"
    by (subst unat_pred) auto
  from inv m have bound: "m < length ?arr" and init: "None \<notin> set (take (Suc m) ?arr)"
    by (auto simp: fv_inv_def)
  then obtain x where x: "?arr ! m = Some x"
    by (cases "?arr ! m") (auto simp: take_Suc_conv_app_nth)
  have list: "fv_list v = map the (take m ?arr) @ [x]"
    using bound m x by (simp add: fv_list_def take_Suc_conv_app_nth)
  have "fv_pop oc v = Ok (Some x, ?v')"
    using assms m len bound x by (simp add: fv_pop_def fv_is_empty_eq cell_read_def)
  moreover have "fv_inv ?v'" "fv_list ?v' = butlast (fv_list v)"
    using inv len bound init list
    by (auto simp: fv_inv_def fv_list_def take_Suc_conv_app_nth)
  ultimately show ?thesis using list by (auto simp: fv_cap_def)
qed

lemma fv_deref_eq: "fv_inv v \<Longrightarrow> fv_deref v = Ok (fv_list v)"
  by (simp add: fv_deref_def cell_slice_def fv_inv_def fv_list_def)

section \<open>The bounded vector as an interface\<close>

text \<open>
  A vector that holds at most \<open>cap\<close> items: what the loader relies on when it fills its tables. The
  two loops of the code (\<open>extend\<close> and \<open>clear\<close>) are known to the interface only by their unfolding.
\<close>

locale bounded_vec =
  fixes inv :: "'v \<Rightarrow> bool"
    and items :: "'v \<Rightarrow> 'a list"
    and cap :: "'v \<Rightarrow> nat"
    and push :: "'a \<Rightarrow> 'v \<Rightarrow> 'v res"
    and pop :: "'v \<Rightarrow> ('a option \<times> 'v) res"
    and extend :: "'a list \<Rightarrow> 'v \<Rightarrow> 'v res"
    and clear :: "'v \<Rightarrow> 'v res"
  assumes items_le_cap: "inv v \<Longrightarrow> length (items v) \<le> cap v"
    and push_room: "inv v \<Longrightarrow> length (items v) < cap v \<Longrightarrow>
      \<exists>v'. push x v = Ok v' \<and> inv v' \<and> items v' = items v @ [x] \<and> cap v' = cap v"
    and push_full: "inv v \<Longrightarrow> length (items v) = cap v \<Longrightarrow> push x v = Panic ArrayVec_Full"
    and pop_empty: "inv v \<Longrightarrow> items v = [] \<Longrightarrow> pop v = Ok (None, v)"
    and pop_last: "inv v \<Longrightarrow> items v \<noteq> [] \<Longrightarrow>
      \<exists>v'. pop v = Ok (Some (last (items v)), v') \<and> inv v' \<and> items v' = butlast (items v) \<and>
        cap v' = cap v"
    and extend_Nil: "extend [] v = Ok v"
    and extend_Cons: "extend (x # xs) v = rbind (push x v) (extend xs)"
    and clear_unfold: "clear v = rbind (pop v) (\<lambda>r. case fst r of
      None \<Rightarrow> Ok (snd r) | Some x \<Rightarrow> clear (snd r))"
begin

lemma extend_room:
  "inv v \<Longrightarrow> length (items v) + length xs \<le> cap v \<Longrightarrow>
     \<exists>v'. extend xs v = Ok v' \<and> inv v' \<and> items v' = items v @ xs \<and> cap v' = cap v"
proof (induction xs arbitrary: v)
  case Nil
  then show ?case by (simp add: extend_Nil)
next
  case (Cons x xs)
  then obtain w where w: "push x v = Ok w" "inv w" "items w = items v @ [x]" "cap w = cap v"
    using push_room [of v x] by auto
  with Cons.prems Cons.IH [of w] show ?case by (auto simp: extend_Cons)
qed

lemma extend_overflow:
  "inv v \<Longrightarrow> cap v < length (items v) + length xs \<Longrightarrow> extend xs v = Panic ArrayVec_Full"
proof (induction xs arbitrary: v)
  case Nil
  then show ?case using items_le_cap [of v] by simp
next
  case (Cons x xs)
  show ?case
  proof (cases "length (items v) = cap v")
    case True
    with Cons.prems show ?thesis by (simp add: extend_Cons push_full)
  next
    case False
    with Cons.prems items_le_cap [of v] obtain w
      where "push x v = Ok w" "inv w" "items w = items v @ [x]" "cap w = cap v"
      using push_room [of v x] by auto
    with Cons.prems Cons.IH [of w] show ?thesis by (simp add: extend_Cons)
  qed
qed

lemma clear_empties:
  "inv v \<Longrightarrow> \<exists>v'. clear v = Ok v' \<and> inv v' \<and> items v' = [] \<and> cap v' = cap v"
proof (induction "length (items v)" arbitrary: v)
  case 0
  then show ?case by (subst clear_unfold) (simp add: pop_empty)
next
  case (Suc n)
  then obtain w where w: "pop v = Ok (Some (last (items v)), w)" "inv w"
    "items w = butlast (items v)" "cap w = cap v"
    using pop_last [of v] by (cases "items v = []") auto
  with Suc have "\<exists>v'. clear w = Ok v' \<and> inv v' \<and> items v' = [] \<and> cap v' = cap w"
    by (metis diff_Suc_1 length_butlast)
  with w show ?case by (subst clear_unfold) auto
qed

lemma push_pop:
  "inv v \<Longrightarrow> length (items v) < cap v \<Longrightarrow>
     \<exists>v' v''. push x v = Ok v' \<and> pop v' = Ok (Some x, v'') \<and> inv v'' \<and> items v'' = items v \<and>
       cap v'' = cap v"
  using push_room [of v x] pop_last by fastforce

end

interpretation fv: bounded_vec fv_inv fv_list fv_cap "fv_push oc" "fv_pop oc" "fv_extend oc"
  "fv_clear oc" for oc
proof
  fix v :: "'a fixed_vec" and x
  assume inv: "fv_inv v"
  show "length (fv_list v) \<le> fv_cap v" by (rule fv_list_le_cap [OF inv])
  show "length (fv_list v) < fv_cap v \<Longrightarrow> \<exists>v'. fv_push oc x v = Ok v' \<and> fv_inv v' \<and>
      fv_list v' = fv_list v @ [x] \<and> fv_cap v' = fv_cap v"
    using fv_push_eq [OF inv, of oc x] by simp
  show "length (fv_list v) = fv_cap v \<Longrightarrow> fv_push oc x v = Panic ArrayVec_Full"
    using fv_push_eq [OF inv, of oc x] by simp
  show "fv_list v = [] \<Longrightarrow> fv_pop oc v = Ok (None, v)" by (rule fv_pop_empty [OF inv])
  show "fv_list v \<noteq> [] \<Longrightarrow> \<exists>v'. fv_pop oc v = Ok (Some (last (fv_list v)), v') \<and> fv_inv v' \<and>
      fv_list v' = butlast (fv_list v) \<and> fv_cap v' = fv_cap v"
    by (rule fv_pop_nonempty [OF inv])
next
  show "fv_clear oc v = rbind (fv_pop oc v) (\<lambda>r. case fst r of
      None \<Rightarrow> Ok (snd r) | Some x \<Rightarrow> fv_clear oc (snd r))" for v :: "'a fixed_vec"
    by (rule fv_clear.simps)
qed simp_all

section \<open>The consuming iterator\<close>

definition it_inv :: "'a into_iter \<Rightarrow> bool" where
  "it_inv it \<longleftrightarrow> unat (it_index it) \<le> unat (it_len it) \<and> unat (it_len it) \<le> length (it_array it) \<and>
     None \<notin> set (take (unat (it_len it) - unat (it_index it)) (drop (unat (it_index it)) (it_array it)))"

definition it_list :: "'a into_iter \<Rightarrow> 'a list" where
  "it_list it = map the (take (unat (it_len it) - unat (it_index it))
     (drop (unat (it_index it)) (it_array it)))"

lemma it_list_Nil_iff: "it_inv it \<Longrightarrow> it_list it = [] \<longleftrightarrow> it_index it = it_len it"
  by (auto simp: it_list_def it_inv_def word_unat_eq_iff)

lemma fv_into_iter_inv:
  "fv_inv v \<Longrightarrow> it_inv (fv_into_iter v) \<and> it_list (fv_into_iter v) = fv_list v"
  by (simp add: it_inv_def fv_inv_def fv_into_iter_def fv_into_inner_def it_list_def fv_list_def)

lemma it_next_end:
  "it_inv it \<Longrightarrow> it_list it = [] \<Longrightarrow>
     it_next oc it = Ok (None, it) \<and> it_next_back oc it = Ok (None, it)"
  by (simp add: it_next_def it_next_back_def it_list_Nil_iff)

lemma it_next_Cons:
  assumes inv: "it_inv it" and list: "it_list it = x # xs"
  shows "\<exists>it'. it_next oc it = Ok (Some x, it') \<and> it_inv it' \<and> it_list it' = xs"
proof -
  let ?i = "unat (it_index it)" and ?n = "unat (it_len it)" and ?arr = "it_array it"
  let ?it' = "it\<lparr>it_index := it_index it + 1\<rparr>"
  have ne: "it_index it \<noteq> it_len it" using inv list it_list_Nil_iff by force
  then have lt: "?i < ?n" "?n \<le> length ?arr"
    using inv by (auto simp: it_inv_def word_unat_eq_iff)
  moreover have "?n < 2 ^ 64" using unsigned_less [of "it_len it", where ?'a = nat] by simp
  ultimately have Suc: "unat (it_index it + 1) = Suc ?i" by (simp add: unat_add_fits)
  have split: "take (?n - ?i) (drop ?i ?arr) = ?arr ! ?i # take (?n - Suc ?i) (drop (Suc ?i) ?arr)"
    using lt by (simp add: Cons_nth_drop_Suc [symmetric] take_Cons' )
  with inv list have x: "?arr ! ?i = Some x"
    by (cases "?arr ! ?i") (auto simp: it_inv_def it_list_def)
  have "it_next oc it = Ok (Some x, ?it')"
    using ne lt x Suc \<open>?n < 2 ^ 64\<close> by (simp add: it_next_def cell_read_def)
  moreover have "it_inv ?it'" "it_list ?it' = xs"
    using inv list split lt Suc by (simp_all add: it_inv_def it_list_def)
  ultimately show ?thesis by blast
qed

lemma it_next_back_snoc:
  assumes inv: "it_inv it" and list: "it_list it = xs @ [x]"
  shows "\<exists>it'. it_next_back oc it = Ok (Some x, it') \<and> it_inv it' \<and> it_list it' = xs"
proof -
  let ?i = "unat (it_index it)" and ?n = "unat (it_len it)" and ?arr = "it_array it"
  let ?it' = "it\<lparr>it_len := it_len it - 1\<rparr>"
  have ne: "it_index it \<noteq> it_len it" using inv list it_list_Nil_iff by force
  then obtain m where m: "?n = Suc m" "?i \<le> m" "m < length ?arr"
    using inv by (cases ?n) (auto simp: it_inv_def word_unat_eq_iff)
  then have len: "unat (it_len it - 1) = m" by (subst unat_pred) auto
  have split: "take (?n - ?i) (drop ?i ?arr) = take (m - ?i) (drop ?i ?arr) @ [?arr ! m]"
    using m by (simp add: Suc_diff_le take_Suc_conv_app_nth)
  with inv list have x: "?arr ! m = Some x"
    by (cases "?arr ! m") (auto simp: it_inv_def it_list_def)
  have "it_next_back oc it = Ok (Some x, ?it')"
    using ne m x len by (simp add: it_next_back_def cell_read_def)
  moreover have "it_inv ?it'" "it_list ?it' = xs"
    using inv list split m len by (simp_all add: it_inv_def it_list_def)
  ultimately show ?thesis by blast
qed

lemma it_drop_eq: "it_inv it \<Longrightarrow> it_drop oc it = Ok (it_list it)"
  by (simp add: it_drop_def it_inv_def it_list_def cell_slice_def unat_sub_fits)

text \<open>A client that calls \<open>next\<close> (\<open>True\<close>) and \<open>next_back\<close> (\<open>False\<close>) in any order and then drops the
  iterator; the result lists what came from the front, from the back, and what the drop released.\<close>

fun it_run :: "bool \<Rightarrow> bool list \<Rightarrow> 'a into_iter \<Rightarrow> ('a list \<times> 'a list \<times> 'a list) res" where
  "it_run oc [] it = rbind (it_drop oc it) (\<lambda>d. Ok ([], [], d))"
| "it_run oc (front # ops) it =
     rbind (if front then it_next oc it else it_next_back oc it) (\<lambda>(x, it').
     rbind (it_run oc ops it') (\<lambda>(fs, bs, d).
       case x of None \<Rightarrow> Ok (fs, bs, d)
       | Some y \<Rightarrow> Ok (if front then y # fs else fs, if front then bs else y # bs, d)))"

lemma it_run_partitions:
  "it_inv it \<Longrightarrow>
     \<exists>fs bs d. it_run oc ops it = Ok (fs, bs, d) \<and> fs @ d @ rev bs = it_list it"
proof (induction ops arbitrary: it)
  case Nil
  then show ?case by (simp add: it_drop_eq)
next
  case (Cons front ops)
  show ?case
  proof (cases "it_list it = []")
    case True
    with Cons show ?thesis using it_next_end [of it oc] by fastforce
  next
    case False
    then obtain x xs y ys where *: "it_list it = x # xs" "it_list it = ys @ [y]"
      by (metis list.exhaust rev_exhaust)
    obtain a where a: "it_next oc it = Ok (Some x, a)" "it_inv a" "it_list a = xs"
      using it_next_Cons [OF Cons.prems *(1)] by blast
    obtain b where b: "it_next_back oc it = Ok (Some y, b)" "it_inv b" "it_list b = ys"
      using it_next_back_snoc [OF Cons.prems *(2)] by blast
    obtain fa ba da where ra: "it_run oc ops a = Ok (fa, ba, da)" "fa @ da @ rev ba = xs"
      using Cons.IH [OF a(2)] a(3) by blast
    obtain fb bb db where rb: "it_run oc ops b = Ok (fb, bb, db)" "fb @ db @ rev bb = ys"
      using Cons.IH [OF b(2)] b(3) by blast
    show ?thesis
    proof (cases front)
      case True
      then show ?thesis using a ra *(1) by simp
    next
      case False
      then show ?thesis using b rb *(2) by (simp flip: append_assoc)
    qed
  qed
qed

section \<open>Strings\<close>

lemma fs_push_bytes_room:
  "fv_inv v \<Longrightarrow> length (fv_list v) + length bs \<le> fv_cap v \<Longrightarrow>
     \<exists>v'. fs_push_bytes oc bs v = Ok v' \<and> fv_inv v' \<and> fv_list v' = fv_list v @ bs \<and>
       fv_cap v' = fv_cap v"
proof (induction bs arbitrary: v)
  case Nil
  then show ?case by simp
next
  case (Cons b bs)
  then obtain w where "fv_try_push oc b v = Ok (Inr (), w)" "fv_inv w"
    "fv_list w = fv_list v @ [b]" "fv_cap w = fv_cap v"
    using fv_try_push_room [of v oc b] by auto
  with Cons.prems Cons.IH [of w] show ?case by auto
qed

lemma fs_try_push_str_eq:
  assumes "fv_inv (fs_vec s)"
  shows "if length (fv_list (fs_vec s)) + length str \<le> fv_cap (fs_vec s)
     then \<exists>s'. fs_try_push_str oc str s = Ok (True, s') \<and> fv_inv (fs_vec s') \<and>
            fv_list (fs_vec s') = fv_list (fs_vec s) @ str \<and> fv_cap (fs_vec s') = fv_cap (fs_vec s)
     else fs_try_push_str oc str s = Ok (False, s)"
proof -
  obtain r where r: "fs_remaining_capacity oc s = Ok r"
    "unat r = fv_cap (fs_vec s) - length (fv_list (fs_vec s))"
    using fv_remaining [OF assms, of oc] by (auto simp: fs_remaining_capacity_def)
  show ?thesis
    using r fs_push_bytes_room [OF assms, of str oc] fv_list_le_cap [OF assms]
    by (auto simp: fs_try_push_str_def)
qed

section \<open>Programs over a vector\<close>

text \<open>
  Any sequence of calls on one vector, run on the code's vector (\<open>vec_run\<close>) and on its
  specification, a list with a capacity (\<open>list_run\<close>).
\<close>

datatype 'a vec_op = Push 'a | Try_Push 'a | Pop | Clear | Extend "'a list" | Deref

datatype 'a vec_out = Done | Rejected 'a | Popped "'a option" | Contents "'a list"

fun vec_step :: "bool \<Rightarrow> 'a vec_op \<Rightarrow> 'a fixed_vec \<Rightarrow> ('a vec_out \<times> 'a fixed_vec) res" where
  "vec_step oc (Push x) v = rbind (fv_push oc x v) (\<lambda>v'. Ok (Done, v'))"
| "vec_step oc (Try_Push x) v = rbind (fv_try_push oc x v) (\<lambda>(r, v').
     Ok (case r of Inl y \<Rightarrow> Rejected y | Inr _ \<Rightarrow> Done, v'))"
| "vec_step oc Pop v = rbind (fv_pop oc v) (\<lambda>(r, v'). Ok (Popped r, v'))"
| "vec_step oc Clear v = rbind (fv_clear oc v) (\<lambda>v'. Ok (Done, v'))"
| "vec_step oc (Extend xs) v = rbind (fv_extend oc xs v) (\<lambda>v'. Ok (Done, v'))"
| "vec_step oc Deref v = rbind (fv_deref v) (\<lambda>xs. Ok (Contents xs, v))"

fun list_step :: "nat \<Rightarrow> 'a vec_op \<Rightarrow> 'a list \<Rightarrow> ('a vec_out \<times> 'a list) res" where
  "list_step n (Push x) xs = (if length xs < n then Ok (Done, xs @ [x]) else Panic ArrayVec_Full)"
| "list_step n (Try_Push x) xs = Ok (if length xs < n then (Done, xs @ [x]) else (Rejected x, xs))"
| "list_step n Pop xs = Ok (if xs = [] then (Popped None, []) else (Popped (Some (last xs)), butlast xs))"
| "list_step n Clear xs = Ok (Done, [])"
| "list_step n (Extend ys) xs =
     (if length xs + length ys \<le> n then Ok (Done, xs @ ys) else Panic ArrayVec_Full)"
| "list_step n Deref xs = Ok (Contents xs, xs)"

fun vec_run :: "bool \<Rightarrow> 'a vec_op list \<Rightarrow> 'a fixed_vec \<Rightarrow> ('a vec_out list \<times> 'a fixed_vec) res" where
  "vec_run oc [] v = Ok ([], v)"
| "vec_run oc (op # ops) v =
     rbind (vec_step oc op v) (\<lambda>(out, v').
     rbind (vec_run oc ops v') (\<lambda>(outs, v''). Ok (out # outs, v'')))"

fun list_run :: "nat \<Rightarrow> 'a vec_op list \<Rightarrow> 'a list \<Rightarrow> ('a vec_out list \<times> 'a list) res" where
  "list_run n [] xs = Ok ([], xs)"
| "list_run n (op # ops) xs =
     rbind (list_step n op xs) (\<lambda>(out, xs').
     rbind (list_run n ops xs') (\<lambda>(outs, xs''). Ok (out # outs, xs'')))"

definition vec_sim :: "nat \<Rightarrow> ('o \<times> 'a fixed_vec) res \<Rightarrow> ('o \<times> 'a list) res \<Rightarrow> bool" where
  "vec_sim n c a \<longleftrightarrow> (case a of
     Ok (out, xs) \<Rightarrow> \<exists>v. c = Ok (out, v) \<and> fv_inv v \<and> fv_list v = xs \<and> fv_cap v = n
   | Err e \<Rightarrow> c = Err e | Panic p \<Rightarrow> c = Panic p | Diverge \<Rightarrow> c = Diverge)"

lemma vec_step_sim:
  assumes "fv_inv v" "fv_cap v = n"
  shows "vec_sim n (vec_step oc op v) (list_step n op (fv_list v))"
proof (cases op)
  case (Push x)
  then show ?thesis using assms fv_push_eq [of v oc x] by (auto simp: vec_sim_def)
next
  case (Try_Push x)
  then show ?thesis
    using assms fv_try_push_room [of v oc x] fv_try_push_full [of v oc x] fv_list_le_cap [of v]
    by (auto simp: vec_sim_def)
next
  case Pop
  then show ?thesis using assms fv_pop_empty [of v oc] fv_pop_nonempty [of v oc]
    by (auto simp: vec_sim_def)
next
  case Clear
  then show ?thesis using assms fv.clear_empties [of v oc] by (auto simp: vec_sim_def)
next
  case (Extend xs)
  then show ?thesis using assms fv.extend_room [of v xs oc] fv.extend_overflow [of v xs oc]
    by (auto simp: vec_sim_def)
next
  case Deref
  then show ?thesis using assms fv_deref_eq [of v] by (simp add: vec_sim_def)
qed

lemma vec_run_sim:
  "fv_inv v \<Longrightarrow> fv_cap v = n \<Longrightarrow> vec_sim n (vec_run oc ops v) (list_run n ops (fv_list v))"
proof (induction ops arbitrary: v)
  case Nil
  then show ?case by (simp add: vec_sim_def)
next
  case (Cons op ops)
  note step = vec_step_sim [OF Cons.prems, of oc op]
  show ?case
  proof (cases "list_step n op (fv_list v)")
    case (Ok r)
    then obtain out xs where r: "list_step n op (fv_list v) = Ok (out, xs)" by (cases r) auto
    with step obtain w where w: "vec_step oc op v = Ok (out, w)" "fv_inv w" "fv_list w = xs"
      "fv_cap w = n"
      by (auto simp: vec_sim_def)
    then have "vec_sim n (vec_run oc ops w) (list_run n ops xs)" using Cons.IH by blast
    with r w(1) show ?thesis by (auto simp: vec_sim_def split: res.splits prod.splits)
  qed (use step in \<open>simp_all add: vec_sim_def\<close>)
qed

section \<open>Properties\<close>

text \<open>C2: a fixed-capacity vector refines a list with a capacity. For every sequence of calls on a
  new vector (push, \<open>try_push\<close>, pop, clear, extend, reading the slice) the outputs are those of the
  list, the invariant holds at the end, and the run panics exactly when the list would exceed the
  capacity: no overflow, no read of an uninitialised cell and no access outside the array can
  happen, in either build profile.\<close>

theorem fixed_vec_refines_list:
  assumes "n < 2 ^ 32"
  shows "case list_run n ops [] of
      Ok (outs, xs) \<Rightarrow>
        \<exists>v. vec_run oc ops (fv_new_array n) = Ok (outs, v) \<and> fv_inv v \<and> fv_list v = xs \<and>
            fv_cap v = n
    | Err e \<Rightarrow> False
    | Panic p \<Rightarrow> vec_run oc ops (fv_new_array n) = Panic p \<and> p = ArrayVec_Full
    | Diverge \<Rightarrow> False"
proof -
  have step: "list_step n op xs \<noteq> Err e" "list_step n op xs \<noteq> Diverge"
    "list_step n op xs = Panic p \<Longrightarrow> p = ArrayVec_Full" for op :: "'a vec_op" and xs e p
    by (cases op; simp split: if_splits)+
  have run: "(list_run n ops xs \<noteq> Err e) \<and> (list_run n ops xs \<noteq> Diverge) \<and>
    (list_run n ops xs = Panic p \<longrightarrow> p = ArrayVec_Full)" for ops :: "'a vec_op list" and xs e p
    by (induction ops arbitrary: xs) (auto simp: res_simps step)
  have "vec_sim n (vec_run oc ops (fv_new_array n)) (list_run n ops [])"
    using vec_run_sim [of "fv_new_array n" n oc ops] assms by (simp add: fv_new_array_inv)
  with run [of ops "[]"] show ?thesis
    by (auto simp: vec_sim_def split: res.splits prod.splits)
qed

theorem fixed_vec_refines_list_witness:
  "(2::nat) < 2 ^ 32 \<and>
   (\<exists>v. vec_run True [Push (7::nat), Try_Push 8, Try_Push 9, Pop, Deref] (fv_new_array 2) =
      Ok ([Done, Done, Rejected 9, Popped (Some 8), Contents [7]], v) \<and> fv_inv v \<and>
      fv_list v = [7] \<and> fv_cap v = 2) \<and>
   vec_run True [Extend [1, 2, 3 :: nat]] (fv_new_array 2) = Panic ArrayVec_Full"
  using fixed_vec_refines_list [of 2 True "[Push (7::nat), Try_Push 8, Try_Push 9, Pop, Deref]"]
    fixed_vec_refines_list [of 2 True "[Extend [1, 2, 3 :: nat]]"]
  by simp

text \<open>Consuming a vector yields each element exactly once. However a client interleaves \<open>next\<close>
  and \<open>next_back\<close> and whenever it drops the iterator, the elements taken from the front, those the
  drop releases, and those taken from the back in reverse make up the vector's contents in order;
  nothing is returned twice, leaked or read uninitialised.\<close>

theorem into_iter_exactly_once:
  assumes "fv_inv v"
  shows "\<exists>fs bs d. it_run oc ops (fv_into_iter v) = Ok (fs, bs, d) \<and> fs @ d @ rev bs = fv_list v"
  using it_run_partitions [of "fv_into_iter v" oc ops] fv_into_iter_inv [OF assms] by simp

theorem into_iter_exactly_once_witness:
  "\<exists>fs bs d. it_run True [True, False, True]
       (fv_into_iter \<lparr>fv_len = 4, fv_array = [Some 1, Some 2, Some 3, Some (4::nat), None]\<rparr>) =
     Ok (fs, bs, d) \<and> fs @ d @ rev bs = [1, 2, 3, 4]"
proof -
  let ?v = "\<lparr>fv_len = 4, fv_array = [Some 1, Some 2, Some 3, Some (4::nat), None]\<rparr>"
  have inv: "fv_inv ?v" by (simp add: fv_inv_def)
  have list: "fv_list ?v = [1, 2, 3, 4]" by (simp add: fv_list_def)
  show ?thesis
    using into_iter_exactly_once [OF inv, of True "[True, False, True]"] unfolding list .
qed

text \<open>Building a fixed-capacity string from \<open>s\<close> fails exactly when \<open>s\<close> is longer than the
  capacity; otherwise the string reads back as \<open>s\<close>, and pushing more text onto it either appends all
  of it or leaves the string unchanged, so its contents stay UTF-8.\<close>

theorem fixed_string_roundtrip:
  assumes "n < 2 ^ 32"
  shows "if n < length s then fs_try_from_str oc n s = Ok None
    else \<exists>f. fs_try_from_str oc n s = Ok (Some f) \<and> fs_as_str f = Ok s \<and>
      (\<exists>ok f'. fs_try_push_str oc t f = Ok (ok, f') \<and>
         fs_as_str f' = Ok (if ok then s @ t else s) \<and> (ok \<longleftrightarrow> length s + length t \<le> n))"
proof (cases "n < length s")
  case True
  then show ?thesis
    using fs_try_push_str_eq [of "fs_new n" s oc] assms
    by (simp add: fs_try_from_str_def fs_new_def fv_new_array_inv)
next
  case False
  then obtain f where f: "fs_try_push_str oc s (fs_new n) = Ok (True, f)" "fv_inv (fs_vec f)"
    "fv_list (fs_vec f) = s" "fv_cap (fs_vec f) = n"
    using fs_try_push_str_eq [of "fs_new n" s oc] assms
    by (auto simp: fs_new_def fv_new_array_inv)
  then show ?thesis
    using False fs_try_push_str_eq [of f t oc]
    by (auto simp: fs_try_from_str_def fs_as_str_def fv_deref_eq split: if_splits)
qed

theorem fixed_string_roundtrip_witness:
  "(4::nat) < 2 ^ 32 \<and> fs_try_from_str True 4 (lit ''hello'') = Ok None \<and>
   (\<exists>f. fs_try_from_str True 4 (lit ''abc'') = Ok (Some f) \<and> fs_as_str f = Ok (lit ''abc''))"
  using fixed_string_roundtrip [of 4 "lit ''hello''" True "[]"]
    fixed_string_roundtrip [of 4 "lit ''abc''" True "[]"]
  by (auto simp: lit_def)

end
