(* ===== verification/Exports_Trie.thy ===== *)
theory Exports_Trie
  imports Container Macho_Bindings
begin

text \<open>
  The exports trie of \<open>src/src/macho_image.rs\<close>: the node reader and the walk that resolves a symbol.
  The bytes are related to an abstract trie by the layout dyld documents; on every image that
  represents a trie the walk is shown to compute the map from exported names to terminals, and on
  every other byte sequence to return without a panic (an overflow check of the dev profile apart).
\<close>

unbundle bit_operations_syntax

section \<open>Model\<close>

datatype export_terminal =
    DefinedHere u64
  | ReexportedFromDependency u64 bytes

record trie_node_reader =
  tn_trie_bytes :: bytes
  tn_child_edges_start_offset :: usize
  tn_terminal_payload_start_offset :: usize
  tn_terminal_payload_size_in_bytes :: u64

definition trie_open :: "bool \<Rightarrow> bytes \<Rightarrow> usize \<Rightarrow> trie_node_reader option res" where
  "trie_open oc trie_bytes node_offset =
     (if length trie_bytes \<le> unat node_offset then Ok None
      else rbind (slice_from trie_bytes node_offset) (\<lambda>s.
        case read_uleb128 s of
          None \<Rightarrow> Ok None
        | Some (terminal_size, byte_count) \<Rightarrow>
            rbind (wadd oc node_offset byte_count) (\<lambda>payload_start.
            rbind (wadd oc payload_start terminal_size) (\<lambda>edges_start.
              if length trie_bytes \<le> unat edges_start then Ok None
              else Ok (Some \<lparr>tn_trie_bytes = trie_bytes,
                             tn_child_edges_start_offset = edges_start,
                             tn_terminal_payload_start_offset = payload_start,
                             tn_terminal_payload_size_in_bytes = terminal_size\<rparr>)))))"

definition has_terminal_payload :: "trie_node_reader \<Rightarrow> bool" where
  "has_terminal_payload node \<longleftrightarrow> 0 < tn_terminal_payload_size_in_bytes node"

definition terminal_payload_read :: "bool \<Rightarrow> trie_node_reader \<Rightarrow> export_terminal option res" where
  "terminal_payload_read oc node =
     (let t = tn_trie_bytes node; cursor = tn_terminal_payload_start_offset node in
      rbind (slice_from t cursor) (\<lambda>s.
      case read_uleb128 s of
        None \<Rightarrow> Ok None
      | Some (export_flags, flags_count) \<Rightarrow>
          rbind (wadd oc cursor flags_count) (\<lambda>cursor.
          rbind (slice_from t cursor) (\<lambda>s.
          if export_flags AND EXPORT_SYMBOL_FLAGS_REEXPORT \<noteq> 0 then
            (case read_uleb128 s of
               None \<Rightarrow> Ok None
             | Some (dependency_ordinal, ordinal_count) \<Rightarrow>
                 rbind (wadd oc cursor ordinal_count) (\<lambda>cursor.
                 rbind (slice_from t cursor) (\<lambda>s.
                 case position (\<lambda>b. b = 0) s of
                   None \<Rightarrow> Ok None
                 | Some terminator \<Rightarrow>
                     rbind (wadd oc cursor (of_nat terminator)) (\<lambda>e.
                     rbind (slice_range t cursor e) (\<lambda>aliased_name.
                     Ok (Some (ReexportedFromDependency dependency_ordinal aliased_name)))))))
          else
            (case read_uleb128 s of
               None \<Rightarrow> Ok None
             | Some (offset_from_mach_header, _) \<Rightarrow>
                 Ok (Some (DefinedHere offset_from_mach_header)))))))"

fun edge_loop :: "bool \<Rightarrow> bytes \<Rightarrow> bytes \<Rightarrow> nat \<Rightarrow> usize \<Rightarrow> (bytes \<times> usize) option res" where
  "edge_loop oc t suffix 0 cursor = Ok None"
| "edge_loop oc t suffix (Suc n) label_start =
     rbind (slice_from t label_start) (\<lambda>s.
     case position (\<lambda>b. b = 0) s of
       None \<Rightarrow> Ok None
     | Some label_length \<Rightarrow>
         rbind (wadd oc label_start (of_nat label_length)) (\<lambda>label_end.
         rbind (slice_range t label_start label_end) (\<lambda>label.
         rbind (wadd oc label_end 1) (\<lambda>cursor.
         rbind (slice_from t cursor) (\<lambda>s.
         case read_uleb128 s of
           None \<Rightarrow> Ok None
         | Some (child_node_offset, byte_count) \<Rightarrow>
             rbind (wadd oc cursor byte_count) (\<lambda>cursor.
             if label \<noteq> [] \<and> starts_with suffix label then Ok (Some (label, child_node_offset))
             else edge_loop oc t suffix n cursor))))))"

definition child_edge_matching_prefix_find ::
  "bool \<Rightarrow> trie_node_reader \<Rightarrow> bytes \<Rightarrow> (bytes \<times> usize) option res" where
  "child_edge_matching_prefix_find oc node suffix =
     (let t = tn_trie_bytes node; cursor = tn_child_edges_start_offset node in
      rbind (index_at t cursor) (\<lambda>count.
      rbind (wadd oc cursor 1) (\<lambda>cursor.
      edge_loop oc t suffix (unat count) cursor)))"

fun walk_loop :: "bool \<Rightarrow> bytes \<Rightarrow> nat \<Rightarrow> usize \<Rightarrow> bytes \<Rightarrow> export_terminal option res" where
  "walk_loop oc t 0 current remaining = Ok None"
| "walk_loop oc t (Suc visit_budget) current remaining =
     obind (trie_open oc t current) (\<lambda>node.
       if remaining = [] \<and> has_terminal_payload node then terminal_payload_read oc node
       else obind (child_edge_matching_prefix_find oc node remaining) (\<lambda>(label, child).
            rbind (slice_from remaining (of_nat (length label))) (\<lambda>remaining'.
            walk_loop oc t visit_budget child remaining')))"

definition exports_trie_walk_for_symbol :: "bool \<Rightarrow> bytes \<Rightarrow> bytes \<Rightarrow> export_terminal option res" where
  "exports_trie_walk_for_symbol oc trie_bytes symbol =
     walk_loop oc trie_bytes (length trie_bytes) 0 symbol"

section \<open>Specification: tries and their layout\<close>

datatype etrie = Node "export_terminal option" ekids
  and ekids = No_Kids | Kid bytes etrie ekids

primrec kids_count :: "ekids \<Rightarrow> nat" where
  "kids_count No_Kids = 0"
| "kids_count (Kid l T ks) = Suc (kids_count ks)"

primrec kids_labels :: "ekids \<Rightarrow> bytes list" where
  "kids_labels No_Kids = []"
| "kids_labels (Kid l T ks) = l # kids_labels ks"

text \<open>The exported names with their terminals.\<close>

primrec etrie_exports :: "etrie \<Rightarrow> (bytes \<times> export_terminal) list"
  and ekids_exports :: "ekids \<Rightarrow> (bytes \<times> export_terminal) list" where
  "etrie_exports (Node tm ks) =
     (case tm of None \<Rightarrow> [] | Some x \<Rightarrow> [([], x)]) @ ekids_exports ks"
| "ekids_exports No_Kids = []"
| "ekids_exports (Kid l T ks) = map (\<lambda>(s, x). (l @ s, x)) (etrie_exports T) @ ekids_exports ks"

text \<open>Edge labels are not empty, and no label of a node starts with another one.\<close>

primrec etrie_wf :: "etrie \<Rightarrow> bool" and ekids_wf :: "ekids \<Rightarrow> bool" where
  "etrie_wf (Node tm ks) \<longleftrightarrow> ekids_wf ks"
| "ekids_wf No_Kids \<longleftrightarrow> True"
| "ekids_wf (Kid l T ks) \<longleftrightarrow>
     l \<noteq> [] \<and> (\<forall>m \<in> set (kids_labels ks). \<not> starts_with l m \<and> \<not> starts_with m l) \<and>
     etrie_wf T \<and> ekids_wf ks"

text \<open>\<open>f\<close> spells \<open>v\<close> in ULEB128, not necessarily in the shortest form.\<close>

definition uleb_field :: "bytes \<Rightarrow> nat \<Rightarrow> bool" where
  "uleb_field f v \<longleftrightarrow> f \<noteq> [] \<and> length f \<le> 10 \<and> unat (last f) < 128 \<and>
     (\<forall>b \<in> set (butlast f). 128 \<le> unat b) \<and> uleb_nat f = v \<and> v < 2 ^ 64"

definition terminal_bytes :: "export_terminal option \<Rightarrow> bytes \<Rightarrow> bool" where
  "terminal_bytes tm pay \<longleftrightarrow> (case tm of
     None \<Rightarrow> pay = []
   | Some (DefinedHere off) \<Rightarrow> (\<exists>f flags g rest. pay = f @ g @ rest \<and> uleb_field f flags \<and>
       (of_nat flags :: u64) AND EXPORT_SYMBOL_FLAGS_REEXPORT = 0 \<and> uleb_field g (unat off))
   | Some (ReexportedFromDependency ordinal name) \<Rightarrow> (\<exists>f flags g. pay = f @ g @ name @ [0] \<and>
       uleb_field f flags \<and> (of_nat flags :: u64) AND EXPORT_SYMBOL_FLAGS_REEXPORT \<noteq> 0 \<and>
       uleb_field g (unat ordinal) \<and> 0 \<notin> set name))"

text \<open>
  \<open>trie_at t off T\<close>: the bytes \<open>t\<close> hold the trie \<open>T\<close> with its root at offset \<open>off\<close>. A node is the
  size of its terminal payload, the payload, the number of its edges and the edges; an edge is its
  label, a NUL and the offset of the child. Children may stand anywhere.
\<close>

inductive trie_at :: "bytes \<Rightarrow> nat \<Rightarrow> etrie \<Rightarrow> bool" and edges_at :: "bytes \<Rightarrow> nat \<Rightarrow> ekids \<Rightarrow> bool"
  for t :: bytes where
  trie_at_Node:
    "off < length t \<Longrightarrow> drop off t = f @ pay @ of_nat (kids_count ks) # rest \<Longrightarrow>
     uleb_field f (length pay) \<Longrightarrow> terminal_bytes tm pay \<Longrightarrow> kids_count ks < 256 \<Longrightarrow>
     edges_at t (off + length f + length pay + 1) ks \<Longrightarrow> trie_at t off (Node tm ks)"
| edges_at_None: "p \<le> length t \<Longrightarrow> edges_at t p No_Kids"
| edges_at_Kid:
    "drop p t = l @ 0 # g @ rest \<Longrightarrow> 0 \<notin> set l \<Longrightarrow> uleb_field g off \<Longrightarrow> trie_at t off T \<Longrightarrow>
     edges_at t (p + length l + 1 + length g) ks \<Longrightarrow> edges_at t p (Kid l T ks)"

inductive_cases trie_at_NodeE: "trie_at t off (Node tm ks)"
inductive_cases edges_at_KidE: "edges_at t p (Kid l T ks)"

section \<open>Reading a represented trie\<close>

lemma uleb_field_read:
  assumes "uleb_field f v"
  shows "read_uleb128 (f @ rest) = Some (of_nat v, of_nat (length f))"
proof -
  from assms obtain fs b where f: "f = fs @ [b]" by (auto simp: uleb_field_def) (metis rev_exhaust)
  with assms have "position (\<lambda>b. unat b < 128) (f @ rest) = Some (length fs)"
    by (auto simp: uleb_field_def not_less intro!: position_append_first)
  moreover have "take (Suc (length fs)) (f @ rest) = f" by (simp add: f)
  ultimately show ?thesis using assms by (simp add: read_uleb128_eq uleb_field_def f)
qed

lemma uleb_field_unique:
  assumes "uleb_field f v" "uleb_field f' v'" "f @ r = f' @ r'"
  shows "f = f' \<and> v = v' \<and> r = r'"
proof -
  have "(of_nat v :: u64, of_nat (length f) :: usize) = (of_nat v', of_nat (length f'))"
    using uleb_field_read [OF assms(1), of r] uleb_field_read [OF assms(2), of r'] assms(3) by simp
  then have "unat (of_nat v :: u64) = unat (of_nat v' :: u64)"
    "unat (of_nat (length f) :: usize) = unat (of_nat (length f') :: usize)" by simp_all
  moreover have "length f < 2 ^ 64" "length f' < 2 ^ 64" "v < 2 ^ 64" "v' < 2 ^ 64"
    using assms by (auto simp: uleb_field_def)
  ultimately have "v = v'" "length f = length f'" by (simp_all add: unat_of_nat_fits)
  with assms(3) show ?thesis by simp
qed

lemma zero_terminated_unique:
  "l @ 0 # r = l' @ 0 # r' \<Longrightarrow> 0 \<notin> set l \<Longrightarrow> 0 \<notin> set l' \<Longrightarrow> l = l' \<and> r = (r' :: bytes)"
proof (induction l arbitrary: l')
  case Nil
  then show ?case by (cases l') auto
next
  case (Cons x l)
  then show ?case by (cases l') auto
qed

lemma uleb_field_pos: "uleb_field f v \<Longrightarrow> 0 < length f \<and> length f \<le> 10"
  by (auto simp: uleb_field_def)

lemma terminal_bytes_unique:
  assumes "terminal_bytes tm pay" "terminal_bytes tm' pay"
  shows "tm = tm'"
proof (cases "pay = []")
  case True
  have "terminal_bytes x [] \<Longrightarrow> x = None" for x
    by (auto simp: terminal_bytes_def uleb_field_def split: option.splits export_terminal.splits)
  from this [of tm] this [of tm'] True assms show ?thesis by simp
next
  case False
  have shape: "\<exists>f flags g v rest. pay = f @ g @ rest \<and> uleb_field f flags \<and> uleb_field g v \<and>
      (if of_nat flags AND EXPORT_SYMBOL_FLAGS_REEXPORT = 0
       then x = Some (DefinedHere (of_nat v))
       else rest \<noteq> [] \<and> x = Some (ReexportedFromDependency (of_nat v) (butlast rest)))"
    if "terminal_bytes x pay" for x
    using that False
    by (fastforce simp: terminal_bytes_def split: option.splits export_terminal.splits)
  obtain f flags g v rest where *: "pay = f @ g @ rest" "uleb_field f flags" "uleb_field g v"
      "if of_nat flags AND EXPORT_SYMBOL_FLAGS_REEXPORT = 0 then tm = Some (DefinedHere (of_nat v))
       else rest \<noteq> [] \<and> tm = Some (ReexportedFromDependency (of_nat v) (butlast rest))"
    using shape [OF assms(1)] by blast
  obtain f' flags' g' v' rest' where **: "pay = f' @ g' @ rest'" "uleb_field f' flags'"
      "uleb_field g' v'"
      "if of_nat flags' AND EXPORT_SYMBOL_FLAGS_REEXPORT = 0 then tm' = Some (DefinedHere (of_nat v'))
       else rest' \<noteq> [] \<and> tm' = Some (ReexportedFromDependency (of_nat v') (butlast rest'))"
    using shape [OF assms(2)] by blast
  have 1: "f = f' \<and> flags = flags' \<and> g @ rest = g' @ rest'"
    using uleb_field_unique [OF *(2) **(2), of "g @ rest" "g' @ rest'"] *(1) **(1) by metis
  then have "g = g' \<and> v = v' \<and> rest = rest'"
    using uleb_field_unique [OF *(3) **(3)] by blast
  with 1 * ** show ?thesis by (simp split: if_splits)
qed

text \<open>The bytes at an offset determine the trie they hold.\<close>

lemma trie_at_unique:
  "trie_at t off T \<Longrightarrow> trie_at t off T' \<Longrightarrow> T = T'"
  "edges_at t p ks \<Longrightarrow> edges_at t p ks' \<Longrightarrow> kids_count ks = kids_count ks' \<Longrightarrow> ks = ks'"
proof (induction off T and p ks arbitrary: T' and ks' rule: trie_at_edges_at.inducts)
  case (trie_at_Node off f pay ks rest tm)
  obtain tm' ks' where T': "T' = Node tm' ks'" by (cases T')
  with trie_at_Node.prems obtain f' pay' rest' where
    *: "drop off t = f' @ pay' @ of_nat (kids_count ks') # rest'" "uleb_field f' (length pay')"
      "terminal_bytes tm' pay'" "kids_count ks' < 256"
      "edges_at t (off + length f' + length pay' + 1) ks'"
    by (auto elim: trie_at_NodeE)
  have eq: "f = f' \<and> length pay = length pay' \<and>
      pay @ of_nat (kids_count ks) # rest = pay' @ of_nat (kids_count ks') # rest'"
    using uleb_field_unique [OF \<open>uleb_field f (length pay)\<close> *(2)] trie_at_Node *(1) by metis
  then have "pay = pay'" and count: "(of_nat (kids_count ks) :: u8) = of_nat (kids_count ks')"
    by auto
  then have "kids_count ks = kids_count ks'"
    using \<open>kids_count ks < 256\<close> *(4) by (simp add: of_nat_eq_fits)
  moreover have "edges_at t (off + length f + length pay + 1) ks'" using *(5) eq by simp
  ultimately have "ks = ks'" using trie_at_Node.IH by blast
  moreover have "tm = tm'"
    using terminal_bytes_unique \<open>terminal_bytes tm pay\<close> *(3) \<open>pay = pay'\<close> by blast
  ultimately show ?case by (simp add: T')
next
  case (edges_at_None p)
  then show ?case by (cases ks') auto
next
  case (edges_at_Kid p l g rest off T ks)
  from edges_at_Kid.prems(2) obtain l' T' ks'' where ks': "ks' = Kid l' T' ks''"
    by (cases ks') auto
  with edges_at_Kid.prems obtain g' rest' off' where
    *: "drop p t = l' @ 0 # g' @ rest'" "0 \<notin> set l'" "uleb_field g' off'" "trie_at t off' T'"
      "edges_at t (p + length l' + 1 + length g') ks''"
    by (auto elim: edges_at_KidE)
  have l: "l = l' \<and> g @ rest = g' @ rest'"
    using zero_terminated_unique [of l _ l'] edges_at_Kid *(1,2) by metis
  then have g: "g = g' \<and> off = off'"
    using uleb_field_unique [OF \<open>uleb_field g off\<close> *(3)] by blast
  have T: "T = T'" using edges_at_Kid.IH *(4) g by blast
  have "edges_at t (p + length l + 1 + length g) ks''" using *(5) l g by simp
  moreover have "kids_count ks = kids_count ks''" using edges_at_Kid.prems(2) ks' by simp
  ultimately have "ks = ks''" using edges_at_Kid.IH by blast
  with T show ?case using l ks' by simp
qed

section \<open>Safety on arbitrary bytes\<close>

lemma edge_loop_step:
  assumes p: "p \<le> length t" and len: "length t < 2 ^ 63"
  shows "edge_loop oc t suffix (Suc n) (of_nat p) =
    (case position (\<lambda>b. b = 0) (drop p t) of
       None \<Rightarrow> Ok None
     | Some k \<Rightarrow> case read_uleb128 (drop (p + k + 1) t) of
         None \<Rightarrow> Ok None
       | Some (child, m) \<Rightarrow>
           if k \<noteq> 0 \<and> starts_with suffix (take k (drop p t)) then Ok (Some (take k (drop p t), child))
           else edge_loop oc t suffix n (of_nat (p + k + 1 + unat m)))"
proof (cases "position (\<lambda>b. b = 0) (drop p t)")
  case None
  with assms show ?thesis by (simp add: slice_from_of_nat)
next
  case (Some k)
  then have k: "p + k < length t" by (auto simp: position_Some_iff)
  have 0: "slice_from t (of_nat p) = Ok (drop p t)"
    using p len by (intro slice_from_of_nat) auto
  have 1: "wadd oc (of_nat p) (of_nat k) = Ok (of_nat (p + k) :: usize)"
    using k len by (intro wadd_of_nat) simp
  have 2: "slice_range t (of_nat p) (of_nat (p + k)) = Ok (take k (drop p t))"
    using k len by (subst slice_range_of_nat) auto
  have 3: "wadd oc (of_nat (p + k)) 1 = Ok (of_nat (p + k + 1) :: usize)"
    using wadd_of_nat [of "p + k" 1, where ?'a = 64] k len by simp
  have 4: "slice_from t (of_nat (p + k + 1)) = Ok (drop (p + k + 1) t)"
    using k len by (intro slice_from_of_nat) auto
  have 5: "wadd oc (of_nat (p + k + 1)) m = Ok (of_nat (p + k + 1 + unat m) :: usize)"
    if "read_uleb128 (drop (p + k + 1) t) = Some (c, m)" for c m
    using wadd_of_nat [of "p + k + 1" "unat m", where ?'a = 64] read_uleb128_bounds [OF that] len k
    by auto
  have 6: "take k (drop p t) = [] \<longleftrightarrow> k = 0" using k by auto
  show ?thesis
  proof (cases "read_uleb128 (drop (p + k + 1) t)")
    case None
    then show ?thesis by (simp only: edge_loop.simps rbind.simps option.case Some 0 1 2 3 4)
  next
    case (Some r)
    obtain c m where r: "r = (c, m)" by fastforce
    show ?thesis
      by (simp only: edge_loop.simps rbind.simps option.case prod.case 0 1 2 3 4 6
          \<open>position _ _ = Some k\<close> Some [unfolded r] 5 [OF Some [unfolded r]])
  qed
qed

lemma edge_loop_total:
  "p \<le> length t \<Longrightarrow> length t < 2 ^ 63 \<Longrightarrow>
     \<exists>r. edge_loop oc t suffix n (of_nat p) = Ok r \<and>
       (\<forall>label child. r = Some (label, child) \<longrightarrow> label \<noteq> [] \<and> starts_with suffix label)"
proof (induction n arbitrary: p)
  case 0
  then show ?case by simp
next
  case (Suc n)
  have next_fits: "p + k + 1 + unat m \<le> length t"
    if "position (\<lambda>b. b = 0) (drop p t) = Some k" "read_uleb128 (drop (p + k + 1) t) = Some (c, m)"
    for k c m
    using that(1) read_uleb128_bounds [OF that(2)] by (auto simp: position_Some_iff)
  show ?case
    unfolding edge_loop_step [OF Suc.prems]
    using Suc.IH [OF next_fits Suc.prems(2)]
    by (auto split: option.split simp: position_Some_iff simp del: of_nat_add of_nat_Suc)
qed

lemma child_edge_total:
  assumes "unat (tn_child_edges_start_offset node) < length (tn_trie_bytes node)"
    "length (tn_trie_bytes node) < 2 ^ 63"
  shows "\<exists>r. child_edge_matching_prefix_find oc node suffix = Ok r \<and>
       (\<forall>label child. r = Some (label, child) \<longrightarrow> label \<noteq> [] \<and> starts_with suffix label)"
proof -
  let ?c = "tn_child_edges_start_offset node"
  have "wadd oc ?c 1 = Ok (of_nat (unat ?c + 1))"
    using wadd_of_nat [of "unat ?c" 1, where ?'a = 64] assms by simp
  with assms edge_loop_total [of "unat ?c + 1" "tn_trie_bytes node" oc suffix
      "unat (tn_trie_bytes node ! unat ?c)"]
  show ?thesis by (simp add: child_edge_matching_prefix_find_def Let_def del: of_nat_Suc)
qed

lemma terminal_payload_total:
  assumes "unat (tn_terminal_payload_start_offset node) \<le> length (tn_trie_bytes node)"
    "length (tn_trie_bytes node) < 2 ^ 63"
  shows "\<exists>r. terminal_payload_read oc node = Ok r"
proof -
  let ?t = "tn_trie_bytes node"
  have adv: "wadd oc c n = Ok (c + n) \<and> unat (c + n) \<le> length ?t"
    if "unat c \<le> length ?t" "read_uleb128 (drop (unat c) ?t) = Some (v, n)" for c v n
    using that(1) read_uleb128_bounds [OF that(2)] assms(2) by (auto simp: unat_add_fits)
  have name: "\<exists>x. wadd oc c (of_nat k) = Ok (c + of_nat k) \<and> slice_range ?t c (c + of_nat k) = Ok x"
    if "unat c \<le> length ?t" "position (\<lambda>b. b = 0) (drop (unat c) ?t) = Some k" for c k
  proof -
    have "unat c + k < length ?t" using that by (auto simp: position_Some_iff)
    then show ?thesis using assms(2) by (simp add: unat_add_fits unat_of_nat_fits slice_range_def)
  qed
  show ?thesis
    unfolding terminal_payload_read_def Let_def
    using assms(1) by (auto split: option.split simp: adv dest!: adv [rotated] name [rotated])
qed

lemma trie_open_cases:
  assumes "length t < 2 ^ 63"
  shows "trie_open oc t off = Ok None \<or> (oc \<and> trie_open oc t off = Panic Arith_Overflow) \<or>
    (\<exists>node. trie_open oc t off = Ok (Some node) \<and> tn_trie_bytes node = t \<and>
       unat (tn_child_edges_start_offset node) < length t \<and>
       unat (tn_terminal_payload_start_offset node) \<le> length t)"
proof (cases "length t \<le> unat off")
  case True
  then show ?thesis by (simp add: trie_open_def)
next
  case False
  show ?thesis
  proof (cases "read_uleb128 (drop (unat off) t)")
    case None
    with False show ?thesis by (simp add: trie_open_def)
  next
    case (Some r)
    then obtain sz n where r: "read_uleb128 (drop (unat off) t) = Some (sz, n)" by (cases r) auto
    have "unat off + unat n \<le> length t" using read_uleb128_bounds [OF r] False by auto
    then have "wadd oc off n = Ok (off + n)" "unat (off + n) \<le> length t"
      using assms by (auto simp: unat_add_fits)
    with r False show ?thesis
      by (cases "wadd oc (off + n) sz") (auto simp: trie_open_def res_simps)
  qed
qed

lemma walk_loop_safe:
  assumes "length t < 2 ^ 63"
  shows "length s < 2 ^ 64 \<Longrightarrow>
    (\<exists>r. walk_loop oc t n off s = Ok r) \<or> (oc \<and> walk_loop oc t n off s = Panic Arith_Overflow)"
proof (induction n arbitrary: off s)
  case 0
  then show ?case by simp
next
  case (Suc n)
  consider "trie_open oc t off = Ok None" | "oc" "trie_open oc t off = Panic Arith_Overflow"
    | node where "trie_open oc t off = Ok (Some node)" "tn_trie_bytes node = t"
       "unat (tn_child_edges_start_offset node) < length t"
       "unat (tn_terminal_payload_start_offset node) \<le> length t"
    using trie_open_cases [OF assms, of oc off] by blast
  then show ?case
  proof cases
    case 3
    obtain r where r: "child_edge_matching_prefix_find oc node s = Ok r"
      "\<And>label child. r = Some (label, child) \<Longrightarrow> label \<noteq> [] \<and> starts_with s label"
      using child_edge_total [of node oc s] 3 assms by auto
    have sub: "slice_from s (of_nat (length label)) = Ok (drop (length label) s)"
      if "r = Some (label, child)" for label child
      using r(2) [OF that] Suc.prems starts_with_length [of s label] by (simp add: slice_from_of_nat)
    have "\<exists>x. terminal_payload_read oc node = Ok x"
      using terminal_payload_total [of node oc] 3 assms by simp
    moreover have "(\<exists>x. walk_loop oc t n off' (drop k s) = Ok x) \<or>
        oc \<and> walk_loop oc t n off' (drop k s) = Panic Arith_Overflow" for off' k
      using Suc.prems by (intro Suc.IH) simp
    moreover have "walk_loop oc t (Suc n) off s =
        (if s = [] \<and> has_terminal_payload node then terminal_payload_read oc node
         else case r of None \<Rightarrow> Ok None | Some (l, c) \<Rightarrow> walk_loop oc t n c (drop (length l) s))"
      using 3(1) r(1) sub by (cases r) auto
    ultimately show ?thesis by (cases r) auto
  qed simp_all
qed

section \<open>Following the represented trie\<close>

primrec kid_match :: "ekids \<Rightarrow> bytes \<Rightarrow> (bytes \<times> etrie) option" where
  "kid_match No_Kids s = None"
| "kid_match (Kid l T ks) s = (if l \<noteq> [] \<and> starts_with s l then Some (l, T) else kid_match ks s)"

lemma edge_loop_represented:
  assumes len: "length t < 2 ^ 63"
  shows "edges_at t p ks \<Longrightarrow> p \<le> length t \<and> (case kid_match ks s of
      None \<Rightarrow> edge_loop oc t s (kids_count ks) (of_nat p) = Ok None
    | Some (l, T) \<Rightarrow> \<exists>off. edge_loop oc t s (kids_count ks) (of_nat p) = Ok (Some (l, of_nat off)) \<and>
        trie_at t off T \<and> size T < size ks)"
proof (induction ks arbitrary: p rule: ekids.induct [where ?P1.0 = "\<lambda>_. True"])
  case No_Kids
  then show ?case by (auto elim: edges_at.cases)
next
  case (Kid l T ks)
  then obtain g rest off where *: "drop p t = l @ 0 # g @ rest" "0 \<notin> set l" "uleb_field g off"
    "trie_at t off T" "edges_at t (p + length l + 1 + length g) ks"
    by (auto elim: edges_at_KidE)
  have p: "p \<le> length t" using *(1) by (cases "p \<le> length t") auto
  have pos: "position (\<lambda>b. b = 0) (drop p t) = Some (length l)"
    unfolding *(1) using *(2) by (intro position_append_first) auto
  have "drop (p + length l + 1) t = g @ rest"
    using arg_cong [OF *(1), of "drop (length l + 1)"] by (simp add: ac_simps)
  then have rd: "read_uleb128 (drop (p + length l + 1) t) = Some (of_nat off, of_nat (length g))"
    using uleb_field_read [OF *(3)] by simp
  have g: "unat (of_nat (length g) :: usize) = length g"
    using *(3) by (intro unat_of_nat_fits) (auto simp: uleb_field_def)
  have tk: "take (length l) (drop p t) = l" by (simp add: *(1))
  note step = edge_loop_step [OF p len, of oc s "kids_count ks", unfolded pos option.case rd prod.case
      tk g length_0_conv]
  show ?case
    using Kid.IH [OF *(5)] p *(4) unfolding kids_count.simps step
    by (auto split: option.splits)
qed simp

lemma drop_advance:
  assumes "drop p t = f @ r" "p \<le> length t"
  shows "drop (p + length f) t = r" "p + length f \<le> length t"
proof -
  show "drop (p + length f) t = r"
    using arg_cong [OF assms(1), of "drop (length f)"] by (simp add: ac_simps)
  show "p + length f \<le> length t"
    using arg_cong [OF assms(1), of length] assms(2) by simp
qed

lemma uleb_field_at:
  assumes "drop p t = f @ r" "p \<le> length t" "length t < 2 ^ 63" "uleb_field f v"
  shows "slice_from t (of_nat p) = Ok (drop p t)"
    "read_uleb128 (drop p t) = Some (of_nat v, of_nat (length f))"
    "wadd oc (of_nat p) (of_nat (length f)) = Ok (of_nat (p + length f) :: usize)"
proof -
  show "slice_from t (of_nat p) = Ok (drop p t)" using assms by (intro slice_from_of_nat) auto
  show "read_uleb128 (drop p t) = Some (of_nat v, of_nat (length f))"
    using assms by (simp add: uleb_field_read)
  show "wadd oc (of_nat p) (of_nat (length f)) = Ok (of_nat (p + length f) :: usize)"
    using drop_advance(2) [OF assms(1,2)] assms(3) by (intro wadd_of_nat) simp
qed

lemma terminal_payload_represented:
  assumes d: "drop p t = pay @ rest" and p: "p \<le> length t" and len: "length t < 2 ^ 63"
    and tm: "terminal_bytes (Some x) pay"
    and node: "tn_trie_bytes node = t" "tn_terminal_payload_start_offset node = of_nat p"
  shows "terminal_payload_read oc node = Ok (Some x)"
proof -
  obtain f flags g r where fg: "pay = f @ g @ r" "uleb_field f flags"
    and x: "(\<exists>off. x = DefinedHere off \<and> of_nat flags AND EXPORT_SYMBOL_FLAGS_REEXPORT = 0 \<and>
         uleb_field g (unat off)) \<or>
       (\<exists>ordinal name. x = ReexportedFromDependency ordinal name \<and> r = name @ [0] \<and>
         of_nat flags AND EXPORT_SYMBOL_FLAGS_REEXPORT \<noteq> 0 \<and> uleb_field g (unat ordinal) \<and>
         0 \<notin> set name)"
    using tm by (cases x) (auto simp: terminal_bytes_def)
  have d1: "drop p t = f @ g @ r @ rest" using d fg by simp
  note f = uleb_field_at [OF d1 p len fg(2)]
  note d2 = drop_advance [OF d1 p]
  show ?thesis
    using x
  proof (elim disjE exE conjE)
    fix off
    assume "x = DefinedHere off" "of_nat flags AND EXPORT_SYMBOL_FLAGS_REEXPORT = 0"
      and g: "uleb_field g (unat off)"
    then show ?thesis
      using f uleb_field_at [OF d2 len g] node
      by (simp add: terminal_payload_read_def Let_def del: of_nat_add)
  next
    fix ordinal name
    assume x: "x = ReexportedFromDependency ordinal name"
      "of_nat flags AND EXPORT_SYMBOL_FLAGS_REEXPORT \<noteq> 0"
      and r: "r = name @ [0]" and g: "uleb_field g (unat ordinal)" and name: "0 \<notin> set name"
    note g' = uleb_field_at [OF d2 len g]
    note d3 = drop_advance [OF d2]
    let ?q = "p + length f + length g"
    have d4: "drop ?q t = name @ 0 # rest" using d3(1) r by simp
    have q: "?q + length name \<le> length t" using drop_advance(2) [OF d4 d3(2)] .
    have pos: "position (\<lambda>b. b = 0) (drop ?q t) = Some (length name)"
      unfolding d4 using name by (intro position_append_first) auto
    have s1: "slice_from t (of_nat ?q) = Ok (drop ?q t)"
      using q len by (intro slice_from_of_nat) auto
    have s2: "wadd oc (of_nat ?q) (of_nat (length name)) = Ok (of_nat (?q + length name) :: usize)"
      using q len by (intro wadd_of_nat) simp
    have s3: "slice_range t (of_nat ?q) (of_nat (?q + length name)) = Ok name"
      using q len by (subst slice_range_of_nat) (auto simp: d4)
    show ?thesis
      unfolding terminal_payload_read_def Let_def node
      by (simp only: f g' rbind.simps option.case prod.case pos s1 s2 s3 x) simp
  qed
qed

lemma node_represented:
  assumes node: "trie_at t off (Node tm ks)" and len: "length t < 2 ^ 63"
  obtains node where "trie_open oc t (of_nat off) = Ok (Some node)"
    "has_terminal_payload node \<longleftrightarrow> tm \<noteq> None"
    "\<And>x. tm = Some x \<Longrightarrow> terminal_payload_read oc node = Ok (Some x)"
    "case kid_match ks s of
       None \<Rightarrow> child_edge_matching_prefix_find oc node s = Ok None
     | Some (l, T) \<Rightarrow> \<exists>off. child_edge_matching_prefix_find oc node s = Ok (Some (l, of_nat off)) \<and>
         trie_at t off T \<and> size T < size ks"
proof -
  obtain f pay rest where off: "off < length t"
    and d: "drop off t = f @ pay @ of_nat (kids_count ks) # rest"
    and f: "uleb_field f (length pay)" and tm: "terminal_bytes tm pay"
    and count: "kids_count ks < 256" and edges: "edges_at t (off + length f + length pay + 1) ks"
    using node by (auto elim: trie_at_NodeE)
  let ?ps = "off + length f" and ?es = "off + length f + length pay"
  let ?node = "\<lparr>tn_trie_bytes = t, tn_child_edges_start_offset = of_nat ?es,
     tn_terminal_payload_start_offset = of_nat ?ps, tn_terminal_payload_size_in_bytes = of_nat (length pay)\<rparr>"
  have off': "off \<le> length t" using off by simp
  note f' = uleb_field_at [OF d off' len f]
  note d2 = drop_advance [OF d off']
  note d3 = drop_advance [OF d2]
  have es: "?es < length t" using d3 by (cases "?es < length t") auto
  have "of_nat (length pay) = (0 :: u64) \<longleftrightarrow> pay = []"
    using of_nat_eq_fits [of "length pay" 0, where ?'a = 64] es len by simp
  then have has: "has_terminal_payload ?node \<longleftrightarrow> tm \<noteq> None"
    using tm by (auto simp: has_terminal_payload_def word_neq_0_conv [symmetric] terminal_bytes_def
        uleb_field_def split: option.splits export_terminal.splits)
  have add: "wadd oc (of_nat ?ps) (of_nat (length pay)) = Ok (of_nat ?es :: usize)"
    using es len by (intro wadd_of_nat) simp
  have "\<not> length t \<le> unat (of_nat ?es :: usize)" "\<not> length t \<le> unat (of_nat off :: usize)"
    using es off len by (simp_all add: unat_of_nat_fits del: of_nat_add)
  then have opened: "trie_open oc t (of_nat off) = Ok (Some ?node)"
    unfolding trie_open_def by (simp only: f' rbind.simps option.case prod.case add if_False)
  have count': "t ! ?es = of_nat (kids_count ks)" using d3(1) es by (metis Cons_nth_drop_Suc list.inject)
  have "wadd oc (of_nat ?es) 1 = Ok (of_nat (?es + 1) :: usize)"
    using wadd_of_nat [of ?es 1, where ?'a = 64] es len by simp
  moreover have "index_at t (of_nat ?es) = Ok (of_nat (kids_count ks))"
    using es len count' by (subst index_at_of_nat) auto
  ultimately have ce: "child_edge_matching_prefix_find oc ?node s =
      edge_loop oc t s (kids_count ks) (of_nat (?es + 1))"
    using count by (simp add: child_edge_matching_prefix_find_def Let_def unat_of_nat_fits
        del: of_nat_add)
  have "case kid_match ks s of
       None \<Rightarrow> child_edge_matching_prefix_find oc ?node s = Ok None
     | Some (l, T) \<Rightarrow> \<exists>off. child_edge_matching_prefix_find oc ?node s = Ok (Some (l, of_nat off)) \<and>
         trie_at t off T \<and> size T < size ks"
    unfolding ce by (rule edge_loop_represented [OF len edges, THEN conjunct2])
  moreover have "terminal_payload_read oc ?node = Ok (Some x)" if "tm = Some x" for x
    using terminal_payload_represented [OF d2 len, of x ?node oc] tm that by simp
  ultimately show thesis using opened has by (intro that [of ?node])
qed

lemma kid_match_size: "kid_match ks s = Some (l, T) \<Longrightarrow> size T < size ks"
  by (induction ks rule: ekids.induct [where ?P1.0 = "\<lambda>_. True"]) (auto split: if_splits)

text \<open>Lookup in the abstract trie, edge by edge; on a well-formed trie it is the map of exports.\<close>

function etrie_lookup :: "etrie \<Rightarrow> bytes \<Rightarrow> export_terminal option" where
  "etrie_lookup (Node tm ks) s =
     (if s = [] \<and> tm \<noteq> None then tm
      else case kid_match ks s of None \<Rightarrow> None | Some (l, T) \<Rightarrow> etrie_lookup T (drop (length l) s))"
  by pat_completeness auto
termination
  by (relation "measure (\<lambda>(T, s). size T)") (auto dest!: kid_match_size)

lemma walk_loop_represented:
  assumes len: "length t < 2 ^ 63"
  shows "trie_at t off T \<Longrightarrow> finite V \<Longrightarrow> V \<subseteq> {..<length t} \<Longrightarrow>
     \<forall>v \<in> V. \<exists>T'. trie_at t v T' \<and> size T < size T' \<Longrightarrow> length t \<le> n + card V \<Longrightarrow>
     length s < 2 ^ 64 \<Longrightarrow>
     walk_loop oc t n (of_nat off) s = Ok (etrie_lookup T s)"
proof (induction T s arbitrary: off V n rule: etrie_lookup.induct)
  case (1 tm ks s)
  have off: "off < length t" using 1(2) by (auto elim: trie_at_NodeE)
  have fresh: "off \<notin> V"
    using 1(2,5) trie_at_unique(1) by (metis less_irrefl)
  then have "card (insert off V) \<le> length t"
    using 1(3,4) off card_mono [of "{..<length t}" "insert off V"] by simp
  with fresh 1(3,6) obtain m where n: "n = Suc m" "length t \<le> m + card (insert off V)"
    by (cases n) auto
  obtain node where node: "trie_open oc t (of_nat off) = Ok (Some node)"
    "has_terminal_payload node \<longleftrightarrow> tm \<noteq> None"
    "\<And>x. tm = Some x \<Longrightarrow> terminal_payload_read oc node = Ok (Some x)"
    "case kid_match ks s of
       None \<Rightarrow> child_edge_matching_prefix_find oc node s = Ok None
     | Some (l, T) \<Rightarrow> \<exists>off. child_edge_matching_prefix_find oc node s = Ok (Some (l, of_nat off)) \<and>
         trie_at t off T \<and> size T < size ks"
    by (rule node_represented [OF 1(2) len, of oc s]) (rule that)
  show ?case
  proof (cases "s = [] \<and> tm \<noteq> None")
    case True
    with node(1-3) n show ?thesis by auto
  next
    case False
    show ?thesis
    proof (cases "kid_match ks s")
      case None
      with False node(1,2,4) n show ?thesis by auto
    next
      case (Some lT)
      then obtain l T where lT: "kid_match ks s = Some (l, T)" by (cases lT) auto
      with node(4) obtain c where c: "child_edge_matching_prefix_find oc node s = Ok (Some (l, of_nat c))"
        "trie_at t c T" "size T < size ks" by auto
      have l: "length l \<le> length s"
        using lT by (induction ks rule: ekids.induct [where ?P1.0 = "\<lambda>_. True"])
          (auto split: if_splits dest: starts_with_length)
      have "size T < size (Node tm ks)" using c(3) by simp
      then have bigger: "\<forall>v \<in> insert off V. \<exists>T'. trie_at t v T' \<and> size T < size T'"
        using 1(2,5) by (metis insert_iff less_trans)
      have "walk_loop oc t m (of_nat c) (drop (length l) s) = Ok (etrie_lookup T (drop (length l) s))"
        using 1(1) [OF False lT refl c(2) _ _ bigger n(2)] 1(3,4,7) off by simp
      then show ?thesis
        using False lT node(1,2) c(1) n(1) l 1(7) by (auto simp: slice_from_of_nat)
    qed
  qed
qed

section \<open>Lookup and exports\<close>

lemma map_of_prefix:
  "map_of (map (\<lambda>(s, x). (l @ s, x)) es) s =
     (if starts_with s l then map_of es (drop (length l) s) else None)"
  by (induction es) (auto simp: starts_with_iff)

lemma ekids_exports_start:
  "(s, x) \<in> set (ekids_exports ks) \<Longrightarrow> \<exists>l \<in> set (kids_labels ks). starts_with s l"
  by (induction ks rule: ekids.induct [where ?P1.0 = "\<lambda>_. True"]) (auto simp: starts_with_iff)

lemma starts_with_comparable:
  "starts_with s l \<Longrightarrow> starts_with s m \<Longrightarrow> starts_with l m \<or> starts_with m l"
  by (metis append_eq_append_conv2 starts_with_iff)

lemma ekids_exports_other:
  assumes "\<forall>m \<in> set (kids_labels ks). \<not> starts_with l m \<and> \<not> starts_with m l" "starts_with s l"
  shows "map_of (ekids_exports ks) s = None"
  using assms starts_with_comparable ekids_exports_start
  by (metis map_of_SomeD not_None_eq)

lemma etrie_lookup_exports: "etrie_wf T \<Longrightarrow> etrie_lookup T s = map_of (etrie_exports T) s"
proof (induction T s rule: etrie_lookup.induct)
  case (1 tm ks s)
  have kids: "map_of (ekids_exports ks) s =
      (case kid_match ks s of None \<Rightarrow> None | Some (l, T) \<Rightarrow> map_of (etrie_exports T) (drop (length l) s))"
    if "ekids_wf ks" for ks
    using that
  proof (induction ks rule: ekids.induct [where ?P1.0 = "\<lambda>_. True"])
    case (Kid l T ks)
    then show ?case
      using ekids_exports_other [of ks l s]
      by (auto simp: map_add_def map_of_prefix split: option.splits)
  qed simp_all
  have wf: "kid_match ks s = Some (l, T) \<Longrightarrow> ekids_wf ks \<Longrightarrow> etrie_wf T" for ks l T
    by (induction ks rule: ekids.induct [where ?P1.0 = "\<lambda>_. True"]) (auto split: if_splits)
  show ?case
  proof (cases "s = [] \<and> tm \<noteq> None")
    case True
    then show ?thesis by auto
  next
    case False
    have IH: "etrie_lookup T (drop (length l) s) = map_of (etrie_exports T) (drop (length l) s)"
      if "kid_match ks s = Some (l, T)" for l T
      using 1(1) [OF False that refl] wf [OF that] 1(2) by simp
    have "map_of (etrie_exports (Node tm ks)) s = map_of (ekids_exports ks) s"
      using False by (cases tm) (auto simp: map_add_def split: option.splits)
    moreover have "etrie_lookup (Node tm ks) s = map_of (ekids_exports ks) s"
      using False 1(2) IH by (auto simp: kids split: option.splits)
    ultimately show ?thesis by simp
  qed
qed

section \<open>Properties\<close>

text \<open>C1: symbol lookup is correct. When the bytes hold a trie with its root at offset 0 (children
  anywhere, any ULEB128 spelling of the numbers, prefix-free labels), the walk returns exactly the
  terminal the trie exports under that name, and \<open>None\<close> when there is none; the visit budget of one
  node per byte never cuts a walk short. This holds in both build profiles.\<close>

theorem exports_trie_refines_map:
  assumes "trie_at t 0 T" "etrie_wf T" "length t < 2 ^ 63" "length symbol < 2 ^ 64"
  shows "exports_trie_walk_for_symbol oc t symbol = Ok (map_of (etrie_exports T) symbol)"
  using walk_loop_represented [OF assms(3,1), of "{}" "length t" symbol oc] assms
  by (simp add: exports_trie_walk_for_symbol_def etrie_lookup_exports)

theorem exports_trie_refines_map_witness:
  "let t = [0, 1, 0x5F, 0x66, 0, 6, 2, 0, 0x10, 0];
       T = Node None (Kid [0x5F, 0x66] (Node (Some (DefinedHere 0x10)) No_Kids) No_Kids) in
   trie_at t 0 T \<and> etrie_wf T \<and>
   exports_trie_walk_for_symbol True t (lit ''_f'') = Ok (Some (DefinedHere 0x10)) \<and>
   exports_trie_walk_for_symbol True t (lit ''_g'') = Ok None"
proof -
  let ?t = "[0, 1, 0x5F, 0x66, 0, 6, 2, 0, 0x10, 0] :: bytes"
  let ?L = "Node (Some (DefinedHere 0x10)) No_Kids"
  let ?T = "Node None (Kid [0x5F, 0x66] ?L No_Kids)"
  have field: "uleb_field [b] (unat b)" if "unat b < 128" for b
    using that by (simp add: uleb_field_def)
  have "terminal_bytes (Some (DefinedHere 0x10)) [0, 0x10]"
  proof -
    have "[0, 0x10] = [0] @ [0x10] @ ([] :: bytes) \<and> uleb_field [0] 0 \<and>
        (of_nat 0 :: u64) AND EXPORT_SYMBOL_FLAGS_REEXPORT = 0 \<and> uleb_field [0x10] (unat (0x10 :: u64))"
      using field [of 0] field [of "0x10"] by simp
    then show ?thesis unfolding terminal_bytes_def option.case export_terminal.case by blast
  qed
  moreover have "uleb_field [2] (length ([0, 0x10] :: bytes))" by (simp add: uleb_field_def)
  ultimately have L: "trie_at ?t 6 ?L"
    by (intro trie_at_Node [where f = "[2]" and pay = "[0, 0x10]" and rest = "[]"])
      (simp_all add: edges_at_None)
  have "edges_at ?t (Suc (Suc 0)) (Kid [0x5F, 0x66] ?L No_Kids)"
    using L field [of 6] by (intro edges_at_Kid [where g = "[6]" and off = 6 and rest = "[2, 0, 0x10, 0]"])
      (simp_all add: edges_at_None)
  then have T: "trie_at ?t 0 ?T"
    using trie_at_Node [of 0 ?t "[0]" "[]" "Kid [0x5F, 0x66] ?L No_Kids" _ None] field [of 0]
    by (simp add: terminal_bytes_def)
  have wf: "etrie_wf ?T" by simp
  show ?thesis
    using exports_trie_refines_map [OF T wf, of "lit ''_f''" True] T
      exports_trie_refines_map [OF T wf, of "lit ''_g''" True]
    by (simp add: Let_def lit_def)
qed

text \<open>C36: on arbitrary bytes the walk returns: no index or slice bound is ever violated and the loop
  ends within its budget. The only other outcome is the overflow panic of a build with overflow
  checks, when a node's payload size exceeds the address space.\<close>

theorem exports_trie_walk_safe:
  assumes "length t < 2 ^ 63" "length symbol < 2 ^ 64"
  shows "(\<exists>r. exports_trie_walk_for_symbol oc t symbol = Ok r) \<or>
     oc \<and> exports_trie_walk_for_symbol oc t symbol = Panic Arith_Overflow"
  unfolding exports_trie_walk_for_symbol_def by (rule walk_loop_safe [OF assms])

theorem exports_trie_walk_safe_witness:
  "\<exists>r. exports_trie_walk_for_symbol False [0xFF, 0x80, 3, 1, 65, 0, 0] (lit ''A'') = Ok r"
  using exports_trie_walk_safe [of "[0xFF, 0x80, 3, 1, 65, 0, 0]" "lit ''A''" False]
  by (simp add: lit_def)

end
