(* ===== verification/Macho_Image.thy ===== *)
theory Macho_Image
  imports Exports_Trie Fixed_Vec
begin

text \<open>
  \<open>src/src/macho_image.rs\<close> (the exports trie apart) and \<open>src/src/image.rs\<close>: the walk over the load
  commands of an image, the queries built on it, the load command iterator, and the symbol and
  segment types. \<open>lc_scan\<close> is the specification of the walk: the commands in file order and the way
  the enumeration ends. Every query is shown equal to a list computation over it.
\<close>

section \<open>Image types\<close>

definition SYMBOL_NAME_LEN :: nat where
  "SYMBOL_NAME_LEN = 128"

record segment =
  sm_file_offset :: usize
  sm_vm_addr :: u64
  sm_vm_size :: usize
  sm_prot :: u32

datatype thread_local_kind = Variable | Regular | Zerofill | InitFunctionPointers

record symbol =
  sy_lib_ordinal :: u8
  sy_name :: fixed_string
  sy_impl_offset :: usize
  sy_sect_num :: u8
  sy_value :: usize
  sy_is_weak :: bool
  sy_is_thumb :: bool
  sy_is_cold :: bool

definition make_undefined :: "fixed_string \<Rightarrow> u8 \<Rightarrow> bool \<Rightarrow> symbol" where
  "make_undefined name lib_ordinal is_weak =
     \<lparr>sy_lib_ordinal = lib_ordinal, sy_name = name, sy_impl_offset = 0, sy_sect_num = 0, sy_value = 0,
      sy_is_weak = is_weak, sy_is_thumb = False, sy_is_cold = False\<rparr>"

definition make_regular_local :: "fixed_string \<Rightarrow> usize \<Rightarrow> u8 \<Rightarrow> bool \<Rightarrow> bool \<Rightarrow> symbol" where
  "make_regular_local name image_offset sect_num is_cold is_thumb =
     \<lparr>sy_lib_ordinal = SELF_LIBRARY_ORDINAL, sy_name = name, sy_impl_offset = image_offset,
      sy_sect_num = sect_num, sy_value = 0, sy_is_weak = False, sy_is_thumb = is_thumb,
      sy_is_cold = is_cold\<rparr>"

definition make_regular_export :: "fixed_string \<Rightarrow> usize \<Rightarrow> u8 \<Rightarrow> bool \<Rightarrow> bool \<Rightarrow> symbol" where
  "make_regular_export name image_offset sect_num is_cold is_thumb =
     \<lparr>sy_lib_ordinal = SELF_LIBRARY_ORDINAL, sy_name = name, sy_impl_offset = image_offset,
      sy_sect_num = sect_num, sy_value = 0, sy_is_weak = False, sy_is_thumb = is_thumb,
      sy_is_cold = is_cold\<rparr>"

definition make_weak_def_export :: "fixed_string \<Rightarrow> usize \<Rightarrow> u8 \<Rightarrow> bool \<Rightarrow> bool \<Rightarrow> symbol" where
  "make_weak_def_export name image_offset sect_num is_cold is_thumb =
     \<lparr>sy_lib_ordinal = SELF_LIBRARY_ORDINAL, sy_name = name, sy_impl_offset = image_offset,
      sy_sect_num = sect_num, sy_value = 0, sy_is_weak = True, sy_is_thumb = is_thumb,
      sy_is_cold = is_cold\<rparr>"

definition array_string_cmp :: "symbol \<Rightarrow> fixed_string \<Rightarrow> bool res" where
  "array_string_cmp s other =
     rbind (fs_as_str (sy_name s)) (\<lambda>a. rbind (fs_as_str other) (\<lambda>b. Ok (a = b)))"

definition SECTION_TYPE_MASK :: u32 where
  [const_defs]: "SECTION_TYPE_MASK = 0x000000ff"

definition section_type_names :: "string list" where
  "section_type_names =
     [''S_REGULAR'', ''S_ZEROFILL'', ''S_CSTRING_LITERALS'', ''S_4BYTE_LITERALS'',
      ''S_8BYTE_LITERALS'', ''S_LITERAL_POINTERS'', ''S_NON_LAZY_SYMBOL_POINTERS'',
      ''S_LAZY_SYMBOL_POINTERS'', ''S_SYMBOL_STUBS'', ''S_MOD_INIT_FUNC_POINTERS'',
      ''S_MOD_TERM_FUNC_POINTERS'', ''S_COALESCED'', ''S_GB_ZEROFILL'', ''S_INTERPOSING'',
      ''S_16BYTE_LITERALS'', ''S_DTRACE_DOF'', ''S_LAZY_DYLIB_SYMBOL_POINTERS'',
      ''S_THREAD_LOCAL_REGULAR'', ''S_THREAD_LOCAL_ZEROFILL'', ''S_THREAD_LOCAL_VARIABLES'',
      ''S_THREAD_LOCAL_VARIABLE_POINTERS'', ''S_THREAD_LOCAL_INIT_FUNCTION_POINTERS'',
      ''S_INIT_FUNC_OFFSETS'']"

definition section_type_name :: "u32 \<Rightarrow> string" where
  "section_type_name flags =
     (let t = unat (flags AND SECTION_TYPE_MASK) in
      if t \<le> 0x16 then section_type_names ! t else ''S_UNKNOWN'')"

section \<open>The load command iterator\<close>

record lc_iterator =
  li_container :: container
  li_offset :: usize
  li_remaining :: usize

definition lc_try_with_container :: "env \<Rightarrow> container \<Rightarrow> lc_iterator res" where
  "lc_try_with_container E c =
     rbind (ok_or LCIter_Create (deserialize_type_at_offset (pread_mach_header_64 E) c 0)) (\<lambda>h.
     Ok \<lparr>li_container = c, li_offset = of_nat (size_of mach_header_64_layout),
         li_remaining = ucast (mh_ncmds h)\<rparr>)"

definition lc_try_next :: "env \<Rightarrow> lc_iterator \<Rightarrow> (load_command option \<times> lc_iterator) res" where
  "lc_try_next E it =
     (if li_remaining it = 0 then Ok (None, it)
      else rbind (ok_or LCIter_Next (deserialize_type_at_offset (pread_load_command E) (li_container it) (li_offset it))) (\<lambda>lc.
           rbind (wadd (overflow_checks E) (li_offset it) (ucast (lc_cmdsize lc))) (\<lambda>off.
           rbind (wsub (overflow_checks E) (li_remaining it) 1) (\<lambda>rem.
           Ok (Some lc, it\<lparr>li_offset := off, li_remaining := rem\<rparr>)))))"

section \<open>Queries on an image\<close>

definition MAX_REEXPORT_RESOLUTION_DEPTH :: nat where
  "MAX_REEXPORT_RESOLUTION_DEPTH = 16"

record linkedit_segment =
  le_vmaddr :: u64
  le_fileoff :: u64

record macho_image =
  im_container :: container
  im_mach_header_offset :: usize

definition macho_image_new :: "container \<Rightarrow> usize \<Rightarrow> macho_image" where
  "macho_image_new c off = \<lparr>im_container = c, im_mach_header_offset = off\<rparr>"

definition mach_header_read :: "env \<Rightarrow> macho_image \<Rightarrow> mach_header_64 res" where
  "mach_header_read E im =
     ok_or Img_No_Header
       (deserialize_type_at_offset (pread_mach_header_64 E) (im_container im) (im_mach_header_offset im))"

text \<open>The closure \<open>visit\<close> may capture mutable state; it is threaded as \<open>'s\<close>.\<close>

type_synonym ('a, 's) lc_visitor = "load_command_variants \<Rightarrow> usize \<Rightarrow> 's \<Rightarrow> ('a option \<times> 's) res"

fun find_loop :: "env \<Rightarrow> container \<Rightarrow> ('a, 's) lc_visitor \<Rightarrow> nat \<Rightarrow> usize \<Rightarrow> 's \<Rightarrow> ('a option \<times> 's) res" where
  "find_loop E c visit 0 command_offset s = Ok (None, s)"
| "find_loop E c visit (Suc n) command_offset s =
     rbind (ok_or Img_No_Load_Command (deserialize_type_at_offset (pread_load_command E) c command_offset)) (\<lambda>lc.
     rbind (visit (lc_cmd lc) command_offset s) (\<lambda>(r, s').
     case r of
       Some found \<Rightarrow> Ok (Some found, s')
     | None \<Rightarrow>
         rbind (wadd (overflow_checks E) command_offset (ucast (lc_cmdsize lc))) (\<lambda>command_offset.
         find_loop E c visit n command_offset s')))"

definition load_commands_find ::
  "env \<Rightarrow> macho_image \<Rightarrow> ('a, 's) lc_visitor \<Rightarrow> 's \<Rightarrow> ('a option \<times> 's) res" where
  "load_commands_find E im visit s =
     rbind (mach_header_read E im) (\<lambda>header.
     rbind (wadd (overflow_checks E) (im_mach_header_offset im) (of_nat (size_of mach_header_64_layout))) (\<lambda>off.
     find_loop E (im_container im) visit (unat (mh_ncmds header)) off s))"

definition dylib_install_name_read :: "env \<Rightarrow> macho_image \<Rightarrow> usize \<Rightarrow> bytes res" where
  "dylib_install_name_read E im command_offset =
     rbind (ok_or Img_No_Dylib_Header
        (deserialize_type_at_offset (pread_dylib_command_header E) (im_container im) command_offset)) (\<lambda>h.
     rbind (wadd (overflow_checks E) command_offset (ucast (dh_name_offset h))) (\<lambda>off.
     rbind (deserialize_cstr_at_offset (im_container im) off) (\<lambda>cs.
     Ok (cstr_to_bytes cs))))"

record exports_trie_span =
  ts_file_offset :: u32
  ts_size_in_bytes :: u32

definition exports_trie_span_visit :: "env \<Rightarrow> macho_image \<Rightarrow> (exports_trie_span, unit) lc_visitor" where
  "exports_trie_span_visit E im cmd off s =
     (case cmd of
        LC_DYLD_EXPORTS_TRIE \<Rightarrow>
          rbind (ok_or Img_No_Linkedit_Data
            (deserialize_type_at_offset (pread_linkedit_data_command E) (im_container im) off)) (\<lambda>d.
          Ok (Some \<lparr>ts_file_offset = ld_dataoff d, ts_size_in_bytes = ld_datasize d\<rparr>, s))
      | LC_DYLD_INFO_ONLY \<Rightarrow>
          rbind (ok_or Img_No_Dyld_Info
            (deserialize_type_at_offset (pread_dyld_info_command E) (im_container im) off)) (\<lambda>d.
          Ok (Some \<lparr>ts_file_offset = di_export_off d, ts_size_in_bytes = di_export_size d\<rparr>, s))
      | _ \<Rightarrow> Ok (None, s))"

definition exports_trie_span_find :: "env \<Rightarrow> macho_image \<Rightarrow> exports_trie_span option res" where
  "exports_trie_span_find E im =
     rbind (load_commands_find E im (exports_trie_span_visit E im) ()) (\<lambda>(r, _). Ok r)"

definition is_dylib_dependency_command :: "load_command_variants \<Rightarrow> bool" where
  "is_dylib_dependency_command cmd \<longleftrightarrow> cmd = LC_LOAD_DYLIB \<or> cmd = LC_REEXPORT_DYLIB"

definition install_path_visit :: "env \<Rightarrow> macho_image \<Rightarrow> u64 \<Rightarrow> (bytes, u64) lc_visitor" where
  "install_path_visit E im target_ordinal cmd off seen =
     (if \<not> is_dylib_dependency_command cmd then Ok (None, seen)
      else rbind (wadd (overflow_checks E) seen 1) (\<lambda>seen.
        if seen = target_ordinal
        then rbind (dylib_install_name_read E im off) (\<lambda>p. Ok (Some p, seen))
        else Ok (None, seen)))"

definition dylib_install_path_for_ordinal :: "env \<Rightarrow> macho_image \<Rightarrow> u64 \<Rightarrow> bytes option res" where
  "dylib_install_path_for_ordinal E im target_ordinal =
     rbind (load_commands_find E im (install_path_visit E im target_ordinal) 0) (\<lambda>(r, _). Ok r)"

definition reexported_visit :: "env \<Rightarrow> macho_image \<Rightarrow> (unit, bytes list) lc_visitor" where
  "reexported_visit E im cmd off paths =
     (if cmd = LC_REEXPORT_DYLIB then
        (case dylib_install_name_read E im off of
           Ok p \<Rightarrow> Ok (None, paths @ [p])
         | Err _ \<Rightarrow> Ok (None, paths)
         | Panic p \<Rightarrow> Panic p
         | Diverge \<Rightarrow> Diverge)
      else Ok (None, paths))"

definition reexported_dylib_paths_collect :: "env \<Rightarrow> macho_image \<Rightarrow> bytes list res" where
  "reexported_dylib_paths_collect E im =
     rbind (load_commands_find E im (reexported_visit E im) []) (\<lambda>(_, paths). Ok paths)"

definition linkedit_visit :: "env \<Rightarrow> macho_image \<Rightarrow> (linkedit_segment, unit) lc_visitor" where
  "linkedit_visit E im cmd off s =
     (if cmd = LC_SEGMENT_64 then
        rbind (ok_or Img_No_Segment
          (deserialize_type_at_offset (pread_segment_command_64 E) (im_container im) off)) (\<lambda>seg.
        rbind (slice_range (sg_segname seg) 0 10) (\<lambda>name.
        Ok (if name = lit ''__LINKEDIT''
            then Some \<lparr>le_vmaddr = sg_vmaddr seg, le_fileoff = sg_fileoff seg\<rparr> else None, s)))
      else Ok (None, s))"

definition linkedit_segment_find :: "env \<Rightarrow> macho_image \<Rightarrow> linkedit_segment option res" where
  "linkedit_segment_find E im =
     rbind (load_commands_find E im (linkedit_visit E im) ()) (\<lambda>(r, _). Ok r)"

section \<open>Specification: the commands in file order\<close>

text \<open>The commands with their offsets, and how the enumeration ends: after \<open>n\<close> commands, at one that
  cannot be read, or at an offset that overflows.\<close>

fun lc_scan :: "env \<Rightarrow> container \<Rightarrow> nat \<Rightarrow> usize \<Rightarrow> (load_command \<times> usize) list \<times> unit res" where
  "lc_scan E c 0 off = ([], Ok ())"
| "lc_scan E c (Suc n) off =
     (case deserialize_type_at_offset (pread_load_command E) c off of
        None \<Rightarrow> ([], Err Img_No_Load_Command)
      | Some lc \<Rightarrow>
          (case wadd (overflow_checks E) off (ucast (lc_cmdsize lc)) of
             Ok off' \<Rightarrow> ((lc, off) # fst (lc_scan E c n off'), snd (lc_scan E c n off'))
           | _ \<Rightarrow> ([(lc, off)], Panic Arith_Overflow)))"

definition image_scan :: "env \<Rightarrow> macho_image \<Rightarrow> ((load_command \<times> usize) list \<times> unit res) res" where
  "image_scan E im =
     rbind (mach_header_read E im) (\<lambda>h.
     rbind (wadd (overflow_checks E) (im_mach_header_offset im) 32) (\<lambda>off.
     Ok (lc_scan E (im_container im) (unat (mh_ncmds h)) off)))"

fun visit_all :: "('a, 's) lc_visitor \<Rightarrow> (load_command \<times> usize) list \<Rightarrow> 's \<Rightarrow> ('a option \<times> 's) res" where
  "visit_all visit [] s = Ok (None, s)"
| "visit_all visit ((lc, off) # cs) s =
     rbind (visit (lc_cmd lc) off s) (\<lambda>(r, s').
       case r of Some x \<Rightarrow> Ok (Some x, s') | None \<Rightarrow> visit_all visit cs s')"

definition is_dependency :: "load_command \<times> usize \<Rightarrow> bool" where
  "is_dependency c \<longleftrightarrow> lc_cmd (fst c) \<in> {LC_LOAD_DYLIB, LC_REEXPORT_DYLIB}"

lemma is_dependency_iff: "is_dependency c \<longleftrightarrow> is_dylib_dependency_command (lc_cmd (fst c))"
  by (simp add: is_dependency_def is_dylib_dependency_command_def)

lemma length_lc_scan: "length (fst (lc_scan E c n off)) \<le> n"
  by (induction n arbitrary: off) (auto split: option.split res.split)

lemma find_loop_scan:
  "find_loop E c visit n off s =
     rbind (visit_all visit (fst (lc_scan E c n off)) s) (\<lambda>(r, s').
       case r of Some x \<Rightarrow> Ok (Some x, s')
       | None \<Rightarrow> rbind (snd (lc_scan E c n off)) (\<lambda>_. Ok (None, s')))"
proof (induction n arbitrary: off s)
  case 0
  then show ?case by simp
next
  case (Suc n)
  show ?case
  proof (cases "deserialize_type_at_offset (pread_load_command E) c off")
    case None
    then show ?thesis by simp
  next
    case (Some lc)
    let ?w = "wadd (overflow_checks E) off (ucast (lc_cmdsize lc))"
    have "?w = Panic Arith_Overflow \<or> (\<exists>off'. ?w = Ok off')" by (simp add: wadd_def)
    with Some show ?thesis
      by (elim disjE exE) (auto simp: Suc.IH rbind_assoc case_prod_beta intro!: rbind_cong
          split: option.split)
  qed
qed

lemma load_commands_find_scan:
  "load_commands_find E im visit s =
     rbind (image_scan E im) (\<lambda>(cs, fin).
     rbind (visit_all visit cs s) (\<lambda>(r, s').
       case r of Some x \<Rightarrow> Ok (Some x, s') | None \<Rightarrow> rbind fin (\<lambda>_. Ok (None, s'))))"
  by (simp add: load_commands_find_def image_scan_def find_loop_scan rbind_assoc case_prod_beta)

lemma image_scan_length:
  "image_scan E im = Ok (cs, fin) \<Longrightarrow> length cs < 2 ^ 32"
proof -
  assume "image_scan E im = Ok (cs, fin)"
  then obtain h :: mach_header_64 and off where "lc_scan E (im_container im) (unat (mh_ncmds h)) off = (cs, fin)"
    by (auto simp: image_scan_def res_simps)
  then have "length cs \<le> unat (mh_ncmds h)"
    using length_lc_scan [of E "im_container im" "unat (mh_ncmds h)" off] by simp
  also have "\<dots> < 2 ^ 32" using unsigned_less [of "mh_ncmds h", where ?'a = nat] by simp
  finally show ?thesis .
qed

text \<open>Counting dependencies with \<open>seen\<close> reaches the requested one after skipping the others.\<close>

lemma visit_install_path:
  "n + length cs < 2 ^ 64 \<Longrightarrow> n < unat k \<or> k = 0 \<Longrightarrow>
   visit_all (install_path_visit E im k) cs (of_nat n) =
     (let ds = filter is_dependency cs in
      if k \<noteq> 0 \<and> unat k \<le> n + length ds
      then rbind (dylib_install_name_read E im (snd (ds ! (unat k - n - 1)))) (\<lambda>p. Ok (Some p, k))
      else Ok (None, of_nat (n + length ds)))"
proof (induction cs arbitrary: n)
  case Nil
  then show ?case by auto
next
  case (Cons d cs)
  obtain lc off where d: "d = (lc, off)" by fastforce
  show ?case
  proof (cases "is_dependency d")
    case False
    with Cons show ?thesis by (simp add: d install_path_visit_def is_dependency_iff)
  next
    case True
    have add: "wadd (overflow_checks E) (of_nat n) 1 = Ok (of_nat (Suc n) :: u64)"
      using wadd_of_nat [of n 1, where ?'a = 64] Cons.prems(1) by simp
    have eq: "(of_nat (Suc n) :: u64) = k \<longleftrightarrow> Suc n = unat k"
      using of_nat_eq_fits [of "Suc n" "unat k", where ?'a = 64] Cons.prems(1)
        unsigned_less [of k, where ?'a = nat] by simp
    show ?thesis
    proof (cases "Suc n = unat k")
      case True
      with \<open>is_dependency d\<close> add eq show ?thesis
        by (auto simp: Let_def d install_path_visit_def is_dependency_iff rbind_assoc unat_eq_zero [symmetric]
            simp del: of_nat_Suc unat_eq_zero)
    next
      case False
      have "visit_all (install_path_visit E im k) (d # cs) (of_nat n) =
          visit_all (install_path_visit E im k) cs (of_nat (Suc n))"
        using \<open>is_dependency d\<close> add eq False
        by (simp add: d install_path_visit_def is_dependency_iff del: of_nat_Suc)
      moreover have "k \<noteq> 0 \<Longrightarrow> Suc n < unat k" using Cons.prems(2) False by auto
      ultimately show ?thesis
        using Cons.IH [of "Suc n"] Cons.prems \<open>is_dependency d\<close>
        by (auto simp: Let_def nth_Cons' simp del: of_nat_Suc)
    qed
  qed
qed

text \<open>The load commands ordinals are documented to count (\<open>bindings_macho.rs\<close>, lines 1253 to 1257), and the
  install name of the \<open>k\<close>-th of the commands in \<open>counted\<close>, from 1, in file order.\<close>

definition ordinal_commands :: "load_command_variants set" where
  "ordinal_commands = {LC_LOAD_DYLIB, LC_LOAD_WEAK_DYLIB, LC_REEXPORT_DYLIB, LC_LOAD_UPWARD_DYLIB, LC_LAZY_LOAD_DYLIB}"

definition nth_install_path :: "env \<Rightarrow> macho_image \<Rightarrow> load_command_variants set \<Rightarrow> u64 \<Rightarrow> bytes option res" where
  "nth_install_path E im counted k =
     rbind (image_scan E im) (\<lambda>(cs, fin).
       let ds = filter (\<lambda>c. lc_cmd (fst c) \<in> counted) cs in
       if k \<noteq> 0 \<and> unat k \<le> length ds
       then rbind (dylib_install_name_read E im (snd (ds ! (unat k - 1)))) (\<lambda>p. Ok (Some p))
       else rbind fin (\<lambda>_. Ok None))"

lemma install_path_counts:
  "dylib_install_path_for_ordinal E im k = nth_install_path E im {LC_LOAD_DYLIB, LC_REEXPORT_DYLIB} k"
proof -
  have dep: "filter (\<lambda>c. lc_cmd (fst c) \<in> {LC_LOAD_DYLIB, LC_REEXPORT_DYLIB}) cs = filter is_dependency cs" for cs :: "(load_command \<times> usize) list"
    by (rule filter_cong) (simp_all add: is_dependency_def)
  have "visit_all (install_path_visit E im k) cs 0 =
      (let ds = filter is_dependency cs in
       if k \<noteq> 0 \<and> unat k \<le> length ds
       then rbind (dylib_install_name_read E im (snd (ds ! (unat k - 1)))) (\<lambda>p. Ok (Some p, k))
       else Ok (None, of_nat (length ds)))"
    if "image_scan E im = Ok (cs, fin)" for cs fin
    using visit_install_path [of 0 cs k E im] image_scan_length [OF that] by (auto simp: unat_gt_0 Let_def)
  then show ?thesis
    unfolding dylib_install_path_for_ordinal_def nth_install_path_def load_commands_find_scan rbind_assoc dep
    by (auto intro!: rbind_cong simp: rbind_assoc Let_def)
qed

lemma nth_install_path_cong:
  assumes "\<And>cs fin c. image_scan E im = Ok (cs, fin) \<Longrightarrow> c \<in> set cs \<Longrightarrow> lc_cmd (fst c) \<in> A \<longleftrightarrow> lc_cmd (fst c) \<in> B"
  shows "nth_install_path E im A k = nth_install_path E im B k"
  unfolding nth_install_path_def
proof (rule rbind_cong [OF refl])
  fix r assume r: "image_scan E im = Ok r"
  obtain cs fin where p: "r = (cs, fin)" by fastforce
  have "filter (\<lambda>c. lc_cmd (fst c) \<in> A) cs = filter (\<lambda>c. lc_cmd (fst c) \<in> B) cs"
    using assms r p by (intro filter_cong) auto
  then show "(case r of (cs, fin) \<Rightarrow> let ds = filter (\<lambda>c. lc_cmd (fst c) \<in> A) cs in
       if k \<noteq> 0 \<and> unat k \<le> length ds
       then rbind (dylib_install_name_read E im (snd (ds ! (unat k - 1)))) (\<lambda>p. Ok (Some p))
       else rbind fin (\<lambda>_. Ok None)) = (case r of (cs, fin) \<Rightarrow> let ds = filter (\<lambda>c. lc_cmd (fst c) \<in> B) cs in
       if k \<noteq> 0 \<and> unat k \<le> length ds
       then rbind (dylib_install_name_read E im (snd (ds ! (unat k - 1)))) (\<lambda>p. Ok (Some p))
       else rbind fin (\<lambda>_. Ok None))"
    by (simp add: p)
qed

definition is_reexport :: "load_command \<times> usize \<Rightarrow> bool" where
  "is_reexport c \<longleftrightarrow> lc_cmd (fst c) = LC_REEXPORT_DYLIB"

text \<open>The successful results in order; errors are skipped, a panic is not.\<close>

fun keep_ok :: "'a res list \<Rightarrow> 'a list res" where
  "keep_ok [] = Ok []"
| "keep_ok (r # rs) =
     (case r of Ok x \<Rightarrow> rbind (keep_ok rs) (\<lambda>xs. Ok (x # xs)) | Err _ \<Rightarrow> keep_ok rs
      | Panic p \<Rightarrow> Panic p | Diverge \<Rightarrow> Diverge)"

lemma visit_reexported:
  "visit_all (reexported_visit E im) cs ps =
     rbind (keep_ok (map (\<lambda>c. dylib_install_name_read E im (snd c)) (filter is_reexport cs)))
       (\<lambda>qs. Ok (None, ps @ qs))"
proof (induction cs arbitrary: ps)
  case Nil
  then show ?case by simp
next
  case (Cons d cs)
  then show ?case
    by (cases d) (auto simp: reexported_visit_def is_reexport_def rbind_assoc split: res.split)
qed

section \<open>The iterator walks the same commands\<close>

lemma lc_try_next_shrinks:
  assumes "lc_try_next E it = Ok (Some lc, it')"
  shows "unat (li_remaining it') < unat (li_remaining it)"
proof -
  from assms have "li_remaining it' = li_remaining it - 1" "li_remaining it \<noteq> 0"
    by (auto simp: lc_try_next_def res_simps split: if_splits)
  then show ?thesis by (simp add: unat_pred unat_gt_0)
qed

text \<open>\<open>while let Some(command) = iterator.try_next()?\<close>\<close>

function lc_iter_all :: "env \<Rightarrow> lc_iterator \<Rightarrow> load_command list res" where
  "lc_iter_all E it =
     rbind (lc_try_next E it) (\<lambda>r. case fst r of
       None \<Rightarrow> Ok []
     | Some lc \<Rightarrow> rbind (lc_iter_all E (snd r)) (\<lambda>lcs. Ok (lc # lcs)))"
  by pat_completeness auto
termination
  by (relation "measure (\<lambda>(E, it). unat (li_remaining it))") (auto dest: lc_try_next_shrinks)

declare lc_iter_all.simps [simp del]

lemma lc_iter_all_scan:
  "unat (li_remaining it) = n \<Longrightarrow>
     lc_iter_all E it = (case lc_scan E (li_container it) n (li_offset it) of (cs, fin) \<Rightarrow>
       case fin of Ok _ \<Rightarrow> Ok (map fst cs) | Err _ \<Rightarrow> Err LCIter_Next | Panic p \<Rightarrow> Panic p
       | Diverge \<Rightarrow> Diverge)"
proof (induction n arbitrary: it)
  case 0
  then have "li_remaining it = 0" by (simp add: unat_eq_zero)
  then show ?case by (subst lc_iter_all.simps) (simp add: lc_try_next_def)
next
  case (Suc n)
  then have rem: "li_remaining it \<noteq> 0" by auto
  then have n: "unat (li_remaining it - 1) = n"
    using Suc.prems by (simp add: unat_pred)
  have sub: "wsub (overflow_checks E) (li_remaining it) 1 = Ok (li_remaining it - 1)"
    using Suc.prems by simp
  show ?case
  proof (cases "deserialize_type_at_offset (pread_load_command E) (li_container it) (li_offset it)")
    case None
    with rem show ?thesis by (subst lc_iter_all.simps) (simp add: lc_try_next_def)
  next
    case (Some lc)
    let ?w = "wadd (overflow_checks E) (li_offset it) (ucast (lc_cmdsize lc))"
    have "?w = Panic Arith_Overflow \<or> (\<exists>off'. ?w = Ok off')" by (simp add: wadd_def)
    then show ?thesis
    proof (elim disjE exE)
      assume "?w = Panic Arith_Overflow"
      with Some rem show ?thesis by (subst lc_iter_all.simps) (simp add: lc_try_next_def)
    next
      fix off' assume w: "?w = Ok off'"
      let ?it' = "it\<lparr>li_offset := off', li_remaining := li_remaining it - 1\<rparr>"
      have "lc_iter_all E it = rbind (lc_iter_all E ?it') (\<lambda>lcs. Ok (lc # lcs))"
        by (subst lc_iter_all.simps) (simp only: lc_try_next_def rem Some w sub ok_or_simps
            rbind.simps if_False fst_conv snd_conv option.case)
      then show ?thesis
        using Suc.IH [of ?it'] n Some w by (auto split: res.split prod.split)
    qed
  qed
qed

context scroll_bounds
begin

lemma lc_scan_in_bounds:
  "(lc, p) \<in> set (fst (lc_scan E c n off)) \<Longrightarrow> unat p + 8 \<le> length (c_data c)"
proof (induction n arbitrary: off)
  case 0
  then show ?case by simp
next
  case (Suc n)
  then show ?case
    by (auto simp: deserialize_type_at_offset_def dest: load_command_in_bounds
        split: option.splits res.splits)
qed

end

section \<open>A sample image\<close>

text \<open>An image with two load commands, \<open>LC_LOAD_DYLIB\<close> and \<open>LC_SYMTAB\<close>.\<close>

definition sample_image :: bytes where
  "sample_image = [0xCF,0xFA,0xED,0xFE, 0x0C,0,0,1, 0,0,0,0, 2,0,0,0, 2,0,0,0, 48,0,0,0, 0,0,0,0, 0,0,0,0,
     0x0C,0,0,0, 32,0,0,0, 24,0,0,0, 0,0,0,0, 0,0,0,0, 0,0,0,0, 0x2F,0x61,0,0, 0,0,0,0,
     0x2,0,0,0, 8,0,0,0]"

lemma sample_image_scan:
  "image_scan (scroll_ref oc) (macho_image_new (with_bytes sample_image Little) 0) =
     Ok ([(\<lparr>lc_cmd = LC_LOAD_DYLIB, lc_cmdsize = 32\<rparr>, 32), (\<lparr>lc_cmd = LC_SYMTAB, lc_cmdsize = 8\<rparr>, 64)], Ok ())"
proof -
  have h: "mach_header_read (scroll_ref oc) (macho_image_new (with_bytes sample_image Little) 0) =
     Ok \<lparr>mh_magic = MH_MAGIC_64, mh_cputype = 0x100000C, mh_cpusubtype = 0, mh_filetype = MH_EXECUTE,
         mh_ncmds = 2, mh_sizeofcmds = 48, mh_flags = 0, mh_reserved = 0\<rparr>"
    by (simp add: mach_header_read_def macho_image_new_def with_bytes_def deserialize_type_at_offset_def
      sample_image_def scroll_ref_def p_mach_header_64_def parser_simps)
  have l: "pread_load_command (scroll_ref oc) Little sample_image 32 = Some \<lparr>lc_cmd = LC_LOAD_DYLIB, lc_cmdsize = 32\<rparr>"
    "pread_load_command (scroll_ref oc) Little sample_image 64 = Some \<lparr>lc_cmd = LC_SYMTAB, lc_cmdsize = 8\<rparr>"
    by (simp_all add: sample_image_def scroll_ref_def p_load_command_def parser_simps)
  have "lc_scan (scroll_ref oc) (with_bytes sample_image Little) 2 32 =
      ([(\<lparr>lc_cmd = LC_LOAD_DYLIB, lc_cmdsize = 32\<rparr>, 32), (\<lparr>lc_cmd = LC_SYMTAB, lc_cmdsize = 8\<rparr>, 64)], Ok ())"
    by (simp only: numeral_2_eq_2 lc_scan.simps) (simp add: with_bytes_def deserialize_type_at_offset_def l)
  then show ?thesis
    unfolding image_scan_def h by (simp add: macho_image_new_def)
qed

lemma sample_image_name:
  "dylib_install_name_read (scroll_ref oc) (macho_image_new (with_bytes sample_image Little) 0) 32 = Ok [0x2F, 0x61]"
  by (simp add: dylib_install_name_read_def deserialize_type_at_offset_def deserialize_cstr_at_offset_def macho_image_new_def with_bytes_def
      sample_image_def scroll_ref_def p_dylib_command_header_def parser_simps cstr_from_bytes_with_nul_def cstr_to_bytes_def)

text \<open>Two libraries, \<open>/a\<close> by \<open>LC_LOAD_WEAK_DYLIB\<close> and then \<open>/b\<close> by \<open>LC_LOAD_DYLIB\<close>.\<close>

definition weak_image :: bytes where
  "weak_image = [0xCF,0xFA,0xED,0xFE, 0x0C,0,0,1, 0,0,0,0, 2,0,0,0, 2,0,0,0, 64,0,0,0, 0,0,0,0, 0,0,0,0,
     0x18,0,0,0x80, 32,0,0,0, 24,0,0,0, 0,0,0,0, 0,0,0,0, 0,0,0,0, 0x2F,0x61,0,0, 0,0,0,0,
     0x0C,0,0,0, 32,0,0,0, 24,0,0,0, 0,0,0,0, 0,0,0,0, 0,0,0,0, 0x2F,0x62,0,0, 0,0,0,0]"

lemma weak_image_scan:
  "image_scan (scroll_ref oc) (macho_image_new (with_bytes weak_image Little) 0) =
     Ok ([(\<lparr>lc_cmd = LC_LOAD_WEAK_DYLIB, lc_cmdsize = 32\<rparr>, 32), (\<lparr>lc_cmd = LC_LOAD_DYLIB, lc_cmdsize = 32\<rparr>, 64)], Ok ())"
proof -
  have h: "mach_header_read (scroll_ref oc) (macho_image_new (with_bytes weak_image Little) 0) =
     Ok \<lparr>mh_magic = MH_MAGIC_64, mh_cputype = 0x100000C, mh_cpusubtype = 0, mh_filetype = MH_EXECUTE,
         mh_ncmds = 2, mh_sizeofcmds = 64, mh_flags = 0, mh_reserved = 0\<rparr>"
    by (simp add: mach_header_read_def macho_image_new_def with_bytes_def deserialize_type_at_offset_def
      weak_image_def scroll_ref_def p_mach_header_64_def parser_simps)
  have l: "pread_load_command (scroll_ref oc) Little weak_image 32 = Some \<lparr>lc_cmd = LC_LOAD_WEAK_DYLIB, lc_cmdsize = 32\<rparr>"
    "pread_load_command (scroll_ref oc) Little weak_image 64 = Some \<lparr>lc_cmd = LC_LOAD_DYLIB, lc_cmdsize = 32\<rparr>"
    by (simp_all add: weak_image_def scroll_ref_def p_load_command_def parser_simps const_defs)
  have "lc_scan (scroll_ref oc) (with_bytes weak_image Little) 2 32 =
      ([(\<lparr>lc_cmd = LC_LOAD_WEAK_DYLIB, lc_cmdsize = 32\<rparr>, 32), (\<lparr>lc_cmd = LC_LOAD_DYLIB, lc_cmdsize = 32\<rparr>, 64)], Ok ())"
    by (simp only: numeral_2_eq_2 lc_scan.simps) (simp add: with_bytes_def deserialize_type_at_offset_def l)
  then show ?thesis
    unfolding image_scan_def h by (simp add: macho_image_new_def)
qed

lemma weak_image_names:
  "dylib_install_name_read (scroll_ref oc) (macho_image_new (with_bytes weak_image Little) 0) 32 = Ok [0x2F, 0x61]"
  "dylib_install_name_read (scroll_ref oc) (macho_image_new (with_bytes weak_image Little) 0) 64 = Ok [0x2F, 0x62]"
  by (simp_all add: dylib_install_name_read_def deserialize_type_at_offset_def deserialize_cstr_at_offset_def macho_image_new_def with_bytes_def
      weak_image_def scroll_ref_def p_dylib_command_header_def parser_simps cstr_from_bytes_with_nul_def cstr_to_bytes_def)

section \<open>Properties\<close>

text \<open>C34: ordinals name dependencies. \<open>dylib_install_path_for_ordinal\<close> returns the install name of the
  \<open>k\<close>-th of the commands \<open>LC_LOAD_DYLIB\<close> and \<open>LC_REEXPORT_DYLIB\<close> in file order, counting from 1, and
  \<open>None\<close> for ordinal 0 and for ordinals past the last of them once every command has been read; errors
  and panics are those of the header, of the install name it reads, or of the rest of the enumeration.
  That is not the documented count, which has weak, upward and lazy libraries too: the two agree on
  images without those, and the witness has an image on which they do not.\<close>

theorem install_path_for_ordinal_nth:
  "dylib_install_path_for_ordinal E im k = nth_install_path E im {LC_LOAD_DYLIB, LC_REEXPORT_DYLIB} k \<and>
   ((\<forall>cs fin. image_scan E im = Ok (cs, fin) \<longrightarrow>
       (\<forall>c \<in> set cs. lc_cmd (fst c) \<notin> {LC_LOAD_WEAK_DYLIB, LC_LOAD_UPWARD_DYLIB, LC_LAZY_LOAD_DYLIB})) \<longrightarrow>
    dylib_install_path_for_ordinal E im k = nth_install_path E im ordinal_commands k)"
proof (intro conjI impI)
  show "dylib_install_path_for_ordinal E im k = nth_install_path E im {LC_LOAD_DYLIB, LC_REEXPORT_DYLIB} k"
    by (rule install_path_counts)
  then show "dylib_install_path_for_ordinal E im k = nth_install_path E im ordinal_commands k"
    if "\<forall>cs fin. image_scan E im = Ok (cs, fin) \<longrightarrow>
       (\<forall>c \<in> set cs. lc_cmd (fst c) \<notin> {LC_LOAD_WEAK_DYLIB, LC_LOAD_UPWARD_DYLIB, LC_LAZY_LOAD_DYLIB})"
    using that by (auto simp: ordinal_commands_def intro!: nth_install_path_cong)
qed

text \<open>The two counts agree on the first image, and not on the second.\<close>

theorem install_path_for_ordinal_nth_witness:
  "dylib_install_path_for_ordinal (scroll_ref True) (macho_image_new (with_bytes sample_image Little) 0) 1 = Ok (Some [0x2F, 0x61]) \<and>
   nth_install_path (scroll_ref True) (macho_image_new (with_bytes sample_image Little) 0) ordinal_commands 1 = Ok (Some [0x2F, 0x61]) \<and>
   dylib_install_path_for_ordinal (scroll_ref True) (macho_image_new (with_bytes weak_image Little) 0) 1 = Ok (Some [0x2F, 0x62]) \<and>
   nth_install_path (scroll_ref True) (macho_image_new (with_bytes weak_image Little) 0) ordinal_commands 1 = Ok (Some [0x2F, 0x61])"
proof -
  let ?E = "scroll_ref True" and ?im = "macho_image_new (with_bytes sample_image Little) 0"
    and ?wk = "macho_image_new (with_bytes weak_image Little) 0"
  note sample = install_path_for_ordinal_nth [of ?E ?im 1] and weak = install_path_for_ordinal_nth [of ?E ?wk 1]
  have "dylib_install_path_for_ordinal ?E ?im 1 = nth_install_path ?E ?im ordinal_commands 1"
    by (rule mp [OF conjunct2 [OF sample]]) (simp add: sample_image_scan)
  moreover have "nth_install_path ?E ?im ordinal_commands 1 = Ok (Some [0x2F, 0x61])"
    "nth_install_path ?E ?wk ordinal_commands 1 = Ok (Some [0x2F, 0x61])"
    by (simp_all add: nth_install_path_def sample_image_scan weak_image_scan ordinal_commands_def sample_image_name weak_image_names)
  moreover have "dylib_install_path_for_ordinal ?E ?wk 1 = Ok (Some [0x2F, 0x62])"
    unfolding conjunct1 [OF weak] by (simp add: nth_install_path_def weak_image_scan weak_image_names)
  ultimately show ?thesis by simp
qed

text \<open>\<open>reexported_dylib_paths_collect\<close> returns the install names of all re-exported libraries in
  declaration order, skipping exactly those whose header cannot be read.\<close>

theorem reexported_paths_in_order:
  "reexported_dylib_paths_collect E im =
     rbind (image_scan E im) (\<lambda>(cs, fin).
     rbind (keep_ok (map (\<lambda>c. dylib_install_name_read E im (snd c)) (filter is_reexport cs)))
       (\<lambda>paths. rbind fin (\<lambda>_. Ok paths)))"
  by (simp add: reexported_dylib_paths_collect_def load_commands_find_scan visit_reexported
      rbind_assoc case_prod_beta cong: rbind_cong)

lemma iterator_scan:
  "rbind (lc_try_with_container E c) (lc_iter_all E) =
     (case image_scan E (macho_image_new c 0) of
        Ok (cs, fin) \<Rightarrow> (case fin of Ok _ \<Rightarrow> Ok (map fst cs) | Err _ \<Rightarrow> Err LCIter_Next
                         | Panic p \<Rightarrow> Panic p | Diverge \<Rightarrow> Diverge)
      | Err _ \<Rightarrow> Err LCIter_Create | Panic p \<Rightarrow> Panic p | Diverge \<Rightarrow> Diverge)"
proof (cases "deserialize_type_at_offset (pread_mach_header_64 E) c 0")
  case None
  then show ?thesis
    by (simp add: lc_try_with_container_def image_scan_def mach_header_read_def macho_image_new_def)
next
  case (Some h)
  then show ?thesis
    by (simp add: lc_try_with_container_def image_scan_def mach_header_read_def macho_image_new_def
        lc_iter_all_scan split: prod.split)
qed

text \<open>The offsets at which commands of these sizes lie one after the other.\<close>

fun with_offsets :: "usize \<Rightarrow> load_command list \<Rightarrow> (load_command \<times> usize) list" where
  "with_offsets off [] = []"
| "with_offsets off (lc # lcs) = (lc, off) # with_offsets (off + ucast (lc_cmdsize lc)) lcs"

lemma lc_scan_offsets: "with_offsets off (map fst (fst (lc_scan E c n off))) = fst (lc_scan E c n off)"
proof (induction n arbitrary: off)
  case (Suc n)
  then show ?case by (auto simp: wadd_def split: option.split res.split if_split_asm)
qed simp

lemma lc_scan_ends:
  "snd (lc_scan E c n off) \<in> {Ok (), Err Img_No_Load_Command, Panic Arith_Overflow}"
  by (induction n arbitrary: off) (auto split: option.split res.split)

text \<open>The visitor that looks at every command.\<close>

definition collect_visit :: "(unit, load_command_variants list) lc_visitor" where
  "collect_visit cmd off cmds = Ok (None, cmds @ [cmd])"

lemma visit_collect: "visit_all collect_visit cs cmds = Ok (None, cmds @ map (\<lambda>c. lc_cmd (fst c)) cs)"
  by (induction cs arbitrary: cmds) (auto simp: collect_visit_def)

lemma visit_ends: "rbind m (\<lambda>(r, s'). case r of Some x \<Rightarrow> Ok (Some x, s') | None \<Rightarrow> rbind (Ok ()) (\<lambda>_. Ok (None, s'))) = m"
  by (cases m) (auto split: option.split)

text \<open>C40: the two walks agree. When draining the load command iterator of a container yields commands,
  \<open>load_commands_find\<close> on the image at offset 0 does with any visitor what visiting just those commands does, each
  at the offset the sizes before it add up to, to the first the visitor stops at. When the iterator fails,
  so does the walk, at the header or at a command as it did, and it panics when the walk does. Both always end.\<close>

theorem lc_iterator_agrees:
  "case rbind (lc_try_with_container E c) (lc_iter_all E) of
     Ok lcs \<Rightarrow> load_commands_find E (macho_image_new c 0) visit s = visit_all visit (with_offsets 32 lcs) s
   | Err e \<Rightarrow> (e = LCIter_Create \<and> load_commands_find E (macho_image_new c 0) visit s = Err Img_No_Header) \<or>
       (e = LCIter_Next \<and> load_commands_find E (macho_image_new c 0) collect_visit [] = Err Img_No_Load_Command)
   | Panic p \<Rightarrow> load_commands_find E (macho_image_new c 0) collect_visit [] = Panic p
   | Diverge \<Rightarrow> False"
proof (cases "image_scan E (macho_image_new c 0)")
  case (Ok r)
  obtain cs fin where r: "r = (cs, fin)" by fastforce
  from Ok obtain n where scan: "lc_scan E c n 32 = (cs, fin)"
    by (auto simp: r image_scan_def res_simps macho_image_new_def)
  have cs: "with_offsets 32 (map fst cs) = cs" and fin: "fin \<in> {Ok (), Err Img_No_Load_Command, Panic Arith_Overflow}"
    using lc_scan_offsets [of 32 E c n] lc_scan_ends [of E c n 32] by (simp_all add: scan)
  then show ?thesis
    unfolding iterator_scan load_commands_find_scan Ok r
    by (auto simp: visit_collect visit_ends)
next
  case (Err e)
  then have "e = Img_No_Header"
    by (cases "deserialize_type_at_offset (pread_mach_header_64 E) c 0")
      (auto simp: image_scan_def mach_header_read_def macho_image_new_def res_simps)
  then show ?thesis unfolding iterator_scan load_commands_find_scan Err by simp
qed (auto simp: image_scan_def mach_header_read_def macho_image_new_def res_simps)

theorem lc_iterator_agrees_witness:
  "load_commands_find (scroll_ref True) (macho_image_new (with_bytes sample_image Little) 0)
     (\<lambda>cmd off seen. Ok (if cmd = LC_SYMTAB then Some off else None, seen + 1)) (0 :: int) = Ok (Some 64, 2)"
proof -
  have "rbind (lc_try_with_container (scroll_ref True) (with_bytes sample_image Little)) (lc_iter_all (scroll_ref True)) =
      Ok [\<lparr>lc_cmd = LC_LOAD_DYLIB, lc_cmdsize = 32\<rparr>, \<lparr>lc_cmd = LC_SYMTAB, lc_cmdsize = 8\<rparr>]"
    by (simp add: iterator_scan sample_image_scan)
  with lc_iterator_agrees [of "scroll_ref True" "with_bytes sample_image Little"
      "\<lambda>cmd off seen. Ok (if cmd = LC_SYMTAB then Some off else None, seen + 1)" "0 :: int"]
  show ?thesis by simp
qed

text \<open>With readers that respect bounds, every load command the walk visits lies inside the
  image.\<close>

theorem load_commands_in_bounds:
  assumes "scroll_bounds E" "image_scan E im = Ok (cs, fin)" "(lc, off) \<in> set cs"
  shows "unat off + 8 \<le> length (c_data (im_container im))"
proof -
  from assms(2) obtain n start where "lc_scan E (im_container im) n start = (cs, fin)"
    by (auto simp: image_scan_def res_simps)
  with assms(3) scroll_bounds.lc_scan_in_bounds [OF assms(1)] show ?thesis by (metis fst_conv)
qed

theorem load_commands_in_bounds_witness:
  "image_scan (scroll_ref True) (macho_image_new (with_bytes sample_image Little) 0) =
     Ok ([(\<lparr>lc_cmd = LC_LOAD_DYLIB, lc_cmdsize = 32\<rparr>, 32), (\<lparr>lc_cmd = LC_SYMTAB, lc_cmdsize = 8\<rparr>, 64)], Ok ()) \<and>
   unat (64 :: usize) + 8 \<le> length sample_image"
  using load_commands_in_bounds [OF scroll_ref.scroll_bounds_axioms sample_image_scan [of True],
      of "\<lparr>lc_cmd = LC_SYMTAB, lc_cmdsize = 8\<rparr>" 64] sample_image_scan [of True]
  by (simp add: macho_image_new_def with_bytes_def)

end
