(* ===== verification/Allocator.thy ===== *)
theory Allocator
  imports Rust_Prelude "HOL-Library.Multiset"
begin

text \<open>
  \<open>src/src/allocator.rs\<close>: the bump allocator with a first-fit free list threaded through the freed
  memory. Memory is a map from 8-byte aligned addresses to 64-bit words; a free node is the word at
  its address (the next node, 0 for none) and the word after it (its size), as \<open>repr(C)\<close> and the null
  niche of \<open>Option<NonNull<_>>\<close> lay it out, so list surgery really reads and writes the freed blocks.
  The virtual memory system is a parameter: its answer to the one request an allocation may make.
\<close>

unbundle bit_operations_syntax


section \<open>Model\<close>

definition PAGE_SIZE :: usize where "PAGE_SIZE = 4096"
definition CHUNK_SIZE :: usize where "CHUNK_SIZE = 64 * PAGE_SIZE"
definition LARGE_THRESHOLD :: usize where "LARGE_THRESHOLD = CHUNK_SIZE div 2"

text \<open>\<open>size_of\<close> and \<open>align_of\<close> of a \<open>FreeNode\<close>: two machine words.\<close>

definition MIN_REUSE :: usize where "MIN_REUSE = 16"
definition MIN_ALIGN :: usize where "MIN_ALIGN = 8"

lemmas alloc_consts = PAGE_SIZE_def CHUNK_SIZE_def LARGE_THRESHOLD_def MIN_REUSE_def MIN_ALIGN_def

record layout_req =
  ly_size :: usize
  ly_align :: usize

record chunk =
  ck_base :: usize
  ck_size :: usize
  ck_offset :: usize

record free_node =
  fn_next :: "usize option"
  fn_size :: usize

record alloc_state =
  al_chunk :: "chunk option"
  al_free :: "usize option"
  al_mem :: "usize \<Rightarrow> u64"

definition alloc_state_new :: "(usize \<Rightarrow> u64) \<Rightarrow> alloc_state" where
  "alloc_state_new mem = \<lparr>al_chunk = None, al_free = None, al_mem = mem\<rparr>"

definition non_null :: "usize \<Rightarrow> usize option" where
  "non_null p = (if p = 0 then None else Some p)"

definition node_read :: "(usize \<Rightarrow> u64) \<Rightarrow> usize \<Rightarrow> free_node" where
  "node_read mem a = \<lparr>fn_next = non_null (mem a), fn_size = mem (a + 8)\<rparr>"

definition next_word :: "usize option \<Rightarrow> u64" where
  "next_word p = (case p of None \<Rightarrow> 0 | Some a \<Rightarrow> a)"

definition node_write :: "(usize \<Rightarrow> u64) \<Rightarrow> usize \<Rightarrow> free_node \<Rightarrow> usize \<Rightarrow> u64" where
  "node_write mem a n = mem(a := next_word (fn_next n), a + 8 := fn_size n)"

lemma word_after [simp]: "a + 8 \<noteq> a" "a \<noteq> a + 8" for a :: usize
  by (simp_all add: add_eq_0_iff)

text \<open>The nodes of the free list are a memory for themselves, as long as no link is the null address.\<close>

definition nodes_apart :: "usize \<Rightarrow> usize \<Rightarrow> bool" where
  "nodes_apart a b \<longleftrightarrow> a \<noteq> b \<and> a + 8 \<noteq> b \<and> b + 8 \<noteq> a"

interpretation nodes: memory node_read node_write "\<lambda>n. fn_next n \<noteq> Some 0" nodes_apart
  by unfold_locales
    (auto simp: node_read_def node_write_def next_word_def non_null_def nodes_apart_def split: option.split)

definition is_power_of_two :: "usize \<Rightarrow> bool" where
  "is_power_of_two w \<longleftrightarrow> w \<in> set (map (\<lambda>k. 2 ^ k) [0..<64])"

definition align_up :: "bool \<Rightarrow> usize \<Rightarrow> usize \<Rightarrow> usize res" where
  "align_up oc addr align =
     (if oc \<and> \<not> is_power_of_two align then Panic Debug_Assertion
      else rbind (wadd oc addr align) (\<lambda>s. rbind (wsub oc s 1) (\<lambda>s. rbind (wsub oc align 1) (\<lambda>m.
           Ok (s AND NOT m)))))"

definition al_normalize :: "bool \<Rightarrow> layout_req \<Rightarrow> (usize \<times> usize) res" where
  "al_normalize oc l =
     (let raw = max (ly_size l) MIN_REUSE in
      rbind (align_up oc raw MIN_ALIGN) (\<lambda>sz. Ok (sz, max (ly_align l) MIN_ALIGN)))"

definition bump_alloc :: "bool \<Rightarrow> usize \<Rightarrow> usize \<Rightarrow> alloc_state \<Rightarrow> (usize option \<times> alloc_state) res" where
  "bump_alloc oc sz align st =
     (case al_chunk st of
        None \<Rightarrow> Ok (None, st)
      | Some chunk \<Rightarrow>
          rbind (wadd oc (ck_base chunk) (ck_offset chunk)) (\<lambda>cur.
          rbind (align_up oc cur align) (\<lambda>aligned.
          case Option.bind (checked_add aligned sz) (\<lambda>e. checked_sub e (ck_base chunk)) of
            None \<Rightarrow> Ok (None, st)
          | Some new_offset \<Rightarrow>
              if ck_size chunk < new_offset then Ok (None, st)
              else Ok (non_null aligned, st\<lparr>al_chunk := Some (chunk\<lparr>ck_offset := new_offset\<rparr>)\<rparr>))))"

text \<open>\<open>cursor\<close> points at the link to the current node: the head or the \<open>next\<close> field of a node.\<close>

datatype cursor = Head | Next_Of usize

definition cursor_load :: "alloc_state \<Rightarrow> cursor \<Rightarrow> usize option" where
  "cursor_load st c = (case c of Head \<Rightarrow> al_free st | Next_Of a \<Rightarrow> fn_next (node_read (al_mem st) a))"

definition cursor_store :: "alloc_state \<Rightarrow> cursor \<Rightarrow> usize option \<Rightarrow> alloc_state" where
  "cursor_store st c p =
     (case c of Head \<Rightarrow> st\<lparr>al_free := p\<rparr> | Next_Of a \<Rightarrow> st\<lparr>al_mem := (al_mem st)(a := next_word p)\<rparr>)"

text \<open>The walk does not end on a cyclic list: \<open>None\<close> is not returning.\<close>

partial_function (option) find_node ::
  "alloc_state \<Rightarrow> usize \<Rightarrow> usize \<Rightarrow> cursor \<Rightarrow> (cursor \<times> usize) option option" where
  "find_node st sz align c =
     (case cursor_load st c of
        None \<Rightarrow> Some None
      | Some node \<Rightarrow>
          if sz \<le> fn_size (node_read (al_mem st) node) \<and> node mod align = 0 then Some (Some (c, node))
          else find_node st sz align (Next_Of node))"

definition take_from_free_list ::
  "bool \<Rightarrow> usize \<Rightarrow> usize \<Rightarrow> alloc_state \<Rightarrow> (usize option \<times> alloc_state) res" where
  "take_from_free_list oc sz align st =
     (case find_node st sz align Head of
        None \<Rightarrow> Diverge
      | Some None \<Rightarrow> Ok (None, st)
      | Some (Some (c, node)) \<Rightarrow>
          let n = node_read (al_mem st) node; st = cursor_store st c (fn_next n) in
          rbind (wsub oc (fn_size n) sz) (\<lambda>leftover.
          if MIN_REUSE \<le> leftover then
            rbind (wadd oc node sz) (\<lambda>tail_addr.
            Ok (Some node, st\<lparr>al_mem := node_write (al_mem st) tail_addr
                                 \<lparr>fn_next = al_free st, fn_size = leftover\<rparr>,
                              al_free := Some tail_addr\<rparr>))
          else Ok (Some node, st)))"

text \<open>\<open>vm\<close> is the answer of the virtual memory system to a request of the given size.\<close>

type_synonym vm = "usize \<Rightarrow> usize option"

definition ptr_of :: "usize option \<Rightarrow> usize" where
  "ptr_of p = (case p of None \<Rightarrow> 0 | Some a \<Rightarrow> a)"

definition alloc_impl :: "bool \<Rightarrow> vm \<Rightarrow> layout_req \<Rightarrow> alloc_state \<Rightarrow> (usize \<times> alloc_state) res" where
  "alloc_impl oc vm l st =
     rbind (al_normalize oc l) (\<lambda>(sz, align).
     if LARGE_THRESHOLD \<le> sz then Ok (ptr_of (vm sz), st)
     else
       rbind (take_from_free_list oc sz align st) (\<lambda>(p, st).
       case p of Some a \<Rightarrow> Ok (a, st)
       | None \<Rightarrow>
       rbind (bump_alloc oc sz align st) (\<lambda>(p, st).
       case p of Some a \<Rightarrow> Ok (a, st)
       | None \<Rightarrow>
       rbind (wadd oc sz align) (\<lambda>need.
       let chunk_size = max CHUNK_SIZE need in
       case vm chunk_size of
         None \<Rightarrow> Ok (0, st)
       | Some base \<Rightarrow>
           rbind (bump_alloc oc sz align
                    (st\<lparr>al_chunk := Some \<lparr>ck_base = base, ck_size = chunk_size, ck_offset = 0\<rparr>\<rparr>))
             (\<lambda>(p, st). Ok (ptr_of p, st))))))"

text \<open>The first component is the region given back to the virtual memory system, if any.\<close>

definition dealloc_impl ::
  "bool \<Rightarrow> usize \<Rightarrow> layout_req \<Rightarrow> alloc_state \<Rightarrow> ((usize \<times> usize) option \<times> alloc_state) res" where
  "dealloc_impl oc ptr l st =
     (case non_null ptr of
        None \<Rightarrow> Ok (None, st)
      | Some nn \<Rightarrow>
          rbind (al_normalize oc l) (\<lambda>(sz, _).
          if LARGE_THRESHOLD \<le> sz then Ok (Some (nn, sz), st)
          else Ok (None, st\<lparr>al_mem := node_write (al_mem st) nn \<lparr>fn_next = al_free st, fn_size = sz\<rparr>,
                            al_free := Some nn\<rparr>)))"

section \<open>Alignment\<close>

lemma unat_and_not_mask: "unat (x AND NOT (mask k)) = unat x div 2 ^ k * 2 ^ k" for x :: usize
proof -
  have self: "take_bit 64 (unat x) = unat x"
    using unsigned_less [of x, where ?'a = nat] by (intro take_bit_nat_eq_self) simp
  have "x AND NOT (mask k) = push_bit k (drop_bit k x)"
    by (auto simp: bit_eq_iff bit_simps)
  then have "unat (x AND NOT (mask k)) = take_bit 64 (push_bit k (drop_bit k (unat x)))"
    by (simp add: unsigned_push_bit_eq unsigned_drop_bit_eq self)
  also have "push_bit k (drop_bit k (unat x)) = unat x div 2 ^ k * 2 ^ k"
    by (simp add: push_bit_eq_mult drop_bit_eq_div)
  also have "take_bit 64 \<dots> = \<dots>"
    using unsigned_less [of x, where ?'a = nat]
    by (intro take_bit_nat_eq_self order_le_less_trans [OF div_times_less_eq_dividend]) simp
  finally show ?thesis .
qed

lemma unat_two_power: "k < 64 \<Longrightarrow> unat (2 ^ k :: usize) = 2 ^ k"
proof -
  assume "k < 64"
  then have "(2 :: nat) ^ k < 2 ^ 64" by (intro power_strict_increasing) auto
  then have "unat (of_nat (2 ^ k) :: usize) = 2 ^ k" by (intro unat_of_nat_fits) simp
  then show ?thesis by simp
qed

lemma is_power_of_two_unat: "is_power_of_two w \<longleftrightarrow> (\<exists>k < 64. unat w = 2 ^ k)"
proof
  assume "is_power_of_two w"
  then show "\<exists>k < 64. unat w = 2 ^ k" by (auto simp: is_power_of_two_def unat_two_power)
next
  assume "\<exists>k < 64. unat w = 2 ^ k"
  then obtain k where "k < 64" "w = 2 ^ k" by (metis unat_two_power unsigned_word_eqI)
  then show "is_power_of_two w" by (auto simp: is_power_of_two_def)
qed

text \<open>The least multiple of \<open>align\<close> that is not below \<open>addr\<close>.\<close>

definition round_to :: "nat \<Rightarrow> nat \<Rightarrow> nat" where
  "round_to n m = (n + m - 1) div m * m"

lemma round_to_bounds: "0 < m \<Longrightarrow> m dvd round_to n m \<and> n \<le> round_to n m \<and> round_to n m < n + m"
proof -
  assume "0 < m"
  let ?x = "n + m - 1"
  have "?x = ?x div m * m + ?x mod m" "?x mod m < m" using \<open>0 < m\<close> by simp_all
  then have "n \<le> ?x div m * m" "?x div m * m < n + m" using \<open>0 < m\<close> by linarith+
  then show ?thesis unfolding round_to_def by simp
qed

lemma align_up_eq:
  assumes "is_power_of_two align" "unat addr + unat align < 2 ^ 64"
  shows "\<exists>r. align_up oc addr align = Ok r \<and> unat r = round_to (unat addr) (unat align)"
proof -
  obtain k where k: "k < 64" "unat align = 2 ^ k" using assms by (auto simp: is_power_of_two_unat)
  then have "align = 2 ^ k" by (metis unat_two_power unsigned_word_eqI)
  then have m: "align - 1 = mask k" by (simp add: mask_eq_exp_minus_1)
  have pos: "1 \<le> unat align" using k by simp
  have sum: "unat (addr + align) = unat addr + unat align" using assms by (simp add: unat_add_fits)
  have s: "unat (addr + align - 1) = unat addr + unat align - 1"
    using sum pos by (subst unat_sub_fits) auto
  have 1: "wadd oc addr align = Ok (addr + align)" using assms by simp
  have 2: "wsub oc (addr + align) 1 = Ok (addr + align - 1)" "wsub oc align 1 = Ok (align - 1)"
    using sum pos by auto
  have "align_up oc addr align = Ok ((addr + align - 1) AND NOT (mask k))"
    unfolding align_up_def using assms(1) by (simp add: 1 2 m)
  then show ?thesis
    by (simp add: unat_and_not_mask s k round_to_def)
qed

section \<open>Blocks\<close>

type_synonym block = "nat \<times> nat"

definition apart :: "block \<Rightarrow> block \<Rightarrow> bool" where
  "apart a b \<longleftrightarrow> fst a + snd a \<le> fst b \<or> fst b + snd b \<le> fst a"

abbreviation pdisj :: "block list \<Rightarrow> bool" where
  "pdisj \<equiv> sorted_wrt apart"

lemma apart_sym: "apart a b \<longleftrightarrow> apart b a"
  by (auto simp: apart_def)

lemma pdisj_remove1: "x \<in> set xs \<Longrightarrow> pdisj xs \<longleftrightarrow> pdisj (x # remove1 x xs)"
proof (induction xs)
  case Nil
  then show ?case by simp
next
  case (Cons z xs)
  show ?case
  proof (cases "z = x")
    case False
    then have x: "x \<in> set xs" using Cons.prems by simp
    then have "set xs = insert x (set (remove1 x xs))" by (induction xs) auto
    with False Cons.IH [OF x] show ?thesis by (auto simp: apart_sym)
  qed simp
qed

lemma pdisj_mset: "mset xs = mset ys \<Longrightarrow> pdisj xs \<longleftrightarrow> pdisj ys"
proof (induction xs arbitrary: ys)
  case Nil
  then show ?case by simp
next
  case (Cons x xs)
  then have x: "x \<in> set ys" by (metis list.set_intros(1) set_mset_mset)
  have m: "mset xs = mset (remove1 x ys)" using Cons.prems by (metis add_mset_remove_trivial mset.simps(2) mset_remove1)
  then have "set xs = set (remove1 x ys)" by (rule mset_eq_setD)
  with Cons.IH [OF m] pdisj_remove1 [OF x] show ?case by simp
qed

lemma apart_part: "apart (a, n) x \<Longrightarrow> a \<le> c \<Longrightarrow> c + k \<le> a + n \<Longrightarrow> apart (c, k) x"
  by (auto simp: apart_def)

lemma pdisj_shrink: "pdisj ((a, n) # bs) \<Longrightarrow> m \<le> n \<Longrightarrow> pdisj ((a, m) # bs)"
  using apart_part [of a n _ a m] by auto

lemma pdisj_split: "pdisj ((a, n) # bs) \<Longrightarrow> m \<le> n \<Longrightarrow> pdisj ((a, m) # (a + m, n - m) # bs)"
  using apart_part [of a n _ a m] apart_part [of a n _ "a + m" "n - m"] by (auto simp: apart_def)

section \<open>The free list in memory\<close>

definition block_ok :: "block \<Rightarrow> bool" where
  "block_ok b \<longleftrightarrow> 0 < fst b \<and> 8 dvd fst b \<and> 8 dvd snd b \<and> 16 \<le> snd b \<and> fst b + snd b \<le> 2 ^ 63"

fun free_list :: "(usize \<Rightarrow> u64) \<Rightarrow> usize option \<Rightarrow> block list \<Rightarrow> bool" where
  "free_list mem p [] \<longleftrightarrow> p = None"
| "free_list mem p (b # bs) \<longleftrightarrow> p = Some (of_nat (fst b)) \<and> block_ok b \<and>
     mem (of_nat (fst b) + 8) = of_nat (snd b) \<and> free_list mem (non_null (mem (of_nat (fst b)))) bs"

lemma unat_block: "block_ok b \<Longrightarrow> unat (of_nat (fst b) :: usize) = fst b \<and>
   unat (of_nat (fst b) + 8 :: usize) = fst b + 8 \<and> unat (of_nat (snd b) :: usize) = snd b \<and>
   (of_nat (fst b) :: usize) \<noteq> 0"
proof -
  assume ok: "block_ok b"
  then have a: "unat (of_nat (fst b) :: usize) = fst b" "unat (of_nat (snd b) :: usize) = snd b"
    by (intro unat_of_nat_fits; simp add: block_ok_def)+
  moreover from a ok have "unat (of_nat (fst b) + 8 :: usize) = fst b + 8"
    by (subst unat_add_fits) (auto simp: block_ok_def)
  moreover have "(of_nat (fst b) :: usize) \<noteq> 0"
    using a ok by (auto simp: block_ok_def)
  ultimately show ?thesis by blast
qed

lemma free_list_ok: "free_list mem p bs \<Longrightarrow> b \<in> set bs \<Longrightarrow> block_ok b"
  by (induction bs arbitrary: p) auto

lemma free_list_size: "free_list mem p bs \<Longrightarrow> b \<in> set bs \<Longrightarrow> mem (of_nat (fst b) + 8) = of_nat (snd b)"
  by (induction bs arbitrary: p) auto

lemma next_word_non_null [simp]: "next_word (non_null w) = w"
  by (simp add: next_word_def non_null_def)

lemma non_null_block: "block_ok b \<Longrightarrow> non_null (of_nat (fst b)) = Some (of_nat (fst b))"
  using unat_block [of b] by (simp add: non_null_def)

text \<open>Only the first two words of the listed blocks matter.\<close>

lemma free_list_frame:
  "free_list mem p bs \<Longrightarrow>
   (\<And>b w. b \<in> set bs \<Longrightarrow> fst b \<le> unat w \<Longrightarrow> unat w < fst b + snd b \<Longrightarrow> mem' w = mem w) \<Longrightarrow>
   free_list mem' p bs"
proof (induction bs arbitrary: p)
  case Nil
  then show ?case by simp
next
  case (Cons b bs)
  have ok: "block_ok b" using Cons.prems(1) by simp
  have "mem' (of_nat (fst b)) = mem (of_nat (fst b))"
    using unat_block [OF ok] ok by (intro Cons.prems(2) [of b]) (auto simp: block_ok_def)
  moreover have "mem' (of_nat (fst b) + 8) = mem (of_nat (fst b) + 8)"
    using unat_block [OF ok] ok by (intro Cons.prems(2) [of b]) (simp_all add: block_ok_def)
  ultimately show ?case using Cons by auto
qed

lemma free_list_word:
  assumes "pdisj (xs @ b # ys)" "x \<in> set xs \<or> x \<in> set ys" "fst x \<le> n" "n < fst x + snd x"
  shows "n < fst b \<or> fst b + snd b \<le> n"
  using assms by (fastforce simp: sorted_wrt_append apart_def)

text \<open>Linking past a node removes it from the list.\<close>

lemma free_list_unlink:
  "free_list mem p (xs @ b # ys) \<Longrightarrow> pdisj (xs @ b # ys) \<Longrightarrow> xs \<noteq> [] \<Longrightarrow>
   free_list (mem(of_nat (fst (last xs)) := mem (of_nat (fst b)))) p (xs @ ys)"
proof (induction xs arbitrary: p)
  case Nil
  then show ?case by simp
next
  case (Cons x xs)
  let ?z = "of_nat (fst (last (x # xs))) :: usize"
  let ?mem = "mem(?z := mem (of_nat (fst b)))"
  have ok: "block_ok x" "block_ok (last (x # xs))"
    using free_list_ok [OF Cons.prems(1)] by auto
  have ne: "of_nat (fst x) + 8 \<noteq> ?z"
  proof
    assume "of_nat (fst x) + 8 = ?z"
    then have eq: "fst x + 8 = fst (last (x # xs))" using unat_block [OF ok(1)] unat_block [OF ok(2)] by metis
    then have "last (x # xs) \<in> set xs" by (cases xs) auto
    with Cons.prems(2) have "apart x (last (x # xs))" by auto
    with eq ok show False by (auto simp: apart_def block_ok_def)
  qed
  show ?case
  proof (cases xs)
    case Nil
    have "free_list mem (non_null (mem (of_nat (fst b)))) ys" using Cons.prems(1) Nil by simp
    then have "free_list ?mem (non_null (mem (of_nat (fst b)))) ys"
    proof (rule free_list_frame)
      fix c and w :: usize assume "c \<in> set ys" "fst c \<le> unat w" "unat w < fst c + snd c"
      then have "unat w \<noteq> fst x"
        using Cons.prems(2) Nil ok(1) by (auto simp: apart_def block_ok_def)
      then show "?mem w = mem w" using unat_block [OF ok(1)] Nil by auto
    qed
    with Cons.prems(1) ne Nil show ?thesis by (auto simp del: fun_upd_apply simp: fun_upd_same fun_upd_other)
  next
    case (Cons y zs)
    have l: "last (x # xs) = last xs" using Cons by simp
    have "apart x (last xs)" "block_ok (last xs)" using Cons.prems(2) ok(2) Cons by auto
    then have "fst x \<noteq> fst (last xs)" using ok(1) by (auto simp: apart_def block_ok_def)
    then have "of_nat (fst x) \<noteq> ?z"
      using unat_block [OF ok(1)] unat_block [OF ok(2)] l by metis
    moreover have "free_list ?mem (non_null (mem (of_nat (fst x)))) (xs @ ys)"
      unfolding l by (rule Cons.IH) (use Cons.prems Cons in simp_all)
    ultimately show ?thesis using Cons.prems(1) ne by (simp del: fun_upd_apply add: fun_upd_other)
  qed
qed

definition fits :: "usize \<Rightarrow> usize \<Rightarrow> block \<Rightarrow> bool" where
  "fits sz align b \<longleftrightarrow> unat sz \<le> snd b \<and> unat align dvd fst b"

text \<open>The walk ends on every list and stops at the first block that fits.\<close>

lemma find_node_list:
  "free_list (al_mem st) (cursor_load st c) bs \<Longrightarrow>
   (\<forall>b \<in> set bs. \<not> fits sz align b) \<and> find_node st sz align c = Some None \<or>
   (\<exists>xs b ys. bs = xs @ b # ys \<and> fits sz align b \<and> (\<forall>x \<in> set xs. \<not> fits sz align x) \<and>
      find_node st sz align c =
        Some (Some (if xs = [] then c else Next_Of (of_nat (fst (last xs))), of_nat (fst b))))"
proof (induction bs arbitrary: c)
  case Nil
  then show ?case by (subst find_node.simps) simp
next
  case (Cons b bs)
  have ok: "block_ok b" using Cons.prems by simp
  have load: "cursor_load st c = Some (of_nat (fst b))" using Cons.prems by simp
  have fit: "sz \<le> fn_size (node_read (al_mem st) (of_nat (fst b))) \<and> of_nat (fst b) mod align = 0 \<longleftrightarrow>
      fits sz align b"
  proof -
    have "of_nat (fst b) mod align = 0 \<longleftrightarrow> unat (of_nat (fst b) mod align) = 0"
      by (simp add: unat_eq_zero)
    also have "\<dots> \<longleftrightarrow> unat align dvd fst b"
      using unat_block [OF ok] by (simp only: unat_mod_distrib dvd_eq_mod_eq_0)
    finally show ?thesis
      using Cons.prems unat_block [OF ok] by (simp add: fits_def node_read_def word_le_nat_alt)
  qed
  show ?case
  proof (cases "fits sz align b")
    case True
    have "find_node st sz align c = Some (Some (c, of_nat (fst b)))"
      by (subst find_node.simps) (use True load fit in simp)
    with True show ?thesis by (intro disjI2 exI [of _ "[]"]) simp
  next
    case False
    have step: "find_node st sz align c = find_node st sz align (Next_Of (of_nat (fst b)))"
      by (subst find_node.simps) (use False load fit in auto)
    have "free_list (al_mem st) (cursor_load st (Next_Of (of_nat (fst b)))) bs"
      using Cons.prems by (simp add: cursor_load_def node_read_def)
    from Cons.IH [OF this] show ?thesis
    proof (elim disjE exE conjE)
      assume "\<forall>b \<in> set bs. \<not> fits sz align b"
        "find_node st sz align (Next_Of (of_nat (fst b))) = Some None"
      with False step show ?thesis by simp
    next
      fix xs d ys
      assume "bs = xs @ d # ys" "fits sz align d" "\<forall>x \<in> set xs. \<not> fits sz align x"
        "find_node st sz align (Next_Of (of_nat (fst b))) =
         Some (Some (if xs = [] then Next_Of (of_nat (fst b)) else Next_Of (of_nat (fst (last xs))), of_nat (fst d)))"
      with False step show ?thesis by (intro disjI2 exI [of _ "b # xs"] exI [of _ d] exI [of _ ys]) auto
    qed
  qed
qed

section \<open>The invariant\<close>

definition chunk_rest :: "alloc_state \<Rightarrow> block list" where
  "chunk_rest st = (case al_chunk st of None \<Rightarrow> []
     | Some c \<Rightarrow> [(unat (ck_base c) + unat (ck_offset c), unat (ck_size c) - unat (ck_offset c))])"

definition chunk_ok :: "alloc_state \<Rightarrow> bool" where
  "chunk_ok st \<longleftrightarrow> (\<forall>c. al_chunk st = Some c \<longrightarrow> ck_base c \<noteq> 0 \<and> unat (ck_offset c) \<le> unat (ck_size c) \<and>
     unat (ck_base c) + unat (ck_size c) \<le> 2 ^ 63)"

text \<open>\<open>fl\<close> are the free blocks in list order, \<open>live\<close> the blocks handed out and not returned.\<close>

definition al_inv :: "alloc_state \<Rightarrow> block list \<Rightarrow> block list \<Rightarrow> bool" where
  "al_inv st fl live \<longleftrightarrow> free_list (al_mem st) (al_free st) fl \<and> chunk_ok st \<and>
     (\<forall>b \<in> set live. block_ok b) \<and> pdisj (fl @ live @ chunk_rest st)"

lemma cursor_unlink:
  assumes "free_list (al_mem st) (al_free st) (xs @ b # ys)" "pdisj (xs @ b # ys)"
  defines "c \<equiv> if xs = [] then Head else Next_Of (of_nat (fst (last xs)))"
  defines "st' \<equiv> cursor_store st c (fn_next (node_read (al_mem st) (of_nat (fst b))))"
  shows "free_list (al_mem st') (al_free st') (xs @ ys) \<and> al_chunk st' = al_chunk st"
proof (cases "xs = []")
  case True
  with assms show ?thesis by (simp add: cursor_store_def node_read_def)
next
  case False
  with free_list_unlink [OF assms(1,2)] assms show ?thesis
    by (simp add: cursor_store_def node_read_def)
qed

text \<open>Writing a node into a block that no listed block overlaps puts it in front of the list.\<close>

lemma free_list_push:
  assumes "free_list mem p bs" "block_ok b" "\<And>x. x \<in> set bs \<Longrightarrow> apart b x"
  shows "free_list (node_write mem (of_nat (fst b)) \<lparr>fn_next = p, fn_size = of_nat (snd b)\<rparr>)
     (Some (of_nat (fst b))) (b # bs)"
proof -
  let ?mem = "node_write mem (of_nat (fst b)) \<lparr>fn_next = p, fn_size = of_nat (snd b)\<rparr>"
  note u = unat_block [OF assms(2)]
  have ne: "(of_nat (fst b) :: usize) \<noteq> of_nat (fst b) + 8" using u by (metis add_eq_self_zero zero_neq_numeral)
  have "free_list ?mem p bs"
  proof (rule free_list_frame [OF assms(1)])
    fix x and w :: usize assume x: "x \<in> set bs" "fst x \<le> unat w" "unat w < fst x + snd x"
    then have "unat w \<noteq> fst b" "unat w \<noteq> fst b + 8"
      using assms(2) assms(3) [OF x(1)] by (auto simp: apart_def block_ok_def)
    then show "?mem w = mem w" using u by (auto simp: node_write_def)
  qed
  moreover have "non_null (next_word p) = p"
    using assms(1) free_list_ok [OF assms(1)] non_null_block
    by (cases bs) (auto simp: next_word_def non_null_def)
  ultimately show ?thesis using assms(2) ne by (simp add: node_write_def)
qed

lemma take_from_free_list_inv:
  assumes inv: "al_inv st fl live" and sz: "16 \<le> unat sz" "8 dvd unat sz"
  shows "(\<forall>b \<in> set fl. \<not> fits sz align b) \<and> take_from_free_list oc sz align st = Ok (None, st) \<or>
    (\<exists>a st' fl'. take_from_free_list oc sz align st = Ok (Some (of_nat a), st') \<and> 0 < a \<and> a < 2 ^ 63 \<and>
       unat align dvd a \<and> al_inv st' fl' ((a, unat sz) # live))"
proof -
  have list: "free_list (al_mem st) (cursor_load st Head) fl" using inv by (simp add: al_inv_def cursor_load_def)
  from find_node_list [OF this, of sz align] show ?thesis
  proof (elim disjE exE conjE)
    assume "\<forall>b \<in> set fl. \<not> fits sz align b" "find_node st sz align Head = Some None"
    then show ?thesis by (simp add: take_from_free_list_def)
  next
    fix xs b ys
    assume fl: "fl = xs @ b # ys" and fit: "fits sz align b"
      and found: "find_node st sz align Head =
        Some (Some (if xs = [] then Head else Next_Of (of_nat (fst (last xs))), of_nat (fst b)))"
    let ?c = "if xs = [] then Head else Next_Of (of_nat (fst (last xs)))"
    let ?n = "node_read (al_mem st) (of_nat (fst b))"
    let ?st = "cursor_store st ?c (fn_next ?n)"
    have ok: "block_ok b" and list': "free_list (al_mem st) (al_free st) (xs @ b # ys)"
      using list free_list_ok by (fastforce simp: fl cursor_load_def)+
    note u = unat_block [OF ok]
    have pd: "pdisj (xs @ b # ys)" using inv by (simp add: al_inv_def fl sorted_wrt_append)
    obtain s1 where s1: "s1 = ?st" by blast
    have st: "free_list (al_mem s1) (al_free s1) (xs @ ys)" "al_chunk s1 = al_chunk st"
      using cursor_unlink [OF list' pd] by (simp_all add: s1)
    have size: "fn_size ?n = of_nat (snd b)"
      using free_list_size [OF list', of b] by (simp add: node_read_def)
    have le: "unat sz \<le> snd b" "unat align dvd fst b" using fit by (simp_all add: fits_def)
    have sub: "wsub oc (fn_size ?n) sz = Ok (fn_size ?n - sz)" "unat (fn_size ?n - sz) = snd b - unat sz"
      using le u by (simp_all add: size unat_sub_fits)
    have all: "pdisj (b # xs @ ys @ live @ chunk_rest st)"
      using inv pdisj_mset [of "fl @ live @ chunk_rest st" "b # xs @ ys @ live @ chunk_rest st"]
      by (simp add: al_inv_def fl)
    have bounds: "0 < fst b" "fst b < 2 ^ 63" using ok by (auto simp: block_ok_def)
    have rest: "chunk_rest st' = chunk_rest st" "chunk_ok st' = chunk_ok st" if "al_chunk st' = al_chunk st" for st'
      using that by (simp_all add: chunk_rest_def chunk_ok_def)
    show ?thesis
    proof (cases "MIN_REUSE \<le> fn_size ?n - sz")
      case False
      have "take_from_free_list oc sz align st = Ok (Some (of_nat (fst b)), s1)"
        using False by (simp add: take_from_free_list_def found sub Let_def s1)
      moreover have "pdisj ((fst b, unat sz) # xs @ ys @ live @ chunk_rest st)"
        by (rule pdisj_shrink [of _ "snd b"]) (use all le in simp_all)
      then have "pdisj ((xs @ ys) @ ((fst b, unat sz) # live) @ chunk_rest st)"
        using pdisj_mset [of "(xs @ ys) @ ((fst b, unat sz) # live) @ chunk_rest st"
            "(fst b, unat sz) # xs @ ys @ live @ chunk_rest st"] by simp
      then have "al_inv s1 (xs @ ys) ((fst b, unat sz) # live)"
        using st inv ok le sz rest [OF st(2)] by (auto simp: al_inv_def block_ok_def)
      ultimately show ?thesis using bounds le by blast
    next
      case True
      let ?tail = "(fst b + unat sz, snd b - unat sz)"
      let ?s2 = "s1\<lparr>al_mem := node_write (al_mem s1) (of_nat (fst ?tail))
           \<lparr>fn_next = al_free s1, fn_size = of_nat (snd ?tail)\<rparr>, al_free := Some (of_nat (fst ?tail))\<rparr>"
      have ge: "16 \<le> snd b - unat sz" using True sub(2) by (simp add: MIN_REUSE_def word_le_nat_alt)
      have tail_ok: "block_ok ?tail" using ok sz le ge by (auto simp: block_ok_def)
      have left: "fn_size ?n - sz = of_nat (snd ?tail)"
        using arg_cong [OF sub(2), of "of_nat :: nat \<Rightarrow> usize"] by simp
      have add: "wadd oc (of_nat (fst b)) sz = Ok (of_nat (fst ?tail))"
        using u le ok wadd_of_nat [of "fst b" "unat sz", where ?'a = 64 and oc = oc] by (simp add: block_ok_def)
      have took: "take_from_free_list oc sz align st = Ok (Some (of_nat (fst b)), ?s2)"
        using True by (simp add: take_from_free_list_def found sub(1) Let_def left add flip: s1)
      have split: "pdisj ((fst b, unat sz) # ?tail # xs @ ys @ live @ chunk_rest st)"
        unfolding fst_conv snd_conv by (rule pdisj_split) (use all le in simp_all)
      then have "pdisj ((?tail # xs @ ys) @ ((fst b, unat sz) # live) @ chunk_rest st)"
        using pdisj_mset [of "(?tail # xs @ ys) @ ((fst b, unat sz) # live) @ chunk_rest st"
            "(fst b, unat sz) # ?tail # xs @ ys @ live @ chunk_rest st"] by simp
      moreover have "free_list (al_mem ?s2) (al_free ?s2) (?tail # xs @ ys)"
      proof -
        have "free_list (node_write (al_mem s1) (of_nat (fst ?tail))
            \<lparr>fn_next = al_free s1, fn_size = of_nat (snd ?tail)\<rparr>) (Some (of_nat (fst ?tail))) (?tail # xs @ ys)"
          by (rule free_list_push [OF st(1) tail_ok]) (use split in auto)
        then show ?thesis by simp
      qed
      ultimately have "al_inv ?s2 (?tail # xs @ ys) ((fst b, unat sz) # live)"
        using st(2) inv ok le sz rest [of ?s2] by (simp add: al_inv_def block_ok_def del: free_list.simps)
      with took show ?thesis using bounds le by blast
    qed
  qed
qed

lemma bump_alloc_inv:
  assumes inv: "al_inv st fl live" and chunk: "al_chunk st = Some c"
    and sz: "16 \<le> unat sz" "8 dvd unat sz" "unat sz \<le> 2 ^ 62"
    and align: "is_power_of_two align" "8 dvd unat align" "unat align \<le> 2 ^ 62"
  defines "a \<equiv> round_to (unat (ck_base c) + unat (ck_offset c)) (unat align)"
  shows "if a + unat sz \<le> unat (ck_base c) + unat (ck_size c)
    then \<exists>st'. bump_alloc oc sz align st = Ok (Some (of_nat a), st') \<and> 0 < a \<and> a < 2 ^ 63 \<and>
           unat align dvd a \<and> al_inv st' fl ((a, unat sz) # live)
    else bump_alloc oc sz align st = Ok (None, st)"
proof -
  let ?b = "unat (ck_base c)" and ?o = "unat (ck_offset c)" and ?n = "unat (ck_size c)"
  have ok: "0 < ?b" "?o \<le> ?n" "?b + ?n \<le> 2 ^ 63"
    using inv chunk by (auto simp: al_inv_def chunk_ok_def unat_gt_0)
  have cur: "wadd oc (ck_base c) (ck_offset c) = Ok (ck_base c + ck_offset c)"
    "unat (ck_base c + ck_offset c) = ?b + ?o"
    using ok by (simp_all add: unat_add_fits)
  have pos: "0 < unat align" using align(1) by (auto simp: is_power_of_two_unat)
  have up: "unat align dvd a" "?b + ?o \<le> a" "a < ?b + ?o + unat align"
    using round_to_bounds [OF pos, of "?b + ?o"] by (auto simp: a_def)
  obtain r where r: "align_up oc (ck_base c + ck_offset c) align = Ok r" "unat r = a"
    using align_up_eq [OF align(1), of "ck_base c + ck_offset c" oc] cur ok align(3) by (auto simp: a_def)
  then have r': "r = of_nat a" by (metis of_nat_unat ucast_id)
  have off: "Option.bind (checked_add r sz) (\<lambda>e. checked_sub e (ck_base c)) = Some (r + sz - ck_base c)"
    "unat (r + sz - ck_base c) = a + unat sz - ?b"
    using r(2) up ok sz(3) align(3) by (simp_all add: checked_add_def checked_sub_def unat_add_fits unat_sub_fits)
  have fit: "ck_size c < r + sz - ck_base c \<longleftrightarrow> \<not> a + unat sz \<le> ?b + ?n"
    using off(2) up ok by (auto simp: word_less_nat_alt)
  show ?thesis
  proof (cases "a + unat sz \<le> ?b + ?n")
    case False
    then show ?thesis using chunk cur(1) r(1) off(1) fit by (simp add: bump_alloc_def)
  next
    case True
    let ?st = "st\<lparr>al_chunk := Some (c\<lparr>ck_offset := r + sz - ck_base c\<rparr>)\<rparr>"
    have "r \<noteq> 0" using r(2) up(2) ok(1) by auto
    then have "bump_alloc oc sz align st = Ok (Some r, ?st)"
      using True chunk cur(1) r(1) off(1) fit by (simp add: bump_alloc_def non_null_def)
    moreover have bok: "block_ok (a, unat sz)"
      using up ok sz True align(2) by (auto simp: block_ok_def)
    moreover have rest: "chunk_rest st = [(?b + ?o, ?n - ?o)]"
      "chunk_rest ?st = [(a + unat sz, ?b + ?n - (a + unat sz))]"
      using chunk off(2) up ok True by (auto simp: chunk_rest_def)
    have "pdisj ((?b + ?o, ?n - ?o) # fl @ live)"
      using inv pdisj_mset [of "fl @ live @ chunk_rest st" "(?b + ?o, ?n - ?o) # fl @ live"]
      by (simp add: al_inv_def rest(1))
    then have "pdisj ((a, unat sz) # (a + unat sz, ?b + ?n - (a + unat sz)) # fl @ live)"
      using apart_part [of "?b + ?o" "?n - ?o" _ a "unat sz"] up(2) ok(2) True
        apart_part [of "?b + ?o" "?n - ?o" _ "a + unat sz" "?b + ?n - (a + unat sz)"]
      by (auto simp: apart_def)
    then have "pdisj (fl @ ((a, unat sz) # live) @ chunk_rest ?st)"
      using pdisj_mset [of "fl @ ((a, unat sz) # live) @ chunk_rest ?st"
          "(a, unat sz) # (a + unat sz, ?b + ?n - (a + unat sz)) # fl @ live"]
      by (simp add: rest(2))
    moreover have "chunk_ok ?st" using ok off(2) up True inv chunk by (auto simp: chunk_ok_def al_inv_def)
    ultimately have "al_inv ?st fl ((a, unat sz) # live)"
      using inv by (auto simp: al_inv_def)
    then show ?thesis
      using True up ok bok \<open>bump_alloc oc sz align st = Ok (Some r, ?st)\<close> r' sz by auto
  qed
qed

definition layout_ok :: "layout_req \<Rightarrow> bool" where
  "layout_ok l \<longleftrightarrow> 0 < unat (ly_size l) \<and> is_power_of_two (ly_align l) \<and>
     unat (ly_size l) + unat (ly_align l) \<le> 2 ^ 63"

definition norm_size :: "layout_req \<Rightarrow> nat" where
  "norm_size l = round_to (max (unat (ly_size l)) 16) 8"

lemma unat_max: "unat (max a b) = max (unat a) (unat b)"
  by (simp add: max_def word_le_nat_alt)

lemma norm_size_bounds: "unat (ly_size l) \<le> norm_size l \<and> 16 \<le> norm_size l \<and> 8 dvd norm_size l \<and>
   (norm_size l \<le> 23 \<or> norm_size l < unat (ly_size l) + 8)"
  using round_to_bounds [of 8 "max (unat (ly_size l)) 16"] by (auto simp: norm_size_def)

lemma al_normalize_eq:
  assumes "layout_ok l"
  shows "\<exists>sz align. al_normalize oc l = Ok (sz, align) \<and> unat sz = norm_size l \<and>
    unat align = max (unat (ly_align l)) 8 \<and> is_power_of_two align \<and> 8 dvd unat align \<and>
    unat (ly_align l) dvd unat align \<and> unat align \<le> 2 ^ 62"
proof -
  obtain k where k: "k < 64" "unat (ly_align l) = 2 ^ k"
    using assms by (auto simp: layout_ok_def is_power_of_two_unat)
  have "\<not> 63 \<le> k"
    using assms k power_increasing [of 63 k "2 :: nat"] by (auto simp: layout_ok_def)
  then have k62: "(2 :: nat) ^ k \<le> 2 ^ 62" by (intro power_increasing) auto
  have "is_power_of_two 8" by (simp add: is_power_of_two_unat) (rule exI [of _ 3], simp)
  then obtain r where "align_up oc (max (ly_size l) MIN_REUSE) MIN_ALIGN = Ok r" "unat r = norm_size l"
    using align_up_eq [of 8 "max (ly_size l) MIN_REUSE" oc] assms
    by (auto simp: MIN_REUSE_def MIN_ALIGN_def unat_max norm_size_def layout_ok_def)
  moreover have m: "max ((2 :: nat) ^ k) 8 = 2 ^ max k 3"
    using power_increasing_iff [of "2 :: nat" k 3] by (simp add: max_def)
  then have "is_power_of_two (max (ly_align l) MIN_ALIGN)"
    using k by (auto simp: is_power_of_two_unat unat_max MIN_ALIGN_def intro!: exI [of _ "max k 3"])
  moreover have "8 dvd (2 :: nat) ^ max k 3" using le_imp_power_dvd [of 3 "max k 3" "2 :: nat"] by simp
  moreover have "(2 :: nat) ^ k dvd 2 ^ max k 3" by (rule le_imp_power_dvd) simp
  moreover have "(2 :: nat) ^ max k 3 \<le> 2 ^ 62" unfolding m [symmetric] using k62 by simp
  ultimately show ?thesis
    unfolding al_normalize_def Let_def by (auto simp: unat_max MIN_ALIGN_def k(2) m)
qed

text \<open>What the kernel documents of \<open>mach_vm_allocate\<close>: a region it hands out is page aligned, not at
  address 0, inside the user half of the address space, and overlaps nothing in use.\<close>

definition vm_fresh :: "vm \<Rightarrow> block list \<Rightarrow> bool" where
  "vm_fresh vm used \<longleftrightarrow> (\<forall>n p. vm n = Some p \<longrightarrow> p \<noteq> 0 \<and> 4096 dvd unat p \<and>
     unat p + unat n \<le> 2 ^ 63 \<and> (\<forall>b \<in> set used. apart (unat p, unat n) b))"

text \<open>The most an allocation asks the kernel for.\<close>

definition vm_request :: "layout_req \<Rightarrow> nat" where
  "vm_request l = max (unat CHUNK_SIZE) (norm_size l + max (unat (ly_align l)) 8)"

lemma alloc_impl_inv:
  assumes inv: "al_inv st fl live" and l: "layout_ok l"
    and vm: "vm_fresh vm (fl @ live @ chunk_rest st)"
  shows "\<exists>p st' fl'. alloc_impl oc vm l st = Ok (p, st') \<and>
    (if p = 0 then st' = st \<and> (\<exists>n. vm n = None \<and> unat n \<le> vm_request l)
     else al_inv st' fl' ((unat p, norm_size l) # live) \<and>
       (norm_size l < unat LARGE_THRESHOLD \<or> unat (ly_align l) \<le> 4096 \<longrightarrow> unat (ly_align l) dvd unat p))"
proof -
  obtain sz align where n: "al_normalize oc l = Ok (sz, align)" "unat sz = norm_size l"
    "is_power_of_two align" "8 dvd unat align" "unat (ly_align l) dvd unat align" "unat align \<le> 2 ^ 62"
    "unat align = max (unat (ly_align l)) 8"
    using al_normalize_eq [OF l, of oc] by blast
  note nb = norm_size_bounds [of l]
  show ?thesis
  proof (cases "LARGE_THRESHOLD \<le> sz")
    case True
    then have alloc: "alloc_impl oc vm l st = Ok (ptr_of (vm sz), st)" by (simp add: alloc_impl_def n)
    have large: "unat LARGE_THRESHOLD \<le> norm_size l" using True n(2) by (simp add: word_le_nat_alt)
    show ?thesis
    proof (cases "vm sz")
      case None
      with alloc show ?thesis using n(2) by (auto simp: ptr_of_def vm_request_def intro!: exI [of _ sz])
    next
      case (Some p)
      then have p: "p \<noteq> 0" "4096 dvd unat p" "unat p + norm_size l \<le> 2 ^ 63"
        "\<forall>b \<in> set (fl @ live @ chunk_rest st). apart (unat p, norm_size l) b"
        using vm Some n(2) [symmetric] by (simp_all add: vm_fresh_def)
      have "(8 :: nat) dvd 4096" by simp
      then have ok: "block_ok (unat p, norm_size l)"
        using p nb by (auto simp: block_ok_def unat_gt_0 intro: dvd_trans)
      have "pdisj ((unat p, norm_size l) # fl @ live @ chunk_rest st)"
        using p(4) inv by (simp add: al_inv_def)
      then have "pdisj (fl @ ((unat p, norm_size l) # live) @ chunk_rest st)"
        using pdisj_mset [of "fl @ ((unat p, norm_size l) # live) @ chunk_rest st"
            "(unat p, norm_size l) # fl @ live @ chunk_rest st"] by simp
      then have "al_inv st fl ((unat p, norm_size l) # live)"
        using inv ok by (simp add: al_inv_def)
      moreover have "unat (ly_align l) dvd unat p" if small: "unat (ly_align l) \<le> 4096"
      proof -
        obtain k where k: "unat (ly_align l) = 2 ^ k"
          using l by (auto simp: layout_ok_def is_power_of_two_unat)
        then have "(2 :: nat) ^ k \<le> 2 ^ 12" using small by simp
        then have "k \<le> 12" by (simp only: power_increasing_iff)
        then have "(2 :: nat) ^ k dvd 2 ^ 12" by (rule le_imp_power_dvd)
        with k p(2) show ?thesis by (auto intro: dvd_trans)
      qed
      ultimately show ?thesis using alloc Some p(1) large by (auto simp: ptr_of_def)
    qed
  next
    case False
    then have small: "unat sz < 131072" by (simp add: alloc_consts word_le_nat_alt not_le)
    have szok: "16 \<le> unat sz" "8 dvd unat sz" "unat sz \<le> 2 ^ 62" using n(2) nb small by auto
    have finish: "?thesis" if "alloc_impl oc vm l st = Ok (of_nat a, st')" "0 < a" "a < 2 ^ 63"
      "unat align dvd a" "al_inv st' fl' ((a, unat sz) # live)" for a st' fl'
    proof -
      have "unat (of_nat a :: usize) = a" using that(3) by (intro unat_of_nat_fits) simp
      moreover from this that(2) have "(of_nat a :: usize) \<noteq> 0" by auto
      moreover have "unat (ly_align l) dvd a" using n(5) that(4) by (rule dvd_trans)
      ultimately show ?thesis using that n(2) by (intro exI [of _ "of_nat a"]) auto
    qed
    from take_from_free_list_inv [OF inv szok(1,2), of align oc] show ?thesis
    proof (elim disjE exE conjE)
      fix a st' fl'
      assume t: "take_from_free_list oc sz align st = Ok (Some (of_nat a), st')"
      then have "alloc_impl oc vm l st = Ok (of_nat a, st')" using False by (simp add: alloc_impl_def n)
      moreover assume "0 < a" "a < 2 ^ 63" "unat align dvd a" "al_inv st' fl' ((a, unat sz) # live)"
      ultimately show ?thesis by (rule finish)
    next
      assume t: "take_from_free_list oc sz align st = Ok (None, st)"
      have bump: "(\<exists>a st'. bump_alloc oc sz align st = Ok (Some (of_nat a), st') \<and> 0 < a \<and> a < 2 ^ 63 \<and>
          unat align dvd a \<and> al_inv st' fl ((a, unat sz) # live)) \<or> bump_alloc oc sz align st = Ok (None, st)"
      proof (cases "al_chunk st")
        case None
        then show ?thesis by (simp add: bump_alloc_def)
      next
        case (Some c)
        from bump_alloc_inv [OF inv Some szok n(3,4,6), of oc] show ?thesis
          by (auto split: if_splits)
      qed
      then show ?thesis
      proof (elim disjE exE conjE)
        fix a st'
        assume "bump_alloc oc sz align st = Ok (Some (of_nat a), st')"
        then have "alloc_impl oc vm l st = Ok (of_nat a, st')" using False t by (simp add: alloc_impl_def n)
        moreover assume "0 < a" "a < 2 ^ 63" "unat align dvd a" "al_inv st' fl ((a, unat sz) # live)"
        ultimately show ?thesis by (rule finish)
      next
        assume b: "bump_alloc oc sz align st = Ok (None, st)"
        have need: "wadd oc sz align = Ok (sz + align)" "unat (sz + align) = unat sz + unat align"
          using small n(6) by (simp_all add: unat_add_fits)
        let ?size = "max CHUNK_SIZE (sz + align)"
        show ?thesis
        proof (cases "vm ?size")
          case None
          then have "alloc_impl oc vm l st = Ok (0, st)"
            using False t b need by (simp add: alloc_impl_def n Let_def)
          with None show ?thesis
            using need(2) n(2,7) by (auto simp: vm_request_def unat_max intro!: exI [of _ ?size])
        next
          case (Some base)
          let ?c = "\<lparr>ck_base = base, ck_size = ?size, ck_offset = 0\<rparr>"
          obtain s1 where s1: "s1 = st\<lparr>al_chunk := Some ?c\<rparr>" by blast
          have base: "base \<noteq> 0" "unat base + unat ?size \<le> 2 ^ 63"
            "\<forall>b \<in> set (fl @ live). apart (unat base, unat ?size) b"
            using vm Some by (auto simp: vm_fresh_def)
          have "pdisj ((unat base, unat ?size) # fl @ live)"
            using base(3) inv by (simp add: al_inv_def sorted_wrt_append)
          then have "pdisj (fl @ live @ chunk_rest s1)"
            using pdisj_mset [of "fl @ live @ chunk_rest s1" "(unat base, unat ?size) # fl @ live"]
            by (simp add: s1 chunk_rest_def)
          then have inv1: "al_inv s1 fl live"
            using inv base by (simp add: al_inv_def s1 chunk_ok_def)
          have ck: "al_chunk s1 = Some ?c" by (simp add: s1)
          have "round_to (unat base) (unat align) + unat sz \<le> unat base + unat ?size"
            using round_to_bounds [of "unat align" "unat base"] n(3) need(2)
            by (auto simp: unat_max is_power_of_two_unat)
          with bump_alloc_inv [OF inv1 ck szok n(3,4,6), of oc] obtain a st' where
            a: "bump_alloc oc sz align s1 = Ok (Some (of_nat a), st')" "0 < a" "a < 2 ^ 63"
            "unat align dvd a" "al_inv st' fl ((a, unat sz) # live)"
            by auto
          have "alloc_impl oc vm l st = Ok (of_nat a, st')"
            using False t b need(1) Some a(1) by (simp add: alloc_impl_def n Let_def s1 ptr_of_def)
          with a(2-5) show ?thesis by (intro finish)
        qed
      qed
    qed
  qed
qed

lemma dealloc_impl_inv:
  assumes inv: "al_inv st fl live" and l: "layout_ok l" and p: "(unat p, norm_size l) \<in> set live"
  shows "\<exists>r st' fl'. dealloc_impl oc p l st = Ok (r, st') \<and> al_inv st' fl' (remove1 (unat p, norm_size l) live)"
proof -
  let ?b = "(unat p, norm_size l)" and ?live = "remove1 (unat p, norm_size l) live"
  obtain sz align where n: "al_normalize oc l = Ok (sz, align)" "unat sz = norm_size l"
    using al_normalize_eq [OF l, of oc] by blast
  have ok: "block_ok ?b" using inv p by (simp add: al_inv_def)
  have nn: "non_null p = Some p" using ok by (auto simp: non_null_def block_ok_def)
  have pd: "pdisj (?b # fl @ ?live @ chunk_rest st)"
    using inv p pdisj_mset [of "fl @ live @ chunk_rest st" "?b # fl @ ?live @ chunk_rest st"]
    by (simp add: al_inv_def)
  have live: "\<forall>b \<in> set ?live. block_ok b"
    using inv by (auto simp: al_inv_def dest: notin_set_remove1)
  show ?thesis
  proof (cases "LARGE_THRESHOLD \<le> sz")
    case True
    then have "dealloc_impl oc p l st = Ok (Some (p, sz), st)" by (simp add: dealloc_impl_def nn n)
    moreover have "al_inv st fl ?live" using inv live pd by (simp add: al_inv_def)
    ultimately show ?thesis by blast
  next
    case False
    let ?st = "st\<lparr>al_mem := node_write (al_mem st) p \<lparr>fn_next = al_free st, fn_size = sz\<rparr>, al_free := Some p\<rparr>"
    have "dealloc_impl oc p l st = Ok (None, ?st)" using False by (simp add: dealloc_impl_def nn n)
    moreover have "free_list (al_mem ?st) (al_free ?st) (?b # fl)"
      using free_list_push [of "al_mem st" "al_free st" fl ?b] inv ok pd n(2) [symmetric]
      by (simp add: al_inv_def)
    then have "al_inv ?st (?b # fl) ?live"
      using inv live pd by (simp add: al_inv_def chunk_ok_def chunk_rest_def)
    ultimately show ?thesis by blast
  qed
qed

text \<open>Writes through live blocks do not disturb the allocator.\<close>

lemma client_write_inv:
  assumes inv: "al_inv st fl live"
    and wr: "\<And>w. mem' w \<noteq> al_mem st w \<Longrightarrow> \<exists>b \<in> set live. fst b \<le> unat w \<and> unat w < fst b + snd b"
  shows "al_inv (st\<lparr>al_mem := mem'\<rparr>) fl live"
proof -
  have "free_list mem' (al_free st) fl"
  proof (rule free_list_frame)
    show "free_list (al_mem st) (al_free st) fl" using inv by (simp add: al_inv_def)
    fix b and w :: usize assume b: "b \<in> set fl" "fst b \<le> unat w" "unat w < fst b + snd b"
    show "mem' w = al_mem st w"
    proof (rule ccontr)
      assume "mem' w \<noteq> al_mem st w"
      then obtain c where "c \<in> set live" "fst c \<le> unat w" "unat w < fst c + snd c" using wr by blast
      moreover from this b(1) have "apart b c" using inv by (auto simp: al_inv_def sorted_wrt_append)
      ultimately show False using b by (auto simp: apart_def)
    qed
  qed
  then show ?thesis using inv by (simp add: al_inv_def chunk_ok_def chunk_rest_def)
qed

section \<open>Programs that use the allocator\<close>

definition blocks_of :: "(usize \<times> layout_req) list \<Rightarrow> block list" where
  "blocks_of live = map (\<lambda>(p, l). (unat p, norm_size l)) live"

text \<open>
  All states a program can bring the allocator into, with the pointers it holds: it allocates with
  valid layouts, returns what it holds with the layout it asked for, and writes into its own blocks.
\<close>

inductive al_reach :: "bool \<Rightarrow> alloc_state \<Rightarrow> (usize \<times> layout_req) list \<Rightarrow> bool" for oc where
  Start: "al_reach oc (alloc_state_new mem) []"
| Alloc: "al_reach oc st live \<Longrightarrow> layout_ok l \<Longrightarrow>
    (\<And>fl. free_list (al_mem st) (al_free st) fl \<Longrightarrow> vm_fresh vm (fl @ blocks_of live @ chunk_rest st)) \<Longrightarrow>
    alloc_impl oc vm l st = Ok (p, st') \<Longrightarrow> al_reach oc st' (if p = 0 then live else (p, l) # live)"
| Dealloc: "al_reach oc st live \<Longrightarrow> (p, l) \<in> set live \<Longrightarrow> dealloc_impl oc p l st = Ok (r, st') \<Longrightarrow>
    al_reach oc st' (remove1 (p, l) live)"
| Write: "al_reach oc st live \<Longrightarrow>
    (\<And>w. mem' w \<noteq> al_mem st w \<Longrightarrow>
       \<exists>b \<in> set (blocks_of live). fst b \<le> unat w \<and> unat w < fst b + snd b) \<Longrightarrow>
    al_reach oc (st\<lparr>al_mem := mem'\<rparr>) live"

definition ptr_ok :: "usize \<times> layout_req \<Rightarrow> bool" where
  "ptr_ok x \<longleftrightarrow> (case x of (p, l) \<Rightarrow> p \<noteq> 0 \<and> layout_ok l \<and> unat (ly_size l) \<le> norm_size l \<and>
     (norm_size l < unat LARGE_THRESHOLD \<or> unat (ly_align l) \<le> 4096 \<longrightarrow> unat (ly_align l) dvd unat p))"

lemma al_inv_mset:
  assumes "al_inv st fl live" "mset live' = mset live"
  shows "al_inv st fl live'"
proof -
  have "mset (fl @ live' @ chunk_rest st) = mset (fl @ live @ chunk_rest st)" using assms(2) by simp
  then have "pdisj (fl @ live' @ chunk_rest st)"
    using pdisj_mset assms(1) unfolding al_inv_def by blast
  with assms mset_eq_setD [OF assms(2)] show ?thesis by (simp add: al_inv_def)
qed

lemma al_reach_inv:
  "al_reach oc st live \<Longrightarrow> (\<exists>fl. al_inv st fl (blocks_of live)) \<and> (\<forall>x \<in> set live. ptr_ok x)"
proof (induction rule: al_reach.induct)
  case (Start mem)
  have "al_inv (alloc_state_new mem) [] (blocks_of [])"
    by (simp add: al_inv_def alloc_state_new_def chunk_ok_def chunk_rest_def blocks_of_def)
  then show ?case by auto
next
  case (Alloc st live l vm p st')
  then obtain fl where fl: "al_inv st fl (blocks_of live)" by blast
  then have "free_list (al_mem st) (al_free st) fl" by (simp add: al_inv_def)
  with Alloc have "vm_fresh vm (fl @ blocks_of live @ chunk_rest st)" by blast
  from alloc_impl_inv [OF fl \<open>layout_ok l\<close> this, of oc] Alloc
  show ?case
    using norm_size_bounds [of l] fl
    by (auto simp: blocks_of_def ptr_ok_def split: if_splits)
next
  case (Dealloc st live p l r st')
  then obtain fl where fl: "al_inv st fl (blocks_of live)" by blast
  have l: "layout_ok l" using Dealloc by (auto simp: ptr_ok_def)
  have mem: "(unat p, norm_size l) \<in> set (blocks_of live)"
    using Dealloc by (force simp: blocks_of_def)
  obtain fl' where fl': "al_inv st' fl' (remove1 (unat p, norm_size l) (blocks_of live))"
    using dealloc_impl_inv [OF fl l mem, of oc] Dealloc by auto
  have "mset (blocks_of (remove1 (p, l) live)) = mset (remove1 (unat p, norm_size l) (blocks_of live))"
    using \<open>(p, l) \<in> set live\<close> by (simp add: blocks_of_def image_mset_Diff)
  with al_inv_mset [OF fl'] Dealloc show ?case by (auto dest: notin_set_remove1)
next
  case (Write st live mem')
  then obtain fl where fl: "al_inv st fl (blocks_of live)" by blast
  have "al_inv (st\<lparr>al_mem := mem'\<rparr>) fl (blocks_of live)"
    by (rule client_write_inv [OF fl]) (rule Write)
  then show ?case using Write.IH by blast
qed

section \<open>The lock\<close>

text \<open>\<open>with_state\<close> run by any number of threads: a call spins on the compare-exchange, which may also
  fail spuriously, works on the state, and stores \<open>false\<close>.\<close>

datatype lock_pc = Outside | Spinning | Inside

record lock_state =
  lk_locked :: bool
  lk_pc :: "nat \<Rightarrow> lock_pc"

inductive lock_step :: "lock_state \<Rightarrow> lock_state \<Rightarrow> bool" where
  call: "lk_pc s t = Outside \<Longrightarrow> lock_step s (s\<lparr>lk_pc := (lk_pc s)(t := Spinning)\<rparr>)"
| cas_failed: "lk_pc s t = Spinning \<Longrightarrow> lock_step s s"
| cas_ok: "lk_pc s t = Spinning \<Longrightarrow> \<not> lk_locked s \<Longrightarrow>
    lock_step s (s\<lparr>lk_locked := True, lk_pc := (lk_pc s)(t := Inside)\<rparr>)"
| release: "lk_pc s t = Inside \<Longrightarrow>
    lock_step s (s\<lparr>lk_locked := False, lk_pc := (lk_pc s)(t := Outside)\<rparr>)"

definition lock_init :: lock_state where
  "lock_init = \<lparr>lk_locked = False, lk_pc = (\<lambda>_. Outside)\<rparr>"

inductive_cases lock_stepE: "lock_step s s'"

definition lock_inv :: "lock_state \<Rightarrow> bool" where
  "lock_inv s \<longleftrightarrow> (\<forall>t u. lk_pc s t = Inside \<longrightarrow> lk_pc s u = Inside \<longrightarrow> t = u) \<and>
     (lk_locked s \<longleftrightarrow> (\<exists>t. lk_pc s t = Inside))"

lemma lock_step_inv: "lock_step s s' \<Longrightarrow> lock_inv s \<Longrightarrow> lock_inv s'"
  by (erule lock_stepE; clarsimp simp: lock_inv_def; metis lock_pc.distinct)

section \<open>A sample kernel\<close>

text \<open>A kernel that answers every small request with the region at 1 MiB, and a sample request.\<close>

definition sample_vm :: vm where
  "sample_vm n = (if unat n \<le> 0x100000 then Some 0x100000 else None)"

definition sample_layout :: layout_req where
  "sample_layout = \<lparr>ly_size = 40, ly_align = 64\<rparr>"

lemma sample_layout_ok: "layout_ok sample_layout" "norm_size sample_layout = 40"
proof -
  have "is_power_of_two 64" by (simp add: is_power_of_two_unat) (rule exI [of _ 6], simp)
  then show "layout_ok sample_layout" by (simp add: sample_layout_def layout_ok_def)
  show "norm_size sample_layout = 40" by (simp add: sample_layout_def norm_size_def round_to_def)
qed

lemma sample_vm_fresh:
  "free_list (al_mem (alloc_state_new mem)) (al_free (alloc_state_new mem)) fl \<Longrightarrow>
     vm_fresh sample_vm (fl @ blocks_of [] @ chunk_rest (alloc_state_new mem))"
  by (cases fl) (auto simp: alloc_state_new_def vm_fresh_def sample_vm_def blocks_of_def chunk_rest_def
      split: if_splits)

lemma sample_alloc:
  "\<exists>st p. alloc_impl oc sample_vm sample_layout (alloc_state_new mem) = Ok (p, st) \<and> p \<noteq> 0"
proof -
  let ?st = "alloc_state_new mem"
  have inv: "al_inv ?st [] []"
    by (simp add: al_inv_def alloc_state_new_def chunk_ok_def chunk_rest_def)
  have fresh: "vm_fresh sample_vm ([] @ [] @ chunk_rest ?st)"
    using sample_vm_fresh [of mem "[]"] by (simp add: alloc_state_new_def blocks_of_def)
  have "vm_request sample_layout \<le> 0x100000"
    by (simp add: vm_request_def sample_layout_ok(2)) (simp add: sample_layout_def alloc_consts)
  then have "\<not> (\<exists>n. sample_vm n = None \<and> unat n \<le> vm_request sample_layout)"
    by (auto simp: sample_vm_def)
  with alloc_impl_inv [OF inv sample_layout_ok(1) fresh, of oc] show ?thesis
    by (metis (full_types))
qed

lemma sample_reach: "\<exists>st p. al_reach True st [(p, sample_layout)] \<and> p \<noteq> 0"
proof -
  obtain st p where alloc: "alloc_impl True sample_vm sample_layout (alloc_state_new (\<lambda>_. 0)) = Ok (p, st)"
    and p: "p \<noteq> 0" using sample_alloc by blast
  from al_reach.Alloc [OF al_reach.Start sample_layout_ok(1) sample_vm_fresh alloc] p
  show ?thesis by auto
qed

section \<open>Properties\<close>

text \<open>C3: memory safety of the allocator. In every state a program can reach, the blocks it holds are
  pairwise disjoint, non-null, at least as large as requested, inside the address space, and aligned
  as requested (large requests up to the page alignment the kernel gives); the memory the allocator
  itself uses, its free list threaded through freed blocks and the rest of its chunk, overlaps none
  of them, so a program writing to its blocks cannot corrupt it.\<close>

theorem allocator_memory_safe:
  assumes "al_reach oc st live"
  shows "(\<exists>fl. free_list (al_mem st) (al_free st) fl \<and>
      sorted_wrt apart (fl @ blocks_of live @ chunk_rest st)) \<and>
    (\<forall>(p, l) \<in> set live. p \<noteq> 0 \<and> unat (ly_size l) \<le> norm_size l \<and> unat p + norm_size l \<le> 2 ^ 63 \<and>
      (norm_size l < unat LARGE_THRESHOLD \<or> unat (ly_align l) \<le> 4096 \<longrightarrow> unat (ly_align l) dvd unat p))"
proof -
  obtain fl where fl: "al_inv st fl (blocks_of live)" and ok: "\<forall>x \<in> set live. ptr_ok x"
    using al_reach_inv [OF assms] by blast
  have "\<forall>b \<in> set (blocks_of live). block_ok b" using fl by (simp add: al_inv_def)
  with ok have "\<forall>(p, l) \<in> set live. p \<noteq> 0 \<and> unat (ly_size l) \<le> norm_size l \<and> unat p + norm_size l \<le> 2 ^ 63 \<and>
      (norm_size l < unat LARGE_THRESHOLD \<or> unat (ly_align l) \<le> 4096 \<longrightarrow> unat (ly_align l) dvd unat p)"
    by (fastforce simp: ptr_ok_def blocks_of_def block_ok_def)
  with fl show ?thesis by (auto simp: al_inv_def)
qed

theorem allocator_memory_safe_witness:
  "\<exists>st p. al_reach True st [(p, sample_layout)] \<and> p \<noteq> 0 \<and> 64 dvd unat p \<and>
     unat p + 40 \<le> 2 ^ 63"
proof -
  obtain st p where r: "al_reach True st [(p, sample_layout)]" "p \<noteq> 0" using sample_reach by blast
  from allocator_memory_safe [OF r(1)] have "64 dvd unat p \<and> unat p + 40 \<le> 2 ^ 63"
    by (simp add: sample_layout_ok(2)) (simp add: sample_layout_def alloc_consts)
  with r show ?thesis by blast
qed

text \<open>C38: allocation always returns. From every reachable state a request with a valid layout ends
  (the free list is never cyclic), with no panic in either build profile; it yields null exactly
  when the kernel refuses a region, and otherwise a block disjoint from every block in use.\<close>

theorem alloc_total:
  assumes "al_reach oc st live" "layout_ok l"
    and "\<And>fl. free_list (al_mem st) (al_free st) fl \<Longrightarrow> vm_fresh vm (fl @ blocks_of live @ chunk_rest st)"
  shows "\<exists>p st'. alloc_impl oc vm l st = Ok (p, st') \<and>
    (if p = 0 then st' = st \<and> (\<exists>n. vm n = None \<and> unat n \<le> vm_request l)
     else \<forall>(q, k) \<in> set live. apart (unat p, norm_size l) (unat q, norm_size k))"
proof -
  obtain fl where fl: "al_inv st fl (blocks_of live)" using al_reach_inv [OF assms(1)] by blast
  then have "vm_fresh vm (fl @ blocks_of live @ chunk_rest st)"
    by (intro assms(3)) (simp add: al_inv_def)
  from alloc_impl_inv [OF fl assms(2) this, of oc] obtain p st' fl' where
    a: "alloc_impl oc vm l st = Ok (p, st')"
    "if p = 0 then st' = st \<and> (\<exists>n. vm n = None \<and> unat n \<le> vm_request l)
     else al_inv st' fl' ((unat p, norm_size l) # blocks_of live)"
    by (metis (full_types))
  have "\<forall>(q, k) \<in> set live. apart (unat p, norm_size l) (unat q, norm_size k)" if "p \<noteq> 0"
  proof -
    have "\<forall>b \<in> set (blocks_of live). apart (unat p, norm_size l) b"
      using a(2) that by (simp add: al_inv_def sorted_wrt_append)
    then show ?thesis by (auto simp: blocks_of_def)
  qed
  with a show ?thesis by (intro exI [of _ p] exI [of _ st']) (simp split: if_splits)
qed

theorem alloc_total_witness:
  "\<exists>p st'. alloc_impl True sample_vm sample_layout (alloc_state_new (\<lambda>_. 0)) = Ok (p, st')"
  using alloc_total [OF al_reach.Start sample_layout_ok(1) sample_vm_fresh, of "\<lambda>_. 0" True] by blast

text \<open>Freed memory is reused. Returning a small block and asking for the same layout again gives
  the same pointer back, without asking the kernel, and restores the free list.\<close>

theorem dealloc_alloc_reuse:
  assumes "al_inv st fl live" "(unat p, norm_size l) \<in> set live" "layout_ok l"
    and "unat (ly_align l) dvd unat p" "norm_size l < unat LARGE_THRESHOLD"
    and "dealloc_impl oc p l st = Ok (r, st1)"
  shows "\<exists>st2. alloc_impl oc (\<lambda>_. None) l st1 = Ok (p, st2) \<and> al_free st2 = al_free st \<and>
    al_chunk st2 = al_chunk st"
proof -
  obtain sz align where n: "al_normalize oc l = Ok (sz, align)" "unat sz = norm_size l"
    "unat align = max (unat (ly_align l)) 8"
    using al_normalize_eq [OF assms(3), of oc] by blast
  have small: "\<not> LARGE_THRESHOLD \<le> sz" using assms(5) n(2) by (simp add: word_le_nat_alt)
  have ok: "block_ok (unat p, norm_size l)" using assms(1,2) by (simp add: al_inv_def)
  then have nn: "p \<noteq> 0" "8 dvd unat p" by (auto simp: block_ok_def)
  have "unat align dvd unat p"
    using assms(4) nn(2) n(3) by (simp add: max_def)
  then have div: "p mod align = 0"
    by (metis dvd_imp_mod_0 unat_mod_distrib unsigned_eq_0_iff)
  have st1: "st1 = st\<lparr>al_mem := node_write (al_mem st) p \<lparr>fn_next = al_free st, fn_size = sz\<rparr>, al_free := Some p\<rparr>"
    using assms(6) small nn by (simp add: dealloc_impl_def non_null_def n)
  have "al_free st \<noteq> Some 0"
    using assms(1) by (cases fl) (auto simp: al_inv_def dest: unat_block)
  then have node: "node_read (al_mem st1) p = \<lparr>fn_next = al_free st, fn_size = sz\<rparr>"
    by (simp add: st1 nodes.rd_same)
  have "find_node st1 sz align Head = Some (Some (Head, p))"
  proof -
    have "cursor_load st1 Head = Some p" by (simp add: cursor_load_def st1)
    then show ?thesis by (subst find_node.simps) (simp add: node div)
  qed
  then have "take_from_free_list oc sz align st1 = Ok (Some p, st1\<lparr>al_free := al_free st\<rparr>)"
    by (simp add: take_from_free_list_def node cursor_store_def MIN_REUSE_def Let_def)
  then show ?thesis using small by (simp add: alloc_impl_def n st1)
qed

theorem dealloc_alloc_reuse_witness:
  "\<exists>st st1 st2 p. dealloc_impl True p sample_layout st = Ok (None, st1) \<and>
     alloc_impl True (\<lambda>_. None) sample_layout st1 = Ok (p, st2)"
proof -
  let ?p = "0x100000 :: usize"
  let ?st = "alloc_state_new (\<lambda>_. 0)"
  have inv: "al_inv ?st [] [(unat ?p, norm_size sample_layout)]"
    by (simp add: al_inv_def alloc_state_new_def chunk_ok_def chunk_rest_def sample_layout_ok(2) block_ok_def)
  obtain sz align where n: "al_normalize True sample_layout = Ok (sz, align)" "unat sz = 40"
    using al_normalize_eq [OF sample_layout_ok(1), of True] sample_layout_ok(2) by auto
  define st1 where "st1 = ?st\<lparr>al_mem := node_write (al_mem ?st) ?p
      \<lparr>fn_next = al_free ?st, fn_size = sz\<rparr>, al_free := Some ?p\<rparr>"
  have d: "dealloc_impl True ?p sample_layout ?st = Ok (None, st1)"
    using n by (simp add: dealloc_impl_def non_null_def alloc_consts word_le_nat_alt st1_def)
  have align: "unat (ly_align sample_layout) dvd unat ?p" by (simp add: sample_layout_def)
  have small: "norm_size sample_layout < unat LARGE_THRESHOLD"
    by (simp add: sample_layout_ok(2) alloc_consts)
  show ?thesis
    using dealloc_alloc_reuse [OF inv _ sample_layout_ok(1) align small d] d by auto
qed

text \<open>C39: mutual exclusion. Whatever the interleaving of threads, at most one is inside
  \<open>with_state\<close>, and the lock is taken exactly while one is.\<close>

theorem spinlock_mutual_exclusion:
  assumes "lock_step\<^sup>*\<^sup>* lock_init s"
  shows "(lk_pc s t = Inside \<and> lk_pc s u = Inside \<longrightarrow> t = u) \<and>
    (lk_locked s \<longleftrightarrow> (\<exists>t. lk_pc s t = Inside))"
proof -
  have "lock_inv s"
    using assms
  proof (induction rule: rtranclp_induct)
    case base
    then show ?case by (simp add: lock_init_def lock_inv_def)
  qed (rule lock_step_inv)
  then show ?thesis unfolding lock_inv_def by blast
qed

theorem spinlock_mutual_exclusion_witness:
  "\<exists>s. lock_step\<^sup>*\<^sup>* lock_init s \<and> lk_pc s 1 = Inside \<and> lk_locked s \<and> lk_pc s 2 \<noteq> Inside"
proof -
  let ?a = "lock_init\<lparr>lk_pc := (lk_pc lock_init)(1 := Spinning)\<rparr>"
  let ?b = "?a\<lparr>lk_locked := True, lk_pc := (lk_pc ?a)(1 := Inside)\<rparr>"
  have "lock_step lock_init ?a" by (rule call) (simp add: lock_init_def)
  moreover have "lock_step ?a ?b" by (rule cas_ok) (simp_all add: lock_init_def)
  ultimately have r: "lock_step\<^sup>*\<^sup>* lock_init ?b" by (meson r_into_rtranclp rtranclp.rtrancl_into_rtrancl)
  have "lk_pc ?b 1 = Inside" by simp
  moreover have "lk_locked ?b" by simp
  moreover have "lk_pc ?b 2 \<noteq> Inside"
    using spinlock_mutual_exclusion [OF r, of 1 2] by auto
  ultimately show ?thesis using r by blast
qed

end
