(* ===== verification/Dylib.thy ===== *)
theory Dylib
  imports Macho_Image
begin

text \<open>
  \<open>src/src/dylib.rs\<close>: symbol lookup in one library on disk and the chase of re-exports through a
  lookup function from install paths to images. The chase is characterised by the relation that one
  re-export hop induces: it finds a definition exactly when fewer than sixteen hops lead to it.
\<close>

datatype dylib_symbol =
    Defined u64
  | Reexported bytes bytes

definition dylib_symbol_resolve :: "env \<Rightarrow> container \<Rightarrow> bytes \<Rightarrow> dylib_symbol option res" where
  "dylib_symbol_resolve E c symbol =
     (let image = macho_image_new c 0 in
      obind (exports_trie_span_find E image) (\<lambda>span.
      case slice c (ucast (ts_file_offset span)) (ucast (ts_size_in_bytes span)) of
        None \<Rightarrow> Ok None
      | Some trie_bytes \<Rightarrow>
          obind (exports_trie_walk_for_symbol (overflow_checks E) trie_bytes symbol) (\<lambda>terminal.
          case terminal of
            DefinedHere off \<Rightarrow> Ok (Some (Defined off))
          | ReexportedFromDependency dependency_ordinal aliased_name \<Rightarrow>
              obind (dylib_install_path_for_ordinal E image dependency_ordinal) (\<lambda>target_install_path.
              Ok (Some (Reexported target_install_path
                          (if aliased_name = [] then symbol else aliased_name)))))))"

fun reexport_loop ::
  "env \<Rightarrow> (bytes \<Rightarrow> container option) \<Rightarrow> nat \<Rightarrow> container \<Rightarrow> bytes \<Rightarrow> bytes \<Rightarrow> (bytes \<times> u64) option res" where
  "reexport_loop E library_lookup 0 c symbol path = Ok None"
| "reexport_loop E library_lookup (Suc n) c symbol path =
     obind (dylib_symbol_resolve E c symbol) (\<lambda>r.
     case r of
       Defined off \<Rightarrow> Ok (Some (path, off))
     | Reexported target_install_path target_symbol \<Rightarrow>
         (case library_lookup target_install_path of
            None \<Rightarrow> Ok None
          | Some next_container \<Rightarrow>
              reexport_loop E library_lookup n next_container target_symbol target_install_path))"

definition dylib_symbol_resolve_following_reexports ::
  "env \<Rightarrow> container \<Rightarrow> bytes \<Rightarrow> (bytes \<Rightarrow> container option) \<Rightarrow> (bytes \<times> u64) option res" where
  "dylib_symbol_resolve_following_reexports E c symbol library_lookup =
     reexport_loop E library_lookup MAX_REEXPORT_RESOLUTION_DEPTH c symbol []"

section \<open>Hops\<close>

text \<open>A place to look for a symbol: an image, the name it has there, and the path that led to it.\<close>

type_synonym place = "container \<times> bytes \<times> bytes"

inductive reexport_hop :: "env \<Rightarrow> (bytes \<Rightarrow> container option) \<Rightarrow> place \<Rightarrow> place \<Rightarrow> bool" for E lookup where
  "dylib_symbol_resolve E c s = Ok (Some (Reexported p s')) \<Longrightarrow> lookup p = Some c' \<Longrightarrow>
     reexport_hop E lookup (c, s, q) (c', s', p)"

inductive_cases reexport_hopE: "reexport_hop E lookup x y"

lemma reexport_hop_iff:
  "reexport_hop E lookup (c, s, q) y \<longleftrightarrow>
     (\<exists>p s' c'. dylib_symbol_resolve E c s = Ok (Some (Reexported p s')) \<and> lookup p = Some c' \<and> y = (c', s', p))"
  by (auto intro: reexport_hop.intros elim: reexport_hopE)

lemma relpowp_first: "(R ^^ Suc k) x y \<longleftrightarrow> (\<exists>z. R x z \<and> (R ^^ k) z y)"
  by (metis relpowp_Suc_D2 relpowp_Suc_I2)

lemma reexport_loop_hops:
  "reexport_loop E lookup n c s q = Ok (Some (path, off)) \<longleftrightarrow>
     (\<exists>k < n. \<exists>c' s'. (reexport_hop E lookup ^^ k) (c, s, q) (c', s', path) \<and>
        dylib_symbol_resolve E c' s' = Ok (Some (Defined off)))"
proof (induction n arbitrary: c s q)
  case 0
  then show ?case by simp
next
  case (Suc n)
  have split: "(\<exists>k < Suc n. P k) \<longleftrightarrow> P 0 \<or> (\<exists>k < n. P (Suc k))" for P :: "nat \<Rightarrow> bool"
    by (rule Ex_less_Suc2)
  show ?case
  proof (cases "dylib_symbol_resolve E c s = Ok (Some (Defined off)) \<and> path = q")
    case True
    then show ?thesis by (auto intro!: exI [of _ 0])
  next
    case base: False
    have "reexport_loop E lookup (Suc n) c s q = Ok (Some (path, off)) \<longleftrightarrow>
        (\<exists>p s' c'. dylib_symbol_resolve E c s = Ok (Some (Reexported p s')) \<and> lookup p = Some c' \<and>
           reexport_loop E lookup n c' s' p = Ok (Some (path, off)))"
      using base
    proof (cases "dylib_symbol_resolve E c s")
      case (Ok r)
      show ?thesis
      proof (cases r)
        case (Some d)
        with Ok base show ?thesis by (cases d) (auto split: option.splits)
      qed (use Ok in simp)
    qed simp_all
    also have "\<dots> \<longleftrightarrow> (\<exists>p s' c'. dylib_symbol_resolve E c s = Ok (Some (Reexported p s')) \<and> lookup p = Some c' \<and>
        (\<exists>k < n. \<exists>c'' s''. (reexport_hop E lookup ^^ k) (c', s', p) (c'', s'', path) \<and>
          dylib_symbol_resolve E c'' s'' = Ok (Some (Defined off))))"
      by (simp only: Suc.IH)
    also have "\<dots> \<longleftrightarrow> (\<exists>k < n. \<exists>c'' s''. (reexport_hop E lookup ^^ Suc k) (c, s, q) (c'', s'', path) \<and>
          dylib_symbol_resolve E c'' s'' = Ok (Some (Defined off)))"
      unfolding relpowp_first reexport_hop_iff by blast
    finally show ?thesis
      unfolding split using base by (auto simp del: relpowp.simps(2) reexport_loop.simps)
  qed
qed

section \<open>Lookups return\<close>

lemma case_option_Diverge: "(case x of None \<Rightarrow> a | Some y \<Rightarrow> f y) = Diverge \<longleftrightarrow>
    (x = None \<and> a = Diverge) \<or> (\<exists>y. x = Some y \<and> f y = Diverge)"
  by (cases x) auto

lemma slice_not_Diverge [simp]: "slice_from xs i \<noteq> Diverge" "index_at xs i \<noteq> Diverge"
  "slice_range xs i j \<noteq> Diverge"
  by (simp_all add: slice_from_def index_at_def slice_range_def)

lemma edge_loop_returns: "edge_loop oc t suffix n off \<noteq> Diverge"
  by (induction n arbitrary: off) (auto simp: res_simps split: option.splits)

lemma walk_loop_returns: "walk_loop oc t n off s \<noteq> Diverge"
proof -
  have "trie_open oc t off \<noteq> Diverge" for off
    by (auto simp: trie_open_def res_simps split: option.splits)
  moreover have "terminal_payload_read oc node \<noteq> Diverge" for node
    by (auto simp: terminal_payload_read_def Let_def res_simps split: option.splits)
  moreover have "child_edge_matching_prefix_find oc node s \<noteq> Diverge" for node s
    by (auto simp: child_edge_matching_prefix_find_def Let_def res_simps edge_loop_returns)
  ultimately show ?thesis
    by (induction n arbitrary: off s) (auto simp: res_simps split: if_splits)
qed

lemma find_loop_returns:
  "(\<And>cmd off s. visit cmd off s \<noteq> Diverge) \<Longrightarrow> find_loop E c visit n off s \<noteq> Diverge"
  by (induction n arbitrary: off s) (auto simp: res_simps split: option.splits)

lemma load_commands_find_returns:
  "(\<And>cmd off s. visit cmd off s \<noteq> Diverge) \<Longrightarrow> load_commands_find E im visit s \<noteq> Diverge"
  by (auto simp: load_commands_find_def mach_header_read_def res_simps find_loop_returns)

lemma install_name_returns: "dylib_install_name_read E im off \<noteq> Diverge"
  by (auto simp: dylib_install_name_read_def cstr_at_eq res_simps split: option.splits if_splits)

lemma image_queries_return:
  "exports_trie_span_find E im \<noteq> Diverge" "dylib_install_path_for_ordinal E im k \<noteq> Diverge"
  "reexported_dylib_paths_collect E im \<noteq> Diverge" "linkedit_segment_find E im \<noteq> Diverge"
proof -
  have "exports_trie_span_visit E im cmd off s \<noteq> Diverge" for cmd off s
    by (auto simp: exports_trie_span_visit_def res_simps split: load_command_variants.splits)
  then show "exports_trie_span_find E im \<noteq> Diverge"
    using load_commands_find_returns [of "exports_trie_span_visit E im" E im] by (auto simp: exports_trie_span_find_def res_simps)
  have "install_path_visit E im k cmd off s \<noteq> Diverge" for cmd off s
    by (auto simp: install_path_visit_def res_simps install_name_returns split: if_splits)
  then show "dylib_install_path_for_ordinal E im k \<noteq> Diverge"
    using load_commands_find_returns [of "install_path_visit E im k" E im] by (auto simp: dylib_install_path_for_ordinal_def res_simps)
  have "reexported_visit E im cmd off s \<noteq> Diverge" for cmd off s
    using install_name_returns by (auto simp: reexported_visit_def split: res.splits)
  then show "reexported_dylib_paths_collect E im \<noteq> Diverge"
    using load_commands_find_returns [of "reexported_visit E im" E im] by (auto simp: reexported_dylib_paths_collect_def res_simps)
  have "linkedit_visit E im cmd off s \<noteq> Diverge" for cmd off s
    by (auto simp: linkedit_visit_def res_simps)
  then show "linkedit_segment_find E im \<noteq> Diverge"
    using load_commands_find_returns [of "linkedit_visit E im" E im] by (auto simp: linkedit_segment_find_def res_simps)
qed

lemma dylib_symbol_resolve_returns: "dylib_symbol_resolve E c s \<noteq> Diverge"
  by (auto simp: dylib_symbol_resolve_def Let_def res_simps image_queries_return walk_loop_returns
      exports_trie_walk_for_symbol_def split: option.splits export_terminal.splits)

section \<open>Properties\<close>

text \<open>C6: chasing re-exports is exact. The chase returns path \<open>p\<close> and offset \<open>off\<close> exactly when fewer
  than sixteen hops, each following a re-export to the image the lookup gives for its install path,
  lead from the first image to an image that defines the symbol at \<open>off\<close> and was reached through
  \<open>p\<close>. It always ends, also when libraries re-export from each other in a cycle.\<close>

theorem following_reexports_exact:
  "(dylib_symbol_resolve_following_reexports E c s lookup = Ok (Some (path, off)) \<longleftrightarrow>
     (\<exists>k < 16. \<exists>c' s'. (reexport_hop E lookup ^^ k) (c, s, []) (c', s', path) \<and>
        dylib_symbol_resolve E c' s' = Ok (Some (Defined off)))) \<and>
   dylib_symbol_resolve_following_reexports E c s lookup \<noteq> Diverge"
proof -
  have "reexport_loop E lookup n c s q \<noteq> Diverge" for n c s q
    by (induction n arbitrary: c s q)
      (auto simp: res_simps dylib_symbol_resolve_returns split: dylib_symbol.splits option.splits)
  then show ?thesis
    by (auto simp: dylib_symbol_resolve_following_reexports_def MAX_REEXPORT_RESOLUTION_DEPTH_def
        reexport_loop_hops)
qed

end
