(* ===== verification/Dyld_Shared_Cache.thy ===== *)
theory Dyld_Shared_Cache
  imports Dylib
begin

text \<open>
  \<open>src/src/dyld_shared_cache.rs\<close>: the view of the system libraries inside the mapped shared cache.
  Raw memory is a function from addresses to bytes, and a mapped subcache is the range of it the code
  turns into a slice. The lemmas cover the address translations (each against the list of mappings
  and against each other), the attachment of the subcaches, and symbol resolution, which is shown
  sound and complete for the relation "resolves through at most so many libraries".
\<close>

section \<open>Subcaches\<close>

record sub_cache =
  sc_container :: container
  sc_unslid_base_vm_address :: u64
  sc_mapping_table_offset :: u32
  sc_mapping_table_entry_count :: u32

text \<open>\<open>core::slice::from_raw_parts\<close> on the bytes of the process.\<close>

definition raw_slice :: "(usize \<Rightarrow> u8) \<Rightarrow> usize \<Rightarrow> usize \<Rightarrow> bytes" where
  "raw_slice mem p len = map (\<lambda>i. mem (p + of_nat i)) [0..<unat len]"

definition dsc_header_read :: "env \<Rightarrow> container \<Rightarrow> dyld_cache_header res" where
  "dsc_header_read E c = ok_or No_Cache_Header (deserialize_type_at_offset (pread_dyld_cache_header E) c 0)"

definition from_runtime_mapping ::
  "env \<Rightarrow> (usize \<Rightarrow> u8) \<Rightarrow> usize \<Rightarrow> usize \<Rightarrow> u64 \<Rightarrow> sub_cache res" where
  "from_runtime_mapping E mem runtime_pointer len unslid_base_vm_address =
     (let c = with_bytes (raw_slice mem runtime_pointer len) Little in
      rbind (dsc_header_read E c) (\<lambda>h.
      Ok \<lparr>sc_container = c, sc_unslid_base_vm_address = unslid_base_vm_address,
          sc_mapping_table_offset = ch_mapping_offset h,
          sc_mapping_table_entry_count = ch_mapping_count h\<rparr>))"

text \<open>The \<open>i\<close>-th item of \<open>mappings_iter\<close>; a malformed table is a panic when the item is reached.\<close>

definition mapping_at :: "env \<Rightarrow> sub_cache \<Rightarrow> nat \<Rightarrow> dyld_cache_mapping_info res" where
  "mapping_at E sc i =
     rbind (wmul (overflow_checks E) (of_nat i) (of_nat (size_of dyld_cache_mapping_info_layout))) (\<lambda>d.
     rbind (wadd (overflow_checks E) (ucast (sc_mapping_table_offset sc)) d) (\<lambda>off.
     unwrap (deserialize_type_at_offset (pread_dyld_cache_mapping_info E) (sc_container sc) off)))"

definition mappings_find :: "env \<Rightarrow> sub_cache \<Rightarrow> (dyld_cache_mapping_info \<Rightarrow> 'a option res) \<Rightarrow> 'a option res" where
  "mappings_find E sc f =
     find_map (\<lambda>i. rbind (mapping_at E sc i) f) [0..<unat (sc_mapping_table_entry_count sc)]"

definition runtime_offset_for_vm_address :: "env \<Rightarrow> sub_cache \<Rightarrow> u64 \<Rightarrow> usize option res" where
  "runtime_offset_for_vm_address E sc unslid_vm_address =
     mappings_find E sc (\<lambda>m.
       rbind (wadd (overflow_checks E) (mi_address m) (mi_size m)) (\<lambda>e.
       if mi_address m \<le> unslid_vm_address \<and> unslid_vm_address < e
       then rbind (wsub (overflow_checks E) unslid_vm_address (sc_unslid_base_vm_address sc)) (\<lambda>o'. Ok (Some o'))
       else Ok None))"

definition runtime_offset_for_file_offset :: "env \<Rightarrow> sub_cache \<Rightarrow> u64 \<Rightarrow> usize option res" where
  "runtime_offset_for_file_offset E sc file_offset =
     mappings_find E sc (\<lambda>m.
       rbind (wadd (overflow_checks E) (mi_file_offset m) (mi_size m)) (\<lambda>e.
       if mi_file_offset m \<le> file_offset \<and> file_offset < e
       then rbind (wsub (overflow_checks E) file_offset (mi_file_offset m)) (\<lambda>offset_within_mapping.
            rbind (wsub (overflow_checks E) (mi_address m) (sc_unslid_base_vm_address sc)) (\<lambda>d.
            rbind (wadd (overflow_checks E) d offset_within_mapping) (\<lambda>o'. Ok (Some o'))))
       else Ok None))"

definition vm_address_for_file_offset :: "env \<Rightarrow> sub_cache \<Rightarrow> u64 \<Rightarrow> u64 option res" where
  "vm_address_for_file_offset E sc file_offset =
     mappings_find E sc (\<lambda>m.
       rbind (wadd (overflow_checks E) (mi_file_offset m) (mi_size m)) (\<lambda>e.
       if mi_file_offset m \<le> file_offset \<and> file_offset < e
       then rbind (wsub (overflow_checks E) file_offset (mi_file_offset m)) (\<lambda>d.
            rbind (wadd (overflow_checks E) (mi_address m) d) (\<lambda>a. Ok (Some a)))
       else Ok None))"

section \<open>The cache\<close>

record shared_cache_library =
  sl_sub_cache_index :: u8
  sl_mach_header_runtime_offset :: usize
  sl_install_path :: bytes
  sl_unslid_load_address :: u64

record shared_cache =
  dsc_sub_caches :: "sub_cache list"
  dsc_libraries :: "shared_cache_library list"
  dsc_cache_slide :: u64

definition dsc_new :: shared_cache where
  "dsc_new = \<lparr>dsc_sub_caches = [], dsc_libraries = [], dsc_cache_slide = 0\<rparr>"

definition read_main_cache_unslid_base_from :: "env \<Rightarrow> (usize \<Rightarrow> u8) \<Rightarrow> usize \<Rightarrow> u64 res" where
  "read_main_cache_unslid_base_from E mem header_pointer =
     (let len = size_of dyld_cache_header_layout + 32 * size_of dyld_cache_mapping_info_layout;
          c = with_bytes (raw_slice mem header_pointer (of_nat len)) Little in
      rbind (dsc_header_read E c) (\<lambda>h.
      rbind (ok_or No_First_Mapping
        (deserialize_type_at_offset (pread_dyld_cache_mapping_info E) c (ucast (ch_mapping_offset h)))) (\<lambda>m.
      Ok (mi_address m))))"

fun mapped_length_loop :: "env \<Rightarrow> container \<Rightarrow> u32 \<Rightarrow> u64 \<Rightarrow> nat list \<Rightarrow> u64 \<Rightarrow> u64 res" where
  "mapped_length_loop E c mapping_offset base_address [] max_runtime_end = Ok max_runtime_end"
| "mapped_length_loop E c mapping_offset base_address (i # is) max_runtime_end =
     rbind (wmul (overflow_checks E) (of_nat i) (of_nat (size_of dyld_cache_mapping_info_layout))) (\<lambda>d.
     rbind (wadd (overflow_checks E) (ucast mapping_offset) d) (\<lambda>entry_offset.
     rbind (ok_or No_Mapping_Info
       (deserialize_type_at_offset (pread_dyld_cache_mapping_info E) c entry_offset)) (\<lambda>m.
     rbind (wsub (overflow_checks E) (mi_address m) base_address) (\<lambda>d.
     rbind (wadd (overflow_checks E) d (mi_size m)) (\<lambda>runtime_end.
     mapped_length_loop E c mapping_offset base_address is
       (if max_runtime_end < runtime_end then runtime_end else max_runtime_end))))))"

definition read_main_cache_total_mapped_length_from :: "env \<Rightarrow> (usize \<Rightarrow> u8) \<Rightarrow> usize \<Rightarrow> usize res" where
  "read_main_cache_total_mapped_length_from E mem header_pointer =
     (let len = size_of dyld_cache_header_layout + 64 * size_of dyld_cache_mapping_info_layout;
          c = with_bytes (raw_slice mem header_pointer (of_nat len)) Little in
      rbind (dsc_header_read E c) (\<lambda>h.
      rbind (ok_or No_First_Mapping
        (deserialize_type_at_offset (pread_dyld_cache_mapping_info E) c (ucast (ch_mapping_offset h)))) (\<lambda>m.
      mapped_length_loop E c (ch_mapping_offset h) (mi_address m) [0..<unat (ch_mapping_count h)] 0)))"

fun attach_loop ::
  "env \<Rightarrow> (usize \<Rightarrow> u8) \<Rightarrow> usize \<Rightarrow> u64 \<Rightarrow> container \<Rightarrow> u32 \<Rightarrow> nat list \<Rightarrow> sub_cache list \<Rightarrow> sub_cache list res" where
  "attach_loop E mem main_pointer main_base main table_offset [] sub_caches = Ok sub_caches"
| "attach_loop E mem main_pointer main_base main table_offset (i # is) sub_caches =
     rbind (wmul (overflow_checks E) (of_nat i) (of_nat (size_of dyld_subcache_entry_layout))) (\<lambda>d.
     rbind (wadd (overflow_checks E) (ucast table_offset) d) (\<lambda>entry_offset.
     rbind (ok_or No_Subcache_Entry
       (deserialize_type_at_offset (pread_dyld_subcache_entry E) main entry_offset)) (\<lambda>entry.
     rbind (wadd (overflow_checks E) main_base (sce_cache_vm_offset entry)) (\<lambda>subcache_base.
     let subcache_pointer = main_pointer + sce_cache_vm_offset entry in
     rbind (read_main_cache_total_mapped_length_from E mem subcache_pointer) (\<lambda>len.
     rbind (from_runtime_mapping E mem subcache_pointer len subcache_base) (\<lambda>subcache.
     attach_loop E mem main_pointer main_base main table_offset is (sub_caches @ [subcache])))))))"

definition dyld_shared_cache_attach_all ::
  "env \<Rightarrow> (usize \<Rightarrow> u8) \<Rightarrow> usize \<Rightarrow> shared_cache \<Rightarrow> shared_cache res" where
  "dyld_shared_cache_attach_all E mem main_pointer dsc =
     rbind (read_main_cache_unslid_base_from E mem main_pointer) (\<lambda>main_base.
     rbind (read_main_cache_total_mapped_length_from E mem main_pointer) (\<lambda>main_len.
     rbind (from_runtime_mapping E mem main_pointer main_len main_base) (\<lambda>main_subcache.
     let sub_caches = dsc_sub_caches dsc @ [main_subcache] in
     rbind (index_at sub_caches 0) (\<lambda>main.
     rbind (dsc_header_read E (sc_container main)) (\<lambda>h.
     rbind (attach_loop E mem main_pointer main_base (sc_container main) (ch_sub_cache_array_offset h)
              [0..<unat (ch_sub_cache_array_count h)] sub_caches) (\<lambda>sub_caches.
     Ok (dsc\<lparr>dsc_sub_caches := sub_caches\<rparr>)))))))"

fun locate_loop :: "env \<Rightarrow> u64 \<Rightarrow> nat \<Rightarrow> sub_cache list \<Rightarrow> (u8 \<times> usize) option res" where
  "locate_loop E unslid_vm_address i [] = Ok None"
| "locate_loop E unslid_vm_address i (sc # scs) =
     rbind (runtime_offset_for_vm_address E sc unslid_vm_address) (\<lambda>r.
     case r of Some off \<Rightarrow> Ok (Some (of_nat i, off))
     | None \<Rightarrow> locate_loop E unslid_vm_address (Suc i) scs)"

definition subcache_and_offset_locate_from_addr ::
  "env \<Rightarrow> shared_cache \<Rightarrow> u64 \<Rightarrow> (u8 \<times> usize) option res" where
  "subcache_and_offset_locate_from_addr E dsc unslid_vm_address =
     locate_loop E unslid_vm_address 0 (dsc_sub_caches dsc)"

fun index_loop :: "env \<Rightarrow> shared_cache \<Rightarrow> container \<Rightarrow> u32 \<Rightarrow> nat list \<Rightarrow> shared_cache res" where
  "index_loop E dsc main images_offset [] = Ok dsc"
| "index_loop E dsc main images_offset (i # is) =
     rbind (wmul (overflow_checks E) (of_nat i) (of_nat (size_of dyld_cache_image_info_layout))) (\<lambda>d.
     rbind (wadd (overflow_checks E) (ucast images_offset) d) (\<lambda>image_info_offset.
     rbind (ok_or No_Image_Info
       (deserialize_type_at_offset (pread_dyld_cache_image_info E) main image_info_offset)) (\<lambda>info.
     rbind (subcache_and_offset_locate_from_addr E dsc (ii_address info)) (\<lambda>located.
     case located of
       None \<Rightarrow> index_loop E dsc main images_offset is
     | Some (sub_cache_index, mach_header_runtime_offset) \<Rightarrow>
         rbind (index_at (dsc_sub_caches dsc) 0) (\<lambda>sc0.
         rbind (runtime_offset_for_file_offset E sc0 (ucast (ii_path_file_offset info))) (\<lambda>r.
         rbind (ok_or Path_Not_Mapped r) (\<lambda>path_runtime_offset.
         rbind (deserialize_cstr_at_offset main path_runtime_offset) (\<lambda>cs.
         rbind (unwrap (if utf8_valid (cstr_to_bytes cs) then Some (cstr_to_bytes cs) else None)) (\<lambda>path.
         index_loop E (dsc\<lparr>dsc_libraries := dsc_libraries dsc @
             [\<lparr>sl_sub_cache_index = sub_cache_index,
               sl_mach_header_runtime_offset = mach_header_runtime_offset,
               sl_install_path = path, sl_unslid_load_address = ii_address info\<rparr>]\<rparr>)
           main images_offset is))))))))) "

definition main_cache_libraries_index_all :: "env \<Rightarrow> shared_cache \<Rightarrow> shared_cache res" where
  "main_cache_libraries_index_all E dsc =
     rbind (index_at (dsc_sub_caches dsc) 0) (\<lambda>sc0.
     rbind (dsc_header_read E (sc_container sc0)) (\<lambda>h.
     index_loop E dsc (sc_container sc0) (ch_images_offset h) [0..<unat (ch_images_count h)]))"

definition from_existing :: "env \<Rightarrow> (usize \<Rightarrow> u8) \<Rightarrow> usize \<Rightarrow> u64 \<Rightarrow> shared_cache \<Rightarrow> shared_cache res" where
  "from_existing E mem main_cache_header_pointer cache_slide dsc =
     rbind (dyld_shared_cache_attach_all E mem main_cache_header_pointer (dsc\<lparr>dsc_cache_slide := cache_slide\<rparr>))
       (main_cache_libraries_index_all E)"

definition unslid_address_to_runtime_pointer_translate :: "env \<Rightarrow> shared_cache \<Rightarrow> u64 \<Rightarrow> u64 res" where
  "unslid_address_to_runtime_pointer_translate E dsc unslid_vm_address =
     rbind (subcache_and_offset_locate_from_addr E dsc unslid_vm_address) (\<lambda>r.
     case r of None \<Rightarrow> Err Vm_Address_Not_Mapped
     | Some _ \<Rightarrow> wadd (overflow_checks E) unslid_vm_address (dsc_cache_slide dsc))"

definition library_find_by_install_path :: "shared_cache \<Rightarrow> bytes \<Rightarrow> shared_cache_library option" where
  "library_find_by_install_path dsc install_path =
     find (\<lambda>lib. sl_install_path lib = install_path) (dsc_libraries dsc)"

definition is_library_cached :: "shared_cache \<Rightarrow> bytes \<Rightarrow> bool" where
  "is_library_cached dsc install_path \<longleftrightarrow> library_find_by_install_path dsc install_path \<noteq> None"

definition image_view_for_library :: "shared_cache \<Rightarrow> shared_cache_library \<Rightarrow> macho_image res" where
  "image_view_for_library dsc lib =
     rbind (index_at (dsc_sub_caches dsc) (ucast (sl_sub_cache_index lib))) (\<lambda>sc.
     Ok (macho_image_new (sc_container sc) (sl_mach_header_runtime_offset lib)))"

datatype trie_resolution =
    Address u64
  | FollowReexport bytes bytes

definition terminal_resolution ::
  "env \<Rightarrow> shared_cache \<Rightarrow> shared_cache_library \<Rightarrow> macho_image \<Rightarrow> bytes \<Rightarrow> export_terminal \<Rightarrow> trie_resolution option res" where
  "terminal_resolution E dsc lib im symbol terminal =
     (case terminal of
        DefinedHere off \<Rightarrow>
          rbind (wadd (overflow_checks E) (sl_unslid_load_address lib) off) (\<lambda>symbol_unslid_address.
          rbind (unslid_address_to_runtime_pointer_translate E dsc symbol_unslid_address) (\<lambda>a.
          Ok (Some (Address a))))
      | ReexportedFromDependency dependency_ordinal aliased_name \<Rightarrow>
          obind (dylib_install_path_for_ordinal E im dependency_ordinal) (\<lambda>target_library_path.
          Ok (Some (FollowReexport target_library_path
                      (if aliased_name = [] then symbol else aliased_name)))))"

definition try_resolve_via_exports_trie ::
  "env \<Rightarrow> shared_cache \<Rightarrow> shared_cache_library \<Rightarrow> bytes \<Rightarrow> trie_resolution option res" where
  "try_resolve_via_exports_trie E dsc lib symbol =
     rbind (image_view_for_library dsc lib) (\<lambda>image.
     obind (exports_trie_span_find E image) (\<lambda>span.
     obind (linkedit_segment_find E image) (\<lambda>linkedit.
     rbind (wsub (overflow_checks E) (ucast (ts_file_offset span)) (le_fileoff linkedit)) (\<lambda>d.
     rbind (wadd (overflow_checks E) (le_vmaddr linkedit) d) (\<lambda>trie_unslid_vm.
     obind (subcache_and_offset_locate_from_addr E dsc trie_unslid_vm) (\<lambda>(hosting_subcache_index, trie_runtime_offset).
     rbind (index_at (dsc_sub_caches dsc) (ucast hosting_subcache_index)) (\<lambda>sc.
     case slice (sc_container sc) trie_runtime_offset (ucast (ts_size_in_bytes span)) of
       None \<Rightarrow> Ok None
     | Some trie_bytes \<Rightarrow>
         obind (exports_trie_walk_for_symbol (overflow_checks E) trie_bytes symbol)
           (terminal_resolution E dsc lib image symbol))))))))"

text \<open>\<open>try_resolve_via_umbrella_reexports\<close> calls back with one level less of the budget, so it takes
  the recursive call as an argument.\<close>

definition try_resolve_via_umbrella_reexports ::
  "env \<Rightarrow> shared_cache \<Rightarrow> (bytes \<Rightarrow> bytes \<Rightarrow> u64 option res) \<Rightarrow> shared_cache_library \<Rightarrow> bytes \<Rightarrow> u64 option res" where
  "try_resolve_via_umbrella_reexports E dsc resolve lib symbol =
     rbind (image_view_for_library dsc lib) (\<lambda>image.
     rbind (reexported_dylib_paths_collect E image) (\<lambda>reexported_paths.
     find_map (\<lambda>path. resolve path symbol) reexported_paths))"

fun symbol_resolve_with_max_depth :: "env \<Rightarrow> shared_cache \<Rightarrow> nat \<Rightarrow> bytes \<Rightarrow> bytes \<Rightarrow> u64 option res" where
  "symbol_resolve_with_max_depth E dsc 0 path symbol = Ok None"
| "symbol_resolve_with_max_depth E dsc (Suc depth) path symbol =
     (case library_find_by_install_path dsc path of
        None \<Rightarrow> Ok None
      | Some lib \<Rightarrow>
          rbind (try_resolve_via_exports_trie E dsc lib symbol) (\<lambda>r.
          case r of
            Some (Address a) \<Rightarrow> Ok (Some a)
          | Some (FollowReexport target_path target_symbol) \<Rightarrow>
              symbol_resolve_with_max_depth E dsc depth target_path target_symbol
          | None \<Rightarrow>
              try_resolve_via_umbrella_reexports E dsc (symbol_resolve_with_max_depth E dsc depth) lib symbol))"

definition symbol_resolve :: "env \<Rightarrow> shared_cache \<Rightarrow> bytes \<Rightarrow> bytes \<Rightarrow> u64 option res" where
  "symbol_resolve E dsc library_install_path symbol =
     symbol_resolve_with_max_depth E dsc MAX_REEXPORT_RESOLUTION_DEPTH library_install_path symbol"

section \<open>Address translation\<close>

text \<open>\<open>ms\<close> is the mapping table of the subcache, read completely.\<close>

definition mapping_table :: "env \<Rightarrow> sub_cache \<Rightarrow> dyld_cache_mapping_info list \<Rightarrow> bool" where
  "mapping_table E sc ms \<longleftrightarrow> length ms = unat (sc_mapping_table_entry_count sc) \<and>
     (\<forall>i < length ms. mapping_at E sc i = Ok (ms ! i))"

text \<open>A mapping whose ranges do not wrap around and that starts at or above the subcache's base.\<close>

definition mapping_ok :: "sub_cache \<Rightarrow> dyld_cache_mapping_info \<Rightarrow> bool" where
  "mapping_ok sc m \<longleftrightarrow> unat (mi_address m) + unat (mi_size m) < 2 ^ 64 \<and>
     unat (mi_file_offset m) + unat (mi_size m) < 2 ^ 64 \<and>
     unat (sc_unslid_base_vm_address sc) \<le> unat (mi_address m)"

definition covers_vm :: "u64 \<Rightarrow> dyld_cache_mapping_info \<Rightarrow> bool" where
  "covers_vm v m \<longleftrightarrow> unat (mi_address m) \<le> unat v \<and> unat v < unat (mi_address m) + unat (mi_size m)"

definition covers_file :: "u64 \<Rightarrow> dyld_cache_mapping_info \<Rightarrow> bool" where
  "covers_file f m \<longleftrightarrow> unat (mi_file_offset m) \<le> unat f \<and> unat f < unat (mi_file_offset m) + unat (mi_size m)"

lemma find_map_pure:
  "(\<And>x. x \<in> set xs \<Longrightarrow> f x = Ok (if P x then Some (g x) else None)) \<Longrightarrow>
     find_map f xs = Ok (map_option g (find P xs))"
  by (induction xs) auto

lemma find_map_map: "find_map f (map g xs) = find_map (\<lambda>x. f (g x)) xs"
  by (induction xs) (auto cong: option.case_cong)

lemma mappings_find_table:
  assumes "mapping_table E sc ms"
  shows "mappings_find E sc f = find_map f ms"
proof -
  have "mappings_find E sc f = find_map (\<lambda>i. f (ms ! i)) [0..<length ms]"
    using assms unfolding mappings_find_def mapping_table_def by (intro find_map_cong) auto
  also have "\<dots> = find_map f (map ((!) ms) [0..<length ms])" by (simp only: find_map_map)
  finally show ?thesis by (simp add: map_nth)
qed

lemma runtime_offset_for_vm_address_eq:
  assumes "mapping_table E sc ms" "\<And>m. m \<in> set ms \<Longrightarrow> mapping_ok sc m"
  shows "runtime_offset_for_vm_address E sc v =
    Ok (map_option (\<lambda>_. v - sc_unslid_base_vm_address sc) (find (covers_vm v) ms))"
  unfolding runtime_offset_for_vm_address_def mappings_find_table [OF assms(1)]
  by (intro find_map_pure)
    (auto dest!: assms(2) simp: mapping_ok_def covers_vm_def word_le_nat_alt word_less_nat_alt unat_add_fits)

lemma vm_address_for_file_offset_eq:
  assumes "mapping_table E sc ms" "\<And>m. m \<in> set ms \<Longrightarrow> mapping_ok sc m"
  shows "vm_address_for_file_offset E sc f =
    Ok (map_option (\<lambda>m. mi_address m + (f - mi_file_offset m)) (find (covers_file f) ms))"
  unfolding vm_address_for_file_offset_def mappings_find_table [OF assms(1)]
  by (intro find_map_pure)
    (auto dest!: assms(2) simp: mapping_ok_def covers_file_def word_le_nat_alt word_less_nat_alt
      unat_add_fits unat_sub_fits)

lemma runtime_offset_for_file_offset_eq:
  assumes "mapping_table E sc ms" "\<And>m. m \<in> set ms \<Longrightarrow> mapping_ok sc m"
  shows "runtime_offset_for_file_offset E sc f =
    Ok (map_option (\<lambda>m. mi_address m - sc_unslid_base_vm_address sc + (f - mi_file_offset m))
      (find (covers_file f) ms))"
  unfolding runtime_offset_for_file_offset_def mappings_find_table [OF assms(1)]
  by (intro find_map_pure)
    (auto dest!: assms(2) simp: mapping_ok_def covers_file_def word_le_nat_alt word_less_nat_alt
      unat_add_fits unat_sub_fits)

section \<open>Resolution\<close>

text \<open>\<open>resolves n path symbol a\<close>: looking for \<open>symbol\<close> in the library at \<open>path\<close> leads to the address
  \<open>a\<close> through at most \<open>n\<close> libraries, by its own trie, by a re-exported symbol, or by a library it
  re-exports as a whole when its own trie does not have the symbol.\<close>

inductive resolves :: "env \<Rightarrow> shared_cache \<Rightarrow> nat \<Rightarrow> bytes \<Rightarrow> bytes \<Rightarrow> u64 \<Rightarrow> bool" for E dsc where
  direct: "library_find_by_install_path dsc path = Some lib \<Longrightarrow>
    try_resolve_via_exports_trie E dsc lib symbol = Ok (Some (Address a)) \<Longrightarrow>
    resolves E dsc (Suc n) path symbol a"
| follow: "library_find_by_install_path dsc path = Some lib \<Longrightarrow>
    try_resolve_via_exports_trie E dsc lib symbol = Ok (Some (FollowReexport p s)) \<Longrightarrow>
    resolves E dsc n p s a \<Longrightarrow> resolves E dsc (Suc n) path symbol a"
| umbrella: "library_find_by_install_path dsc path = Some lib \<Longrightarrow>
    try_resolve_via_exports_trie E dsc lib symbol = Ok None \<Longrightarrow>
    image_view_for_library dsc lib = Ok im \<Longrightarrow>
    reexported_dylib_paths_collect E im = Ok paths \<Longrightarrow> p \<in> set paths \<Longrightarrow>
    resolves E dsc n p symbol a \<Longrightarrow> resolves E dsc (Suc n) path symbol a"

inductive_cases resolves_SucE: "resolves E dsc (Suc n) path symbol a"
inductive_cases resolves_0E: "resolves E dsc 0 path symbol a"

lemma find_map_Some_iff: "find_map f xs = Ok (Some y) \<Longrightarrow> \<exists>x \<in> set xs. f x = Ok (Some y)"
  by (induction xs) (auto simp: res_simps split: option.splits)

lemma find_map_None_iff: "find_map f xs = Ok None \<longleftrightarrow> (\<forall>x \<in> set xs. f x = Ok None)"
  by (induction xs) (auto simp: res_simps split: option.splits)

lemma find_map_returns: "(\<And>x. x \<in> set xs \<Longrightarrow> f x \<noteq> Diverge) \<Longrightarrow> find_map f xs \<noteq> Diverge"
  by (induction xs) (auto simp: res_simps split: option.splits)

lemma resolve_sound:
  "symbol_resolve_with_max_depth E dsc n path symbol = Ok (Some a) \<Longrightarrow> resolves E dsc n path symbol a"
proof (induction n arbitrary: path symbol)
  case 0
  then show ?case by simp
next
  case (Suc n)
  then obtain lib r where lib: "library_find_by_install_path dsc path = Some lib"
    and r: "try_resolve_via_exports_trie E dsc lib symbol = Ok r"
    and rest: "(case r of Some (Address a) \<Rightarrow> Ok (Some a)
      | Some (FollowReexport p s) \<Rightarrow> symbol_resolve_with_max_depth E dsc n p s
      | None \<Rightarrow> try_resolve_via_umbrella_reexports E dsc (symbol_resolve_with_max_depth E dsc n) lib symbol)
      = Ok (Some a)"
    by (auto simp: res_simps split: option.splits)
  show ?case
  proof (cases r)
    case None
    with rest obtain im paths p where "image_view_for_library dsc lib = Ok im"
      "reexported_dylib_paths_collect E im = Ok paths" "p \<in> set paths"
      "symbol_resolve_with_max_depth E dsc n p symbol = Ok (Some a)"
      by (auto simp: try_resolve_via_umbrella_reexports_def res_simps dest: find_map_Some_iff)
    with lib r None Suc.IH show ?thesis by (blast intro: umbrella)
  next
    case (Some t)
    with lib r rest Suc.IH show ?thesis by (cases t) (auto intro: direct follow)
  qed
qed

lemma resolve_complete:
  "symbol_resolve_with_max_depth E dsc n path symbol = Ok None \<Longrightarrow> \<not> resolves E dsc n path symbol a"
proof (induction n arbitrary: path symbol)
  case 0
  then show ?case by (auto elim: resolves_0E)
next
  case (Suc n)
  show ?case
  proof
    assume "resolves E dsc (Suc n) path symbol a"
    then show False
      using Suc
      by (cases rule: resolves_SucE)
        (auto simp: try_resolve_via_umbrella_reexports_def find_map_None_iff)
  qed
qed

lemma translation_returns: "runtime_offset_for_vm_address E sc v \<noteq> Diverge"
proof -
  have "unwrap x \<noteq> Diverge" for x :: "'x option" by (cases x) auto
  then show ?thesis
    unfolding runtime_offset_for_vm_address_def mappings_find_def
    by (intro find_map_returns) (auto simp: mapping_at_def res_simps split: if_splits)
qed

lemma locate_returns: "subcache_and_offset_locate_from_addr E dsc v \<noteq> Diverge"
proof -
  have "locate_loop E v i scs \<noteq> Diverge" for i scs
    by (induction scs arbitrary: i) (auto simp: res_simps translation_returns split: option.splits)
  then show ?thesis by (simp add: subcache_and_offset_locate_from_addr_def)
qed

lemma trie_resolution_returns: "try_resolve_via_exports_trie E dsc lib symbol \<noteq> Diverge"
  by (auto simp: try_resolve_via_exports_trie_def terminal_resolution_def image_view_for_library_def res_simps
      image_queries_return locate_returns walk_loop_returns exports_trie_walk_for_symbol_def
      unslid_address_to_runtime_pointer_translate_def split: option.splits export_terminal.splits)

lemma resolve_returns: "symbol_resolve_with_max_depth E dsc n path symbol \<noteq> Diverge"
proof (induction n arbitrary: path symbol)
  case (Suc n)
  have "try_resolve_via_umbrella_reexports E dsc (symbol_resolve_with_max_depth E dsc n) lib symbol \<noteq> Diverge" for lib
    using Suc by (auto simp: try_resolve_via_umbrella_reexports_def image_view_for_library_def res_simps
        image_queries_return find_map_returns)
  with Suc show ?case
    by (auto simp: res_simps trie_resolution_returns split: option.splits trie_resolution.splits)
qed simp

lemma case_option_Ok_iff:
  "(case x of None \<Rightarrow> Ok None | Some y \<Rightarrow> f y) = Ok (Some z) \<longleftrightarrow> (\<exists>y. x = Some y \<and> f y = Ok (Some z))"
  "(case x of None \<Rightarrow> Err e | Some y \<Rightarrow> g y) = Ok v \<longleftrightarrow> (\<exists>y. x = Some y \<and> g y = Ok v)"
  by (cases x; simp)+

lemma resolves_mapped:
  "resolves E dsc n path symbol a \<Longrightarrow>
     \<exists>v r. a = v + dsc_cache_slide dsc \<and> subcache_and_offset_locate_from_addr E dsc v = Ok (Some r)"
proof (induction rule: resolves.induct)
  case (direct path lib symbol a n)
  show ?case
  proof -
    obtain im terminal where "terminal_resolution E dsc lib im symbol terminal = Ok (Some (Address a))"
      using direct by (auto simp: try_resolve_via_exports_trie_def res_simps case_option_Ok_iff)
    then show ?thesis
      by (cases terminal) (auto simp: terminal_resolution_def res_simps case_option_Ok_iff
          unslid_address_to_runtime_pointer_translate_def)
  qed
qed

text \<open>The error or panic a computation ends with, if it does.\<close>

definition failure :: "'a res \<Rightarrow> (error + panic) option" where
  "failure r = (case r of Ok _ \<Rightarrow> None | Err e \<Rightarrow> Some (Inl e) | Panic p \<Rightarrow> Some (Inr p) | Diverge \<Rightarrow> None)"

lemma failure_simps [simp]:
  "failure (Ok x) = None" "failure (Err e) = Some (Inl e)" "failure (Panic p) = Some (Inr p)" "failure Diverge = None"
  by (simp_all add: failure_def)

lemma failure_rbind:
  "failure (rbind m f) = Some x \<longleftrightarrow> failure m = Some x \<or> (\<exists>y. m = Ok y \<and> failure (f y) = Some x)"
  by (cases m) auto

text \<open>\<open>search_fails n path symbol x\<close>: on the way the search takes, a library's trie or list of re-exports fails with
  \<open>x\<close>. Of the libraries a library re-exports, those tried before the failing one have no route to the symbol.\<close>

inductive search_fails :: "env \<Rightarrow> shared_cache \<Rightarrow> nat \<Rightarrow> bytes \<Rightarrow> bytes \<Rightarrow> error + panic \<Rightarrow> bool" for E dsc where
  trie: "library_find_by_install_path dsc path = Some lib \<Longrightarrow>
    failure (try_resolve_via_exports_trie E dsc lib symbol) = Some x \<Longrightarrow>
    search_fails E dsc (Suc n) path symbol x"
| list: "library_find_by_install_path dsc path = Some lib \<Longrightarrow>
    try_resolve_via_exports_trie E dsc lib symbol = Ok None \<Longrightarrow>
    failure (rbind (image_view_for_library dsc lib) (reexported_dylib_paths_collect E)) = Some x \<Longrightarrow>
    search_fails E dsc (Suc n) path symbol x"
| followed: "library_find_by_install_path dsc path = Some lib \<Longrightarrow>
    try_resolve_via_exports_trie E dsc lib symbol = Ok (Some (FollowReexport p s)) \<Longrightarrow>
    search_fails E dsc n p s x \<Longrightarrow> search_fails E dsc (Suc n) path symbol x"
| member: "library_find_by_install_path dsc path = Some lib \<Longrightarrow>
    try_resolve_via_exports_trie E dsc lib symbol = Ok None \<Longrightarrow>
    rbind (image_view_for_library dsc lib) (reexported_dylib_paths_collect E) = Ok (qs @ p # rs) \<Longrightarrow>
    \<forall>q \<in> set qs. \<forall>a. \<not> resolves E dsc n q symbol a \<Longrightarrow>
    search_fails E dsc n p symbol x \<Longrightarrow> search_fails E dsc (Suc n) path symbol x"

lemma find_map_fails:
  "failure (find_map f xs) = Some x \<Longrightarrow>
     \<exists>qs p rs. xs = qs @ p # rs \<and> (\<forall>q \<in> set qs. f q = Ok None) \<and> failure (f p) = Some x"
proof (induction xs)
  case (Cons y ys)
  show ?case
  proof (cases "failure (f y)")
    case None
    with Cons.prems have "f y = Ok None" "failure (find_map f ys) = Some x"
      by (auto simp: failure_rbind split: option.splits)
    with Cons.IH obtain qs p rs where "ys = qs @ p # rs" "\<forall>q \<in> set (y # qs). f q = Ok None" "failure (f p) = Some x" by auto
    then show ?thesis by (metis append_Cons)
  next
    case (Some z)
    with Cons.prems have "failure (f y) = Some x" by (auto simp: failure_rbind split: option.splits)
    then show ?thesis by (intro exI [of _ "[]"] exI [of _ y] exI [of _ ys]) simp
  qed
qed simp

lemma umbrella_eq:
  "try_resolve_via_umbrella_reexports E dsc resolve lib symbol =
     rbind (rbind (image_view_for_library dsc lib) (reexported_dylib_paths_collect E)) (find_map (\<lambda>p. resolve p symbol))"
  by (simp add: try_resolve_via_umbrella_reexports_def rbind_assoc)

lemma resolve_fails:
  "failure (symbol_resolve_with_max_depth E dsc n path symbol) = Some x \<Longrightarrow> search_fails E dsc n path symbol x"
proof (induction n arbitrary: path symbol)
  case (Suc n)
  then obtain lib where lib: "library_find_by_install_path dsc path = Some lib"
    by (auto split: option.splits)
  let ?t = "try_resolve_via_exports_trie E dsc lib symbol"
  from Suc.prems lib consider (t) "failure ?t = Some x" | (no) "?t = Ok None"
      "failure (try_resolve_via_umbrella_reexports E dsc (symbol_resolve_with_max_depth E dsc n) lib symbol) = Some x"
    | (go) p s where "?t = Ok (Some (FollowReexport p s))" "failure (symbol_resolve_with_max_depth E dsc n p s) = Some x"
  proof (cases ?t)
    case (Ok y)
    consider "y = None" | a where "y = Some (Address a)" | p s where "y = Some (FollowReexport p s)"
      by (metis not_None_eq trie_resolution.exhaust)
    then show thesis by cases (use Suc.prems lib Ok that(2,3) in auto)
  qed (use Suc.prems lib that(1) in auto)
  then show ?case
  proof cases
    case t
    with lib show ?thesis by (rule search_fails.trie)
  next
    case go
    with lib Suc.IH show ?thesis by (blast intro: followed)
  next
    case no
    show ?thesis
    proof (cases "failure (rbind (image_view_for_library dsc lib) (reexported_dylib_paths_collect E)) = Some x")
      case True
      with lib no(1) show ?thesis by (rule search_fails.list)
    next
      case False
      with no(2) obtain ps where ps: "rbind (image_view_for_library dsc lib) (reexported_dylib_paths_collect E) = Ok ps"
        "failure (find_map (\<lambda>p. symbol_resolve_with_max_depth E dsc n p symbol) ps) = Some x"
        unfolding umbrella_eq by (subst (asm) failure_rbind) blast
      from find_map_fails [OF ps(2)] obtain qs p rs where split: "ps = qs @ p # rs"
        "\<forall>q \<in> set qs. symbol_resolve_with_max_depth E dsc n q symbol = Ok None"
        "failure (symbol_resolve_with_max_depth E dsc n p symbol) = Some x" by blast
      have "\<forall>q \<in> set qs. \<forall>a. \<not> resolves E dsc n q symbol a"
        using split(2) resolve_complete by blast
      with member [OF lib no(1) ps(1) [unfolded split(1)]] Suc.IH [OF split(3)] show ?thesis by blast
    qed
  qed
qed simp

lemma fails_no_result: "search_fails E dsc n path symbol x \<Longrightarrow> symbol_resolve_with_max_depth E dsc n path symbol \<noteq> Ok r"
proof (induction arbitrary: r rule: search_fails.induct)
  case (trie path lib symbol x n)
  then show ?case by (cases "try_resolve_via_exports_trie E dsc lib symbol") auto
next
  case (list path lib symbol x n)
  then show ?case
    by (cases "rbind (image_view_for_library dsc lib) (reexported_dylib_paths_collect E)") (auto simp: umbrella_eq)
next
  case (followed path lib symbol p s n x)
  then show ?case by simp
next
  case (member path lib symbol qs p rs n x)
  let ?f = "\<lambda>p. symbol_resolve_with_max_depth E dsc n p symbol"
  have "find_map ?f (qs @ p # rs) \<noteq> Ok r"
  proof
    assume r: "find_map ?f (qs @ p # rs) = Ok r"
    show False
    proof (cases "\<forall>q \<in> set qs. ?f q = Ok None")
      case True
      then have "find_map ?f (qs @ p # rs) = find_map ?f (p # rs)" by (induction qs) auto
      with r member.IH show False by (auto simp: rbind_Ok_iff)
    next
      case False
      from r have "\<exists>q \<in> set qs. \<exists>a. ?f q = Ok (Some a)"
        using False by (induction qs) (auto simp: rbind_Ok_iff split: option.splits)
      with member.hyps(4) resolve_sound show False by blast
    qed
  qed
  with member show ?case by (simp add: umbrella_eq)
qed

section \<open>Attachment\<close>

definition subcache_attached ::
  "env \<Rightarrow> (usize \<Rightarrow> u8) \<Rightarrow> usize \<Rightarrow> u64 \<Rightarrow> container \<Rightarrow> u32 \<Rightarrow> nat \<Rightarrow> sub_cache \<Rightarrow> bool" where
  "subcache_attached E mem main_pointer main_base main table_offset i sc \<longleftrightarrow>
     (\<exists>entry len. pread_dyld_subcache_entry E (c_endian main) (c_data main) (ucast table_offset + of_nat i * 56) = Some entry \<and>
        read_main_cache_total_mapped_length_from E mem (main_pointer + sce_cache_vm_offset entry) = Ok len \<and>
        sc_unslid_base_vm_address sc = main_base + sce_cache_vm_offset entry \<and>
        sc_container sc = with_bytes (raw_slice mem (main_pointer + sce_cache_vm_offset entry) len) Little)"

lemma wmul_Ok_iff [res_simps]: "wmul oc a b = Ok c \<longleftrightarrow> c = a * b \<and> (oc \<longrightarrow> unat a * unat b < 2 ^ LENGTH('a))"
  for a b :: "'a::len word"
  by (auto simp: wmul_def)

lemma from_runtime_mapping_Ok:
  "from_runtime_mapping E mem p len base = Ok sc \<Longrightarrow>
     sc_unslid_base_vm_address sc = base \<and> sc_container sc = with_bytes (raw_slice mem p len) Little"
  by (auto simp: from_runtime_mapping_def Let_def res_simps)

lemma attach_loop_spec:
  "attach_loop E mem p base main off is scs = Ok scs' \<Longrightarrow>
     \<exists>new. scs' = scs @ new \<and> list_all2 (subcache_attached E mem p base main off) is new"
proof (induction "is" arbitrary: scs)
  case Nil
  then show ?case by simp
next
  case (Cons i js)
  then obtain entry len sc where
    e: "pread_dyld_subcache_entry E (c_endian main) (c_data main) (ucast off + of_nat i * 56) = Some entry"
    and len: "read_main_cache_total_mapped_length_from E mem (p + sce_cache_vm_offset entry) = Ok len"
    and sc: "from_runtime_mapping E mem (p + sce_cache_vm_offset entry) len (base + sce_cache_vm_offset entry) = Ok sc"
    and rest: "attach_loop E mem p base main off js (scs @ [sc]) = Ok scs'"
    by (auto simp: res_simps Let_def deserialize_type_at_offset_def)
  from Cons.IH [OF rest] obtain new where "scs' = scs @ sc # new"
    "list_all2 (subcache_attached E mem p base main off) js new" by auto
  moreover have "subcache_attached E mem p base main off i sc"
    using e len from_runtime_mapping_Ok [OF sc] by (auto simp: subcache_attached_def)
  ultimately show ?case by (intro exI [of _ "sc # new"]) simp
qed

section \<open>Properties\<close>

text \<open>C5: symbol resolution in the shared cache is exact up to its depth budget, and always ends. It ends in an
  error or a panic exactly when a library on the way of the search fails to give its trie or its
  re-exports, and then with that failure; a library that is missing, or a hop too many, is no failure. An address it
  returns is reached through at most sixteen libraries, and is the slid address of a virtual address some
  subcache maps; when it returns \<open>None\<close> no such route exists, whatever the order in which re-exported libraries are
  tried. So where no library on the way fails, an address is found exactly when there is a route to one.\<close>

theorem symbol_resolve_exact:
  "((\<exists>x. search_fails E dsc 16 path symbol x) \<longleftrightarrow> (\<nexists>r. symbol_resolve E dsc path symbol = Ok r)) \<and>
   (case symbol_resolve E dsc path symbol of
     Ok (Some a) \<Rightarrow> resolves E dsc 16 path symbol a \<and>
       (\<exists>v r. a = v + dsc_cache_slide dsc \<and> subcache_and_offset_locate_from_addr E dsc v = Ok (Some r))
   | Ok None \<Rightarrow> \<not> (\<exists>a. resolves E dsc 16 path symbol a)
   | Err e \<Rightarrow> search_fails E dsc 16 path symbol (Inl e)
   | Panic p \<Rightarrow> search_fails E dsc 16 path symbol (Inr p)
   | Diverge \<Rightarrow> False)"
proof -
  have fails: "(\<exists>x. search_fails E dsc 16 path symbol x) \<longleftrightarrow> (\<nexists>r. symbol_resolve_with_max_depth E dsc 16 path symbol = Ok r)"
  proof (cases "\<exists>r. symbol_resolve_with_max_depth E dsc 16 path symbol = Ok r")
    case True
    then show ?thesis using fails_no_result by blast
  next
    case False
    then obtain x where "failure (symbol_resolve_with_max_depth E dsc 16 path symbol) = Some x"
      using resolve_returns [of E dsc 16 path symbol]
      by (cases "symbol_resolve_with_max_depth E dsc 16 path symbol") auto
    with False resolve_fails show ?thesis by blast
  qed
  have "symbol_resolve E dsc path symbol = symbol_resolve_with_max_depth E dsc 16 path symbol"
    by (simp add: symbol_resolve_def MAX_REEXPORT_RESOLUTION_DEPTH_def)
  then show ?thesis
    using resolve_sound [of E dsc 16 path symbol] resolve_complete [of E dsc 16 path symbol]
      resolve_returns [of E dsc 16 path symbol] resolves_mapped [of E dsc 16 path symbol]
      resolve_fails [of E dsc 16 path symbol] fails
    by (cases "symbol_resolve_with_max_depth E dsc 16 path symbol") (auto split: option.split)
qed

text \<open>The address translations of a subcache agree. On a mapping table whose ranges do not wrap, a
  file offset translates exactly when a mapping covers it; the virtual address it translates to is
  itself covered, and translating that address to a runtime offset gives the same offset as the
  direct translation. None of the three panics.\<close>

theorem file_translations_commute:
  assumes "mapping_table E sc ms" "\<And>m. m \<in> set ms \<Longrightarrow> mapping_ok sc m"
  shows "case find (covers_file f) ms of
     None \<Rightarrow> vm_address_for_file_offset E sc f = Ok None \<and> runtime_offset_for_file_offset E sc f = Ok None
   | Some m \<Rightarrow> \<exists>a. vm_address_for_file_offset E sc f = Ok (Some a) \<and> covers_vm a m \<and>
       runtime_offset_for_vm_address E sc a = Ok (Some (a - sc_unslid_base_vm_address sc)) \<and>
       runtime_offset_for_file_offset E sc f = Ok (Some (a - sc_unslid_base_vm_address sc))"
proof (cases "find (covers_file f) ms")
  case None
  then show ?thesis
    by (simp add: vm_address_for_file_offset_eq [OF assms] runtime_offset_for_file_offset_eq [OF assms])
next
  case (Some m)
  then have m: "m \<in> set ms" "covers_file f m" by (auto simp: find_Some_iff)
  let ?a = "mi_address m + (f - mi_file_offset m)"
  have "covers_vm ?a m"
    using m assms(2) [OF m(1)]
    by (auto simp: covers_file_def covers_vm_def mapping_ok_def unat_sub_fits unat_add_fits)
  moreover from this m(1) have "find (covers_vm ?a) ms \<noteq> None" by (auto simp: find_None_iff)
  ultimately show ?thesis
    using Some by (auto simp: vm_address_for_file_offset_eq [OF assms] runtime_offset_for_file_offset_eq [OF assms]
        runtime_offset_for_vm_address_eq [OF assms])
qed


text \<open>The sample subcache has one mapping, of file offsets 0x200 to 0x11FF at its base plus 0x1000.\<close>

definition sample_mapping :: dyld_cache_mapping_info where
  "sample_mapping = \<lparr>mi_address = 0x180001000, mi_size = 0x1000, mi_file_offset = 0x200, mi_max_prot = 5, mi_init_prot = 5\<rparr>"

definition sample_env :: env where
  "sample_env = (scroll_ref True)\<lparr>pread_dyld_cache_mapping_info := \<lambda>_ _ _. Some sample_mapping\<rparr>"

theorem file_translations_commute_witness:
  "\<exists>a. vm_address_for_file_offset sample_env
       \<lparr>sc_container = with_bytes [] Little, sc_unslid_base_vm_address = 0x180000000,
        sc_mapping_table_offset = 0, sc_mapping_table_entry_count = 1\<rparr> 0x300 = Ok (Some a)"
proof -
  let ?sc = "\<lparr>sc_container = with_bytes [] Little, sc_unslid_base_vm_address = 0x180000000,
        sc_mapping_table_offset = 0, sc_mapping_table_entry_count = 1\<rparr>"
  have "mapping_at sample_env ?sc 0 = Ok sample_mapping"
    by (simp add: mapping_at_def sample_env_def deserialize_type_at_offset_def scroll_ref_def wmul_def)
  then have "mapping_table sample_env ?sc [sample_mapping]" by (simp add: mapping_table_def)
  moreover have "mapping_ok ?sc m" if "m \<in> set [sample_mapping]" for m
    using that by (simp add: mapping_ok_def sample_mapping_def)
  moreover have "find (covers_file 0x300) [sample_mapping] = Some sample_mapping"
    by (simp add: covers_file_def sample_mapping_def)
  ultimately show ?thesis
    using file_translations_commute [of sample_env ?sc "[sample_mapping]" "0x300"] by auto
qed

text \<open>C37: attaching the cache gives one subcache for the main cache and one for each entry of its
  table, in order; each starts at the main cache's pointer plus the entry's offset, has as many bytes
  as its own mappings span, and its base address is the main base plus that same offset.\<close>

theorem subcaches_attached:
  assumes "dyld_shared_cache_attach_all E mem p dsc_new = Ok dsc"
  shows "\<exists>base len main h subs.
    read_main_cache_unslid_base_from E mem p = Ok base \<and>
    read_main_cache_total_mapped_length_from E mem p = Ok len \<and>
    sc_container main = with_bytes (raw_slice mem p len) Little \<and> sc_unslid_base_vm_address main = base \<and>
    dsc_header_read E (sc_container main) = Ok h \<and> dsc_sub_caches dsc = main # subs \<and>
    list_all2 (subcache_attached E mem p base (sc_container main) (ch_sub_cache_array_offset h))
      [0..<unat (ch_sub_cache_array_count h)] subs"
proof -
  from assms obtain base len main h scs where
    1: "read_main_cache_unslid_base_from E mem p = Ok base"
      "read_main_cache_total_mapped_length_from E mem p = Ok len"
      "from_runtime_mapping E mem p len base = Ok main" "dsc_header_read E (sc_container main) = Ok h"
    and 2: "attach_loop E mem p base (sc_container main) (ch_sub_cache_array_offset h)
        [0..<unat (ch_sub_cache_array_count h)] [main] = Ok scs" "dsc_sub_caches dsc = scs"
    by (auto simp: dyld_shared_cache_attach_all_def dsc_new_def Let_def res_simps index_at_def)
  from attach_loop_spec [OF 2(1)] 1 from_runtime_mapping_Ok [OF 1(3)] 2(2) show ?thesis by auto
qed

definition sample_header :: dyld_cache_header where
  "sample_header = (fst (the (p_dyld_cache_header Little (replicate 552 0))))
     \<lparr>ch_mapping_offset := 0, ch_mapping_count := 1, ch_sub_cache_array_offset := 0, ch_sub_cache_array_count := 1\<rparr>"

definition sample_cache_env :: env where
  "sample_cache_env = sample_env\<lparr>pread_dyld_cache_header := \<lambda>_ _ _. Some sample_header,
     pread_dyld_subcache_entry := \<lambda>_ _ _. Some \<lparr>sce_uuid = [], sce_cache_vm_offset = 0x10000, sce_file_suffix = []\<rparr>\<rparr>"

theorem subcaches_attached_witness:
  "\<exists>dsc. dyld_shared_cache_attach_all sample_cache_env (\<lambda>_. 0) 0x4000 dsc_new = Ok dsc \<and>
     length (dsc_sub_caches dsc) = 2"
proof -
  let ?E = "sample_cache_env"
  have hdr: "dsc_header_read ?E c = Ok sample_header" for c
    by (simp add: dsc_header_read_def deserialize_type_at_offset_def sample_cache_env_def)
  have fields: "ch_mapping_offset sample_header = 0" "ch_mapping_count sample_header = 1"
    "ch_sub_cache_array_offset sample_header = 0" "ch_sub_cache_array_count sample_header = 1"
    by (simp_all add: sample_header_def)
  have map: "deserialize_type_at_offset (pread_dyld_cache_mapping_info ?E) c off = Some sample_mapping" for c off
    by (simp add: deserialize_type_at_offset_def sample_cache_env_def sample_env_def)
  have entry: "deserialize_type_at_offset (pread_dyld_subcache_entry ?E) c off =
      Some \<lparr>sce_uuid = [], sce_cache_vm_offset = 0x10000, sce_file_suffix = []\<rparr>" for c off
    by (simp add: deserialize_type_at_offset_def sample_cache_env_def)
  have "read_main_cache_unslid_base_from ?E m q = Ok 0x180001000" for m q
    by (simp add: read_main_cache_unslid_base_from_def Let_def hdr map sample_mapping_def)
  moreover have "read_main_cache_total_mapped_length_from ?E m q = Ok 0x1000" for m q
    by (simp add: read_main_cache_total_mapped_length_from_def Let_def hdr map sample_mapping_def fields wmul_def)
  ultimately have "\<exists>dsc. dyld_shared_cache_attach_all ?E (\<lambda>_. 0) 0x4000 dsc_new = Ok dsc"
    by (simp add: dyld_shared_cache_attach_all_def dsc_new_def from_runtime_mapping_def hdr fields entry
        Let_def index_at_def wmul_def)
  then obtain dsc where d: "dyld_shared_cache_attach_all ?E (\<lambda>_. 0) 0x4000 dsc_new = Ok dsc" by blast
  have "length (dsc_sub_caches dsc) = 2"
    using subcaches_attached [OF d] by (auto simp: hdr fields dest: list_all2_lengthD)
  with d show ?thesis by blast
qed

end
