(* ===== verification/Fixups.thy ===== *)
theory Fixups
  imports Dyld_Shared_Cache
begin

text \<open>
  \<open>src/src/fixups.rs\<close>: parsing of the chained fixups and their application to the mapped image.
  The chain walk is a loop with no bound in the code; it is modelled as such, and shown to end on
  every image whose reads respect bounds. Application writes to a byte-addressed memory, so that
  what the fixed-up image contains, and what is left untouched, can be stated.
\<close>

unbundle bit_operations_syntax

section \<open>Fixups\<close>

definition PAGE_STARTS_OFFSET :: u32 where
  "PAGE_STARTS_OFFSET = 22"

datatype fixup_kind =
    Rebase u64
  | Bind fixed_string u32 bool i64

record fixup =
  fx_offset :: usize
  fx_kind :: fixup_kind

definition fixup_rebase :: "usize \<Rightarrow> u64 \<Rightarrow> fixup" where
  "fixup_rebase offset target = \<lparr>fx_offset = offset, fx_kind = Rebase target\<rparr>"

definition fixup_bind :: "usize \<Rightarrow> fixed_string \<Rightarrow> u32 \<Rightarrow> i64 \<Rightarrow> bool \<Rightarrow> fixup" where
  "fixup_bind offset symbol_name ordinal addend is_auth =
     \<lparr>fx_offset = offset, fx_kind = Bind symbol_name ordinal is_auth addend\<rparr>"

section \<open>Finding the header\<close>

text \<open>\<open>while let Some(command) = iterator.try_next()?\<close> up to the first \<open>LC_DYLD_CHAINED_FIXUPS\<close>, adding
  up the sizes of the commands before it.\<close>

function header_loop :: "env \<Rightarrow> lc_iterator \<Rightarrow> usize \<Rightarrow> usize option res" where
  "header_loop E it next_load_command_offset =
     rbind (lc_try_next E it) (\<lambda>r. case fst r of
       None \<Rightarrow> Ok None
     | Some lc \<Rightarrow>
         if lc_cmd lc = LC_DYLD_CHAINED_FIXUPS then Ok (Some next_load_command_offset)
         else rbind (wadd (overflow_checks E) next_load_command_offset (ucast (lc_cmdsize lc)))
                (header_loop E (snd r)))"
  by pat_completeness auto
termination
  by (relation "measure (\<lambda>(E, it, _). unat (li_remaining it))") (auto dest: lc_try_next_shrinks)

declare header_loop.simps [simp del]

definition chained_fixups_header_and_offset_find ::
  "env \<Rightarrow> container \<Rightarrow> (u32 \<times> dyld_chained_fixups_header) option res" where
  "chained_fixups_header_and_offset_find E c =
     rbind (lc_try_with_container E c) (\<lambda>it.
     rbind (header_loop E it (of_nat (size_of mach_header_64_layout))) (\<lambda>r.
     case r of
       None \<Rightarrow> Ok None
     | Some off \<Rightarrow>
         rbind (ok_or No_Linkedit_Data (deserialize_type_at_offset (pread_linkedit_data_command E) c off)) (\<lambda>ld.
         rbind (ok_or No_Fixups_Header
           (deserialize_type_at_offset (pread_dyld_chained_fixups_header E) c (ucast (ld_dataoff ld)))) (\<lambda>h.
         Ok (Some (ld_dataoff ld, h))))))"

section \<open>Parsing one fixup\<close>

definition import_symbol_parse ::
  "env \<Rightarrow> container \<Rightarrow> u32 \<Rightarrow> dyld_chained_import_format_variants \<Rightarrow> u64 \<Rightarrow> u64 \<Rightarrow> (u8 \<times> fixed_string) res" where
  "import_symbol_parse E c ordinal imports_format imports_offset symbols_offset =
     rbind (case imports_format of
         DYLD_CHAINED_IMPORT \<Rightarrow>
           rbind (wmul (overflow_checks E) ordinal 4) (\<lambda>d.
           rbind (wadd (overflow_checks E) imports_offset (ucast d)) (\<lambda>off.
           rbind (ok_or No_Import (deserialize_type_at_offset (pread_u32 E) c off)) (\<lambda>im.
           Ok (dyld_chained_import_lib_ordinal im, dyld_chained_import_name_offset im))))
       | DYLD_CHAINED_IMPORT_ADDEND \<Rightarrow>
           rbind (wmul (overflow_checks E) ordinal 8) (\<lambda>d.
           rbind (wadd (overflow_checks E) imports_offset (ucast d)) (\<lambda>off.
           rbind (ok_or No_Import_Addend (deserialize_type_at_offset (pread_dyld_chained_import_addend E) c off)) (\<lambda>im.
           Ok (dyld_chained_import_lib_ordinal (ia_header im), ia_addend im))))
       | DYLD_CHAINED_IMPORT_ADDEND64 \<Rightarrow>
           rbind (wmul (overflow_checks E) ordinal 16) (\<lambda>d.
           rbind (wadd (overflow_checks E) imports_offset (ucast d)) (\<lambda>off.
           rbind (ok_or No_Import_Addend64 (deserialize_type_at_offset (pread_dyld_chained_import_addend64 E) c off)) (\<lambda>im.
           Ok (dyld_chained_import_lib_ordinal (ia64_header im), ucast (ia64_addend im))))))
     (\<lambda>(lib_ordinal, name_offset).
     rbind (wadd (overflow_checks E) symbols_offset (ucast name_offset)) (\<lambda>name_at.
     rbind (deserialize_string_at_offset c name_at) (\<lambda>s.
     rbind (fs_try_from_str (overflow_checks E) SYMBOL_NAME_LEN s) (\<lambda>r.
     rbind (unwrap r) (\<lambda>name. Ok (lib_ordinal, name))))))"

text \<open>An \<open>import_table\<close> bundles the three arguments every parser passes on to \<open>import_symbol_parse\<close>.\<close>

type_synonym import_table = "dyld_chained_import_format_variants \<times> u64 \<times> u64"

definition import_at :: "env \<Rightarrow> container \<Rightarrow> u32 \<Rightarrow> import_table \<Rightarrow> (u8 \<times> fixed_string) res" where
  "import_at E c ordinal it =
     (case it of (format, imports_offset, symbols_offset) \<Rightarrow>
        import_symbol_parse E c ordinal format imports_offset symbols_offset)"

definition fixup_64_parse_one :: "env \<Rightarrow> container \<Rightarrow> u64 \<Rightarrow> usize \<Rightarrow> import_table \<Rightarrow> (u64 \<times> fixup) res" where
  "fixup_64_parse_one E c v offset it =
     (if drop_bit 63 v AND 1 = 1 then
        rbind (import_at E c (dyld_chained_ptr_64_bind_ordinal v) it) (\<lambda>(lib_ordinal, symbol_name).
        rbind (wmul (overflow_checks E) (ucast (dyld_chained_ptr_64_bind_next v)) 4) (\<lambda>next_off.
        Ok (next_off, \<lparr>fx_offset = offset,
          fx_kind = Bind symbol_name (ucast lib_ordinal) False (ucast (dyld_chained_ptr_64_bind_addend v))\<rparr>)))
      else
        let target = dyld_chained_ptr_64_rebase_target v;
            high8 = push_bit 56 (ucast (dyld_chained_ptr_64_rebase_high8 v)) in
        rbind (wmul (overflow_checks E) (ucast (dyld_chained_ptr_64_rebase_next v)) 4) (\<lambda>next_off.
        Ok (next_off, \<lparr>fx_offset = offset, fx_kind = Rebase (target OR high8)\<rparr>)))"

definition fixup_arm64e_parse_one :: "env \<Rightarrow> container \<Rightarrow> u64 \<Rightarrow> usize \<Rightarrow> import_table \<Rightarrow> (u64 \<times> fixup) res" where
  "fixup_arm64e_parse_one E c v offset it =
     (let bind = drop_bit 62 v AND 1; auth = drop_bit 63 v AND 1 in
      if bind = 1 then
        if auth = 1 then
          rbind (import_at E c (ucast (dyld_chained_ptr_arm64e_auth_bind_ordinal v)) it) (\<lambda>(lib_ordinal, symbol_name).
          rbind (wmul (overflow_checks E) (ucast (dyld_chained_ptr_arm64e_auth_bind_next v)) 8) (\<lambda>next_off.
          Ok (next_off, fixup_bind offset symbol_name (ucast lib_ordinal) 0 True)))
        else
          rbind (import_at E c (ucast (dyld_chained_ptr_arm64e_bind_ordinal v)) it) (\<lambda>(lib_ordinal, symbol_name).
          rbind (wmul (overflow_checks E) (ucast (dyld_chained_ptr_arm64e_bind_next v)) 8) (\<lambda>next_off.
          Ok (next_off, fixup_bind offset symbol_name (ucast lib_ordinal)
                (scast (dyld_chained_ptr_arm64e_bind_addend v)) False)))
      else if auth = 1 then
        rbind (wmul (overflow_checks E) (ucast (dyld_chained_ptr_arm64e_auth_rebase_next v)) 8) (\<lambda>next_off.
        Ok (next_off, fixup_rebase offset (ucast (dyld_chained_ptr_arm64e_auth_rebase_target v))))
      else
        let high8 = push_bit 56 (ucast (dyld_chained_ptr_arm64e_rebase_high8 v)) in
        rbind (wmul (overflow_checks E) (ucast (dyld_chained_ptr_arm64e_rebase_next v)) 8) (\<lambda>next_off.
        Ok (next_off, fixup_rebase offset (dyld_chained_ptr_arm64e_rebase_target v OR high8))))"

definition fixup_arm64e_userland24_parse_one ::
  "env \<Rightarrow> container \<Rightarrow> u64 \<Rightarrow> usize \<Rightarrow> import_table \<Rightarrow> (u64 \<times> fixup) res" where
  "fixup_arm64e_userland24_parse_one E c v offset it =
     (let bind = drop_bit 62 v AND 1; auth = drop_bit 63 v AND 1 in
      if bind = 1 then
        if auth = 1 then
          rbind (import_at E c (dyld_chained_ptr_arm64e_auth_bind_24_ordinal v) it) (\<lambda>(lib_ordinal, symbol_name).
          rbind (wmul (overflow_checks E) (ucast (dyld_chained_ptr_arm64e_auth_bind_24_next v)) 8) (\<lambda>next_off.
          Ok (next_off, fixup_bind offset symbol_name (ucast lib_ordinal) 0 True)))
        else
          rbind (import_at E c (dyld_chained_ptr_arm64e_bind_24_ordinal v) it) (\<lambda>(lib_ordinal, symbol_name).
          rbind (wmul (overflow_checks E) (ucast (dyld_chained_ptr_arm64e_bind_24_next v)) 8) (\<lambda>next_off.
          Ok (next_off, fixup_bind offset symbol_name (ucast lib_ordinal)
                (scast (dyld_chained_ptr_arm64e_bind_24_addend v)) False)))
      else fixup_arm64e_parse_one E c v offset it)"

section \<open>Walking the chains\<close>

definition fixup_parse_one ::
  "env \<Rightarrow> container \<Rightarrow> dyld_chained_ptr_format_variants \<Rightarrow> u64 \<Rightarrow> usize \<Rightarrow> import_table \<Rightarrow> (u64 \<times> fixup) res" where
  "fixup_parse_one E c pointer_format v offset it =
     (if pointer_format = DYLD_CHAINED_PTR_64 \<or> pointer_format = DYLD_CHAINED_PTR_64_OFFSET
      then fixup_64_parse_one E c v offset it
      else if pointer_format = DYLD_CHAINED_PTR_ARM64E \<or> pointer_format = DYLD_CHAINED_PTR_ARM64E_USERLAND
      then fixup_arm64e_parse_one E c v offset it
      else if pointer_format = DYLD_CHAINED_PTR_ARM64E_USERLAND24
      then fixup_arm64e_userland24_parse_one E c v offset it
      else Panic Unimplemented)"

text \<open>One round of the inner loop: the fixup at the offset, and the offset of the next one if the
  chain goes on.\<close>

definition chain_step ::
  "env \<Rightarrow> container \<Rightarrow> dyld_chained_ptr_format_variants \<Rightarrow> import_table \<Rightarrow> usize \<Rightarrow> (fixup \<times> usize option) res" where
  "chain_step E c pointer_format it chain_offset =
     rbind (ok_or No_Fixup_Value (deserialize_type_at_offset (pread_u64 E) c chain_offset)) (\<lambda>v.
     rbind (fixup_parse_one E c pointer_format v chain_offset it) (\<lambda>(next_offset, fixup).
     if next_offset = 0 then Ok (fixup, None)
     else rbind (wadd (overflow_checks E) chain_offset next_offset) (\<lambda>off. Ok (fixup, Some off))))"

partial_function (option) chain_loop ::
  "env \<Rightarrow> container \<Rightarrow> dyld_chained_ptr_format_variants \<Rightarrow> import_table \<Rightarrow> usize \<Rightarrow> fixup list \<Rightarrow> fixup list res option" where
  "chain_loop E c pointer_format it chain_offset fixups =
     (case chain_step E c pointer_format it chain_offset of
        Ok (fixup, None) \<Rightarrow> Some (Ok (fixups @ [fixup]))
      | Ok (fixup, Some off) \<Rightarrow> chain_loop E c pointer_format it off (fixups @ [fixup])
      | Err e \<Rightarrow> Some (Err e) | Panic p \<Rightarrow> Some (Panic p) | Diverge \<Rightarrow> None)"

definition chain_parse ::
  "env \<Rightarrow> container \<Rightarrow> dyld_chained_ptr_format_variants \<Rightarrow> import_table \<Rightarrow> usize \<Rightarrow> fixup list \<Rightarrow> fixup list res" where
  "chain_parse E c pointer_format it chain_offset fixups =
     (case chain_loop E c pointer_format it chain_offset fixups of None \<Rightarrow> Diverge | Some r \<Rightarrow> r)"

fun pages_loop ::
  "env \<Rightarrow> container \<Rightarrow> import_table \<Rightarrow> u32 \<Rightarrow> dyld_chained_starts_in_segment \<Rightarrow> nat list \<Rightarrow> fixup list \<Rightarrow> fixup list res" where
  "pages_loop E c it seg_starts_offset ss [] fixups = Ok fixups"
| "pages_loop E c it seg_starts_offset ss (page_index # pis) fixups =
     rbind (wadd (overflow_checks E) seg_starts_offset PAGE_STARTS_OFFSET) (\<lambda>table.
     rbind (wmul (overflow_checks E) (of_nat page_index) 2) (\<lambda>d.
     rbind (wadd (overflow_checks E) (ucast table) d) (\<lambda>off.
     rbind (ok_or No_Page_Starts (deserialize_type_at_offset (pread_u16 E) c off)) (\<lambda>page_start.
     rbind (wmul (overflow_checks E) (of_nat page_index) (ucast (ss_page_size ss))) (\<lambda>d.
     rbind (wadd (overflow_checks E) (ss_segment_offset ss) d) (\<lambda>o1.
     rbind (wadd (overflow_checks E) o1 (ucast page_start)) (\<lambda>chain_offset.
     rbind (chain_parse E c (ss_pointer_format ss) it chain_offset fixups) (\<lambda>fixups.
     pages_loop E c it seg_starts_offset ss pis fixups))))))))"

fun segments_loop :: "env \<Rightarrow> container \<Rightarrow> import_table \<Rightarrow> u32 \<Rightarrow> nat list \<Rightarrow> fixup list \<Rightarrow> fixup list res" where
  "segments_loop E c it starts_offset [] fixups = Ok fixups"
| "segments_loop E c it starts_offset (seg_offset_index # si) fixups =
     rbind (wadd (overflow_checks E) (ucast starts_offset) (of_nat (size_of dyld_chained_starts_in_image_layout))) (\<lambda>o1.
     rbind (wmul (overflow_checks E) (of_nat seg_offset_index) 4) (\<lambda>d.
     rbind (wadd (overflow_checks E) o1 d) (\<lambda>seg_offset_address.
     rbind (ok_or No_Starts_In_Image (deserialize_type_at_offset (pread_u32 E) c seg_offset_address)) (\<lambda>seg_offset.
     if seg_offset = 0 then segments_loop E c it starts_offset si fixups
     else
       rbind (wadd (overflow_checks E) starts_offset seg_offset) (\<lambda>seg_starts_offset.
       rbind (ok_or No_Starts_In_Segment
         (deserialize_type_at_offset (pread_dyld_chained_starts_in_segment E) c (ucast seg_starts_offset))) (\<lambda>ss.
       rbind (pages_loop E c it seg_starts_offset ss [0..<unat (ss_page_count ss)] fixups) (\<lambda>fixups.
       segments_loop E c it starts_offset si fixups)))))))"

definition chained_fixups_parse_all :: "env \<Rightarrow> container \<Rightarrow> fixup list res" where
  "chained_fixups_parse_all E c =
     rbind (chained_fixups_header_and_offset_find E c) (\<lambda>r.
     case r of
       None \<Rightarrow> Ok []
     | Some (fixup_data_offset, h) \<Rightarrow>
         rbind (wadd (overflow_checks E) fixup_data_offset (cf_starts_offset h)) (\<lambda>starts_offset.
         rbind (ok_or No_Starts_In_Image
           (deserialize_type_at_offset (pread_dyld_chained_starts_in_image E) c (ucast starts_offset))) (\<lambda>si.
         rbind (wadd (overflow_checks E) fixup_data_offset (cf_imports_offset h)) (\<lambda>imports_offset.
         rbind (wadd (overflow_checks E) fixup_data_offset (cf_symbols_offset h)) (\<lambda>symbols_offset.
         segments_loop E c (cf_imports_format h, ucast imports_offset, ucast symbols_offset)
           starts_offset [0..<unat (si_seg_count si)] [])))))"


section \<open>Applying the fixups\<close>

text \<open>
  The process memory as bytes by address. Pointer arithmetic and raw stores have the machine's
  semantics: addresses wrap, and a \<open>*mut u64\<close> is stored as its eight bytes, least significant first.
\<close>

type_synonym mem = "usize \<Rightarrow> u8"

definition poke_u64 :: "mem \<Rightarrow> usize \<Rightarrow> u64 \<Rightarrow> mem" where
  "poke_u64 m a v = (\<lambda>x. if unat (x - a) < 8 then ucast (drop_bit (8 * unat (x - a)) v) else m x)"

definition peek_u64 :: "mem \<Rightarrow> usize \<Rightarrow> u64" where
  "peek_u64 m a = of_nat (bytes_nat Little (raw_slice m a 8))"

text \<open>A user library is the bytes it was mapped to and the address of the first of them.\<close>

datatype library =
    System bytes
  | User container usize

definition fixup_dylib_weak_symbol ::
  "mem \<Rightarrow> usize \<Rightarrow> usize \<Rightarrow> usize \<Rightarrow> symbol list \<Rightarrow> fixed_string \<Rightarrow> mem res" where
  "fixup_dylib_weak_symbol m vm_start_ptr fixup_offset page_zero_size symbols symbol_name =
     (let dst_addr = vm_start_ptr + fixup_offset + page_zero_size in
      rbind (find_map (\<lambda>sym. rbind (array_string_cmp sym symbol_name) (\<lambda>b. Ok (if b then Some sym else None))) symbols) (\<lambda>r.
      rbind (ok_or Weak_Symbol_Missing r) (\<lambda>symbol.
      Ok (poke_u64 m dst_addr (vm_start_ptr + sy_impl_offset symbol)))))"

definition fixup_regular_symbol ::
  "env \<Rightarrow> mem \<Rightarrow> usize \<Rightarrow> usize \<Rightarrow> usize \<Rightarrow> fixed_string \<Rightarrow> library \<Rightarrow> shared_cache option \<Rightarrow> mem res" where
  "fixup_regular_symbol E m vm_start_ptr fixup_offset page_zero_size symbol_name library dyld_shared_cache =
     (case (library, dyld_shared_cache) of
        (System library_name, Some cache) \<Rightarrow>
          (let dst_addr = vm_start_ptr + page_zero_size + fixup_offset in
           rbind (fs_as_str symbol_name) (\<lambda>name.
           rbind (symbol_resolve E cache library_name name) (\<lambda>r.
           rbind (ok_or Cache_Symbol_Missing r) (\<lambda>resolved_symbol.
           Ok (poke_u64 m dst_addr resolved_symbol)))))
      | (User lib_container base, _) \<Rightarrow>
          rbind (fs_as_str symbol_name) (\<lambda>name.
          rbind (dylib_symbol_resolve E lib_container name) (\<lambda>r.
          rbind (ok_or User_Symbol_Missing r) (\<lambda>sym.
          case sym of
            Defined offset_from_mach_header \<Rightarrow>
              (let dst_addr = vm_start_ptr + page_zero_size + fixup_offset in
               Ok (poke_u64 m dst_addr (base + offset_from_mach_header)))
          | Reexported _ _ \<Rightarrow> Panic Unimplemented)))
      | _ \<Rightarrow> Err Link_Library_Failed)"

fun fixup_all_chained_fixups ::
  "env \<Rightarrow> usize \<Rightarrow> usize \<Rightarrow> symbol list \<Rightarrow> library list \<Rightarrow> shared_cache option \<Rightarrow> bool \<Rightarrow> fixup list \<Rightarrow> mem \<Rightarrow> mem res" where
  "fixup_all_chained_fixups E dst_ptr page_zero_size symbols dylibs cache ignore_binds [] m = Ok m"
| "fixup_all_chained_fixups E dst_ptr page_zero_size symbols dylibs cache ignore_binds (f # fs) m =
     (case fx_kind f of
        Rebase target \<Rightarrow>
          fixup_all_chained_fixups E dst_ptr page_zero_size symbols dylibs cache ignore_binds fs
            (poke_u64 m (dst_ptr + fx_offset f + page_zero_size) (dst_ptr + target + page_zero_size))
      | Bind symbol_name ordinal is_auth addend \<Rightarrow>
          if ignore_binds then
            fixup_all_chained_fixups E dst_ptr page_zero_size symbols dylibs cache ignore_binds fs m
          else
            rbind
              (if ordinal = BIND_SPECIAL_DYLIB_SELF then Err Bind_Self_Unsupported
               else if ordinal = BIND_SPECIAL_DYLIB_MAIN_EXECUTABLE then Err Bind_Main_Exec_Unsupported
               else if ordinal = BIND_SPECIAL_DYLIB_FLAT_LOOKUP then Err Bind_Flat_Unsupported
               else if ordinal = BIND_SPECIAL_DYLIB_WEAK_LOOKUP then
                 fixup_dylib_weak_symbol m dst_ptr (fx_offset f) page_zero_size symbols symbol_name
               else
                 rbind (wsub (overflow_checks E) (ucast ordinal) 1) (\<lambda>i.
                 rbind (index_at dylibs i) (\<lambda>lib.
                 fixup_regular_symbol E m dst_ptr (fx_offset f) page_zero_size symbol_name lib cache)))
              (fixup_all_chained_fixups E dst_ptr page_zero_size symbols dylibs cache ignore_binds fs))"

section \<open>Chains\<close>

text \<open>A chain as the steps that visit it.\<close>

inductive chain_of :: "env \<Rightarrow> container \<Rightarrow> dyld_chained_ptr_format_variants \<Rightarrow> import_table \<Rightarrow> usize \<Rightarrow> fixup list \<Rightarrow> bool"
  for E c pf it where
  chain_stop: "chain_step E c pf it off = Ok (f, None) \<Longrightarrow> chain_of E c pf it off [f]"
| chain_more: "chain_step E c pf it off = Ok (f, Some off') \<Longrightarrow> chain_of E c pf it off' fs \<Longrightarrow>
     chain_of E c pf it off (f # fs)"

inductive_cases chain_ofE: "chain_of E c pf it off fs"

text \<open>What the chain walk needs of one parsed fixup: it sits at the offset it was read from, and the
  next one is less than a megabyte away.\<close>

definition step_ok :: "usize \<Rightarrow> (u64 \<times> fixup) res \<Rightarrow> bool" where
  "step_ok off r \<longleftrightarrow> (\<forall>n f. r = Ok (n, f) \<longrightarrow> fx_offset f = off \<and> unat n < 2 ^ 20)"

lemma small_next:
  fixes x :: u16
  shows "unat (ucast x * 4 :: u64) < 2 ^ 20" "unat (ucast x * 8 :: u64) < 2 ^ 20"
  using unsigned_less [of x, where ?'a = nat] by (simp_all add: unat_word_ariths)

lemma step_ok_rbind: "(\<And>x. step_ok off (g x)) \<Longrightarrow> step_ok off (rbind m g)"
  by (auto simp: step_ok_def res_simps)

lemma step_ok_next:
  fixes x :: u16
  assumes "fx_offset f = off"
  shows "step_ok off (rbind (wmul oc (ucast x) 4) (\<lambda>n. Ok (n, f)))"
    "step_ok off (rbind (wmul oc (ucast x) 8) (\<lambda>n. Ok (n, f)))"
  using assms small_next [of x] by (auto simp: step_ok_def rbind_Ok_iff wmul_Ok_iff)

lemma fx_offset_made [simp]:
  "fx_offset (fixup_rebase off t) = off" "fx_offset (fixup_bind off s k a i) = off"
  by (simp_all add: fixup_rebase_def fixup_bind_def)

lemma step_ok_parsers:
  "step_ok off (fixup_64_parse_one E c v off it)" "step_ok off (fixup_arm64e_parse_one E c v off it)"
  "step_ok off (fixup_arm64e_userland24_parse_one E c v off it)"
  unfolding fixup_64_parse_one_def fixup_arm64e_parse_one_def fixup_arm64e_userland24_parse_one_def Let_def
  by (auto intro!: step_ok_rbind step_ok_next split: prod.split)

lemma parse_one_offset:
  "fixup_parse_one E c pf v off it = Ok (n, f) \<Longrightarrow> fx_offset f = off \<and> unat n < 2 ^ 20"
  using step_ok_parsers [of off E c v it]
  by (simp add: fixup_parse_one_def step_ok_def split: if_split_asm)

lemma string_building_returns: "fs_try_from_str oc n s \<noteq> Diverge" "deserialize_string_at_offset c off \<noteq> Diverge"
proof -
  have push: "fv_try_push oc x v \<noteq> Diverge" for x and v :: "u8 fixed_vec"
    by (auto simp: fv_try_push_def fv_is_full_def fv_remaining_capacity_def cell_write_def res_simps)
  have "fs_push_bytes oc bs v \<noteq> Diverge" for bs v
    by (induction bs arbitrary: v) (auto simp: res_simps push)
  then show "fs_try_from_str oc n s \<noteq> Diverge"
    by (auto simp: fs_try_from_str_def fs_try_push_str_def fs_remaining_capacity_def
        fv_remaining_capacity_def res_simps)
  show "deserialize_string_at_offset c off \<noteq> Diverge"
    by (simp add: deserialize_string_at_offset_def Let_def split: option.split)
qed

lemma unwrap_not_Diverge [simp]: "unwrap x \<noteq> Diverge"
  by (cases x) auto

lemma parse_one_returns: "fixup_parse_one E c pf v off it \<noteq> Diverge"
proof -
  have imp: "import_symbol_parse E c k fmt io so \<noteq> Diverge" for k fmt io so
    by (cases fmt) (auto simp: import_symbol_parse_def res_simps string_building_returns)
  have at: "import_at E c k it \<noteq> Diverge" for k
    by (cases it) (simp add: import_at_def imp)
  have "fixup_64_parse_one E c v off it \<noteq> Diverge" "fixup_arm64e_parse_one E c v off it \<noteq> Diverge"
    "fixup_arm64e_userland24_parse_one E c v off it \<noteq> Diverge"
    by (auto simp: fixup_64_parse_one_def fixup_arm64e_parse_one_def fixup_arm64e_userland24_parse_one_def
        Let_def at res_simps)
  then show ?thesis
    by (simp add: fixup_parse_one_def)
qed

lemma chain_step_returns: "chain_step E c pf it off \<noteq> Diverge"
  by (auto simp: chain_step_def res_simps parse_one_returns)

lemma chain_loop_chain:
  "chain_of E c pf it off gs \<Longrightarrow> chain_loop E c pf it off fs = Some (Ok (fs @ gs))"
  by (induction arbitrary: fs rule: chain_of.induct) (subst chain_loop.simps, simp)+

definition in_bounds :: "container \<Rightarrow> fixup list \<Rightarrow> bool" where
  "in_bounds c fs \<longleftrightarrow> (\<forall>f \<in> set fs. unat (fx_offset f) + 8 \<le> length (c_data c))"

lemma header_find_returns: "chained_fixups_header_and_offset_find E c \<noteq> Diverge"
proof -
  have nx: "lc_try_next E it \<noteq> Diverge" for E it
    by (auto simp: lc_try_next_def res_simps)
  have hl: "header_loop E it n \<noteq> Diverge" for E it n
  proof (induction E it n rule: header_loop.induct)
    case (1 E it n)
    have "rbind (wadd (overflow_checks E) n (ucast (lc_cmdsize lc))) (header_loop E (snd r)) \<noteq> Diverge"
      if "lc_try_next E it = Ok r" "fst r = Some lc" "lc_cmd lc \<noteq> LC_DYLD_CHAINED_FIXUPS" for r lc
      using 1 [OF that] by (auto simp: rbind_Diverge_iff)
    then show ?case
      by (subst header_loop.simps) (auto simp: rbind_Diverge_iff nx split: option.split)
  qed
  show ?thesis
    by (auto simp: chained_fixups_header_and_offset_find_def lc_try_with_container_def res_simps hl
        split: option.split_asm)
qed

context scroll_bounds
begin

lemma chain_step_advances:
  assumes "length (c_data c) < 2 ^ 63" "chain_step E c pf it off = Ok (f, nxt)"
  shows "fx_offset f = off \<and> unat off + 8 \<le> length (c_data c) \<and>
    (\<forall>off'. nxt = Some off' \<longrightarrow> unat off < unat off')"
proof -
  from assms(2) obtain v n where v: "pread_u64 E (c_endian c) (c_data c) off = Some v"
    and n: "fixup_parse_one E c pf v off it = Ok (n, f)"
    and nxt: "if n = 0 then nxt = None else nxt = Some (off + n)"
    by (auto simp: chain_step_def deserialize_type_at_offset_def res_simps split: if_split_asm)
  note off = u64_in_bounds [OF v] and f = parse_one_offset [OF n]
  with assms(1) have "unat (off + n) = unat off + unat n"
    by (intro unat_add_fits) simp
  with off f nxt show ?thesis
    by (auto simp: unat_gt_0 split: if_split_asm)
qed

lemma chain_loop_total:
  assumes "length (c_data c) < 2 ^ 63"
  shows "\<exists>r. chain_loop E c pf it off fs = Some r \<and> r \<noteq> Diverge \<and>
    (\<forall>gs. r = Ok gs \<longrightarrow> (\<exists>hs. chain_of E c pf it off hs \<and> gs = fs @ hs))"
proof (induction "length (c_data c) - unat off" arbitrary: off fs rule: less_induct)
  case less
  show ?case
  proof (cases "chain_step E c pf it off")
    case (Ok r)
    obtain f nxt where r: "r = (f, nxt)" by fastforce
    note adv = chain_step_advances [OF assms Ok [unfolded r]]
    show ?thesis
    proof (cases nxt)
      case None
      with Ok r show ?thesis by (subst chain_loop.simps) (auto intro: chain_stop)
    next
      case (Some off')
      with adv have "length (c_data c) - unat off' < length (c_data c) - unat off" by auto
      from less.hyps [OF this, of "fs @ [f]"] Ok r Some show ?thesis
        by (subst chain_loop.simps) (auto intro: chain_more)
    qed
  qed (use chain_step_returns in \<open>subst chain_loop.simps, auto\<close>)+
qed

lemma chain_of_bounds:
  assumes "length (c_data c) < 2 ^ 63"
  shows "chain_of E c pf it off gs \<Longrightarrow> gs \<noteq> [] \<and> fx_offset (hd gs) = off \<and>
    sorted_wrt (<) (map (\<lambda>f. unat (fx_offset f)) gs) \<and>
    (\<forall>f \<in> set gs. unat off \<le> unat (fx_offset f) \<and> unat (fx_offset f) + 8 \<le> length (c_data c))"
proof (induction rule: chain_of.induct)
  case (chain_stop off f)
  then show ?case using chain_step_advances [OF assms] by fastforce
next
  case (chain_more off f off' fs)
  then show ?case using chain_step_advances [OF assms chain_more(1)] by fastforce
qed

lemma chain_parse_iff:
  assumes "length (c_data c) < 2 ^ 63"
  shows "chain_parse E c pf it off fs = Ok r \<longleftrightarrow> (\<exists>gs. chain_of E c pf it off gs \<and> r = fs @ gs)"
    "chain_parse E c pf it off fs \<noteq> Diverge"
  using chain_loop_total [OF assms, of pf it off fs]
  by (auto simp: chain_parse_def chain_loop_chain)

lemma pages_loop_bounds:
  assumes "length (c_data c) < 2 ^ 63"
  shows "pages_loop E c it seg ss ps fs \<noteq> Diverge \<and>
    (\<forall>r. pages_loop E c it seg ss ps fs = Ok r \<longrightarrow> in_bounds c fs \<longrightarrow> in_bounds c r)"
proof (induction ps arbitrary: fs)
  case Nil
  then show ?case by simp
next
  case (Cons p ps)
  have "in_bounds c gs" if "chain_parse E c (ss_pointer_format ss) it off fs = Ok gs" "in_bounds c fs" for off gs
    using that chain_of_bounds [OF assms, of "ss_pointer_format ss" it off]
    by (auto simp: chain_parse_iff [OF assms] in_bounds_def)
  with Cons show ?case
    by (auto simp: res_simps chain_parse_iff(2) [OF assms])
qed

lemma segments_loop_bounds:
  assumes "length (c_data c) < 2 ^ 63"
  shows "segments_loop E c it starts si fs \<noteq> Diverge \<and>
    (\<forall>r. segments_loop E c it starts si fs = Ok r \<longrightarrow> in_bounds c fs \<longrightarrow> in_bounds c r)"
proof (induction si arbitrary: fs)
  case Nil
  then show ?case by simp
next
  case (Cons p ps)
  have "pages_loop E c it seg ss ps fs \<noteq> Diverge" for seg ss ps fs
    using pages_loop_bounds [OF assms] by blast
  moreover have "in_bounds c gs" if "pages_loop E c it seg ss ps fs = Ok gs" "in_bounds c fs" for seg ss ps gs
    using that pages_loop_bounds [OF assms] by blast
  ultimately show ?case
    using Cons by (auto simp: res_simps split: if_split_asm)
qed

lemma parse_all_bounds:
  assumes "length (c_data c) < 2 ^ 63"
  shows "chained_fixups_parse_all E c \<noteq> Diverge \<and>
    (\<forall>r. chained_fixups_parse_all E c = Ok r \<longrightarrow> in_bounds c r)"
  using segments_loop_bounds [OF assms]
  by (fastforce simp: chained_fixups_parse_all_def res_simps header_find_returns in_bounds_def
      split: option.split_asm)

end

section \<open>Memory\<close>

lemma unat_byte:
  fixes v :: u64
  shows "unat (ucast (drop_bit (8 * k) v) :: u8) = unat v div 256 ^ k mod 256"
proof -
  have "unat (drop_bit (8 * k) v) = unat v div 2 ^ (8 * k)"
    by (simp only: unat_drop_bit_eq) (rule drop_bit_eq_div)
  also have p: "(2 :: nat) ^ (8 * k) = 256 ^ k"
    using power_mult [of "2::nat" 8 k] by simp
  finally have d: "unat (drop_bit (8 * k) v) = unat v div 256 ^ k" .
  have "unat (ucast w :: u8) = unat w mod 256" for w :: u64
    by (simp add: unsigned_ucast_eq take_bit_eq_mod)
  from this [of "drop_bit (8 * k) v"] show ?thesis
    unfolding d .
qed

lemma le_nat_bytes:
  fixes v :: u64
  shows "le_nat (map (\<lambda>i. ucast (drop_bit (8 * (k + i)) v)) [0..<n]) = (unat v div 256 ^ k) mod 256 ^ n"
proof (induction n arbitrary: k)
  case 0
  then show ?case by simp
next
  case (Suc n)
  let ?b = "\<lambda>i. ucast (drop_bit (8 * i) v) :: u8" and ?x = "unat v div 256 ^ k"
  have "map (\<lambda>i. ?b (k + i)) [0..<Suc n] = ?b k # map (\<lambda>i. ?b (Suc k + i)) [0..<n]"
    by (simp add: upt_rec [of 0 "Suc n"] map_Suc_upt [symmetric] comp_def ac_simps del: upt_Suc)
  then have "le_nat (map (\<lambda>i. ?b (k + i)) [0..<Suc n]) =
      ?x mod 256 + 256 * (unat v div 256 ^ Suc k mod 256 ^ n)"
    by (simp only: le_nat.simps Suc unat_byte)
  also have "unat v div 256 ^ Suc k = ?x div 256"
    by (simp only: power_Suc2 div_mult2_eq)
  also have "?x mod 256 + 256 * (?x div 256 mod 256 ^ n) = ?x mod 256 ^ Suc n"
    by (simp only: power_Suc mod_mult2_eq add.commute)
  finally show ?case .
qed

lemma peek_poke_same: "peek_u64 (poke_u64 m a v) a = v"
proof -
  have "raw_slice (poke_u64 m a v) a 8 = map (\<lambda>i. ucast (drop_bit (8 * (0 + i)) v)) [0..<8]"
    by (auto simp: raw_slice_def poke_u64_def unat_of_nat take_bit_eq_mod)
  then have "peek_u64 (poke_u64 m a v) a = of_nat (unat v mod 256 ^ 8)"
    unfolding peek_u64_def bytes_nat_def by (simp only: le_nat_bytes endian.case) simp
  also have "unat v mod 256 ^ 8 = unat v"
    using unsigned_less [of v, where ?'a = nat] by simp
  finally show ?thesis by simp
qed

text \<open>Two stores of eight bytes do not touch each other.\<close>

definition separate :: "usize \<Rightarrow> usize \<Rightarrow> bool" where
  "separate a b \<longleftrightarrow> 8 \<le> unat (a - b) \<and> 8 \<le> unat (b - a)"

lemma peek_poke_other:
  assumes "separate a b"
  shows "peek_u64 (poke_u64 m a v) b = peek_u64 m b"
proof -
  have "poke_u64 m a v (b + of_nat i) = m (b + of_nat i)" if "i < 8" for i
  proof -
    have "8 \<le> unat (b + of_nat i - a)"
    proof (cases "unat (b - a) + i < 2 ^ 64")
      case True
      then have "unat (b - a + of_nat i) = unat (b - a) + i"
        using that by (simp add: unat_word_ariths unat_of_nat take_bit_eq_mod)
      then show ?thesis using assms by (simp add: separate_def algebra_simps)
    next
      case False
      have "unat (a - b) = 2 ^ 64 - unat (b - a)"
        using assms unsigned_less [of a, where ?'a = nat] unsigned_less [of b, where ?'a = nat]
        unfolding separate_def unat_sub_if' word_le_nat_alt by (auto split: if_split_asm)
      with False that assms show ?thesis by (simp add: separate_def)
    qed
    then show ?thesis by (simp add: poke_u64_def)
  qed
  then have "raw_slice (poke_u64 m a v) b 8 = raw_slice m b 8"
    by (simp add: raw_slice_def)
  then show ?thesis by (simp add: peek_u64_def)
qed

section \<open>What a fixup stores\<close>

definition fixup_addr :: "usize \<Rightarrow> usize \<Rightarrow> fixup \<Rightarrow> usize" where
  "fixup_addr dst pz f = dst + fx_offset f + pz"

text \<open>The pointer a bind resolves to, by the ordinal of the library that has the symbol: the weak
  lookup goes to the symbol table of the image itself, the other ordinals count the libraries from 1.\<close>

definition bind_target ::
  "env \<Rightarrow> usize \<Rightarrow> symbol list \<Rightarrow> library list \<Rightarrow> shared_cache option \<Rightarrow> fixed_string \<Rightarrow> u32 \<Rightarrow> u64 res" where
  "bind_target E dst symbols dylibs cache name ordinal =
     (if ordinal = 0 then Err Bind_Self_Unsupported
      else if ordinal = 255 then Err Bind_Main_Exec_Unsupported
      else if ordinal = 254 then Err Bind_Flat_Unsupported
      else if ordinal = 253 then
        rbind (find_map (\<lambda>sym. rbind (array_string_cmp sym name) (\<lambda>b. Ok (if b then Some sym else None))) symbols)
          (\<lambda>r. rbind (ok_or Weak_Symbol_Missing r) (\<lambda>sym. Ok (dst + sy_impl_offset sym)))
      else if length dylibs < unat ordinal then Panic Index_Bounds
      else case (dylibs ! (unat ordinal - 1), cache) of
        (System path, Some dsc) \<Rightarrow>
          rbind (fs_as_str name) (\<lambda>s. rbind (symbol_resolve E dsc path s) (ok_or Cache_Symbol_Missing))
      | (User lib base, _) \<Rightarrow>
          rbind (fs_as_str name) (\<lambda>s. rbind (dylib_symbol_resolve E lib s) (\<lambda>r.
            rbind (ok_or User_Symbol_Missing r) (\<lambda>d.
              case d of Defined off \<Rightarrow> Ok (base + off) | Reexported _ _ \<Rightarrow> Panic Unimplemented)))
      | _ \<Rightarrow> Err Link_Library_Failed)"

definition fixup_value ::
  "env \<Rightarrow> usize \<Rightarrow> usize \<Rightarrow> symbol list \<Rightarrow> library list \<Rightarrow> shared_cache option \<Rightarrow> bool \<Rightarrow> fixup \<Rightarrow> u64 option res" where
  "fixup_value E dst pz symbols dylibs cache ignore_binds f =
     (case fx_kind f of
        Rebase target \<Rightarrow> Ok (Some (dst + target + pz))
      | Bind name ordinal _ _ \<Rightarrow>
          if ignore_binds then Ok None
          else rbind (bind_target E dst symbols dylibs cache name ordinal) (\<lambda>v. Ok (Some v)))"

lemmas special_ordinals = BIND_SPECIAL_DYLIB_SELF_def BIND_SPECIAL_DYLIB_MAIN_EXECUTABLE_def
  BIND_SPECIAL_DYLIB_FLAT_LOOKUP_def BIND_SPECIAL_DYLIB_WEAK_LOOKUP_def

lemma ordinal_index:
  fixes k :: u32
  assumes "k \<noteq> 0"
  shows "rbind (wsub oc (ucast k :: usize) 1) (\<lambda>i. rbind (index_at xs i) g) =
    (if length xs < unat k then Panic Index_Bounds else g (xs ! (unat k - 1)))"
proof -
  have k: "1 \<le> unat k" using assms by (simp add: Suc_leI unat_gt_0)
  then have u: "unat ((ucast k :: usize) - 1) = unat k - 1"
    by (subst unat_sub_fits) simp_all
  with k show ?thesis
    by (auto simp: index_at_def)
qed

lemma rbind_case_System:
  "rbind m (\<lambda>r. rbind (ok_or e r) (\<lambda>v. Ok (g v))) = rbind (rbind m (ok_or e)) (\<lambda>v. Ok (g v))"
  by (simp add: rbind_assoc)

lemma fixup_all_Cons:
  "fixup_all_chained_fixups E dst pz symbols dylibs cache ignore_binds (f # fs) m =
     rbind (fixup_value E dst pz symbols dylibs cache ignore_binds f) (\<lambda>v.
       fixup_all_chained_fixups E dst pz symbols dylibs cache ignore_binds fs
         (case v of None \<Rightarrow> m | Some v \<Rightarrow> poke_u64 m (fixup_addr dst pz f) v))"
proof (cases "fx_kind f")
  case (Rebase t)
  then show ?thesis by (simp add: fixup_value_def fixup_addr_def)
next
  case (Bind name k a d)
  have reg: "fixup_regular_symbol E m dst (fx_offset f) pz name lib cache =
      rbind (case (lib, cache) of
        (System path, Some dsc) \<Rightarrow>
          rbind (fs_as_str name) (\<lambda>s. rbind (symbol_resolve E dsc path s) (ok_or Cache_Symbol_Missing))
      | (User lib base, _) \<Rightarrow>
          rbind (fs_as_str name) (\<lambda>s. rbind (dylib_symbol_resolve E lib s) (\<lambda>r.
            rbind (ok_or User_Symbol_Missing r) (\<lambda>d.
              case d of Defined off \<Rightarrow> Ok (base + off) | Reexported _ _ \<Rightarrow> Panic Unimplemented)))
      | _ \<Rightarrow> Err Link_Library_Failed) (\<lambda>v. Ok (poke_u64 m (fixup_addr dst pz f) v))" for lib
    by (auto simp: fixup_regular_symbol_def fixup_addr_def rbind_assoc Let_def ac_simps
        split: library.split option.split dylib_symbol.split intro!: rbind_cong)
  show ?thesis
    using Bind
    by (auto simp: fixup_value_def bind_target_def special_ordinals rbind_assoc ordinal_index reg
        fixup_dylib_weak_symbol_def fixup_addr_def Let_def)
qed

declare fixup_all_chained_fixups.simps(2) [simp del]

lemma separate_sym: "separate a b \<longleftrightarrow> separate b a"
  by (auto simp: separate_def)

lemma fixups_frame:
  "fixup_all_chained_fixups E dst pz symbols dylibs cache ib fs m = Ok m' \<Longrightarrow>
     \<forall>f \<in> set fs. fixup_value E dst pz symbols dylibs cache ib f \<noteq> Ok None \<longrightarrow> 8 \<le> unat (x - fixup_addr dst pz f) \<Longrightarrow>
     m' x = m x"
proof (induction fs arbitrary: m)
  case Nil
  then show ?case by simp
next
  case (Cons f fs)
  from Cons.prems(1) obtain v where v: "fixup_value E dst pz symbols dylibs cache ib f = Ok v"
    and rest: "fixup_all_chained_fixups E dst pz symbols dylibs cache ib fs
      (case v of None \<Rightarrow> m | Some v \<Rightarrow> poke_u64 m (fixup_addr dst pz f) v) = Ok m'"
    unfolding fixup_all_Cons by (auto simp: rbind_Ok_iff)
  from Cons.IH [OF rest] Cons.prems(2) v show ?case
    by (auto simp: poke_u64_def split: option.split_asm)
qed

text \<open>When applying the fixups fails, it is for the first of them that has no value.\<close>

lemma fixups_first_failure:
  "failure (fixup_all_chained_fixups E dst pz symbols dylibs cache ib fs m) = Some x \<Longrightarrow>
     \<exists>gs f hs. fs = gs @ f # hs \<and> (\<forall>g \<in> set gs. \<exists>v. fixup_value E dst pz symbols dylibs cache ib g = Ok v) \<and>
       failure (fixup_value E dst pz symbols dylibs cache ib f) = Some x"
proof (induction fs arbitrary: m)
  case (Cons f fs)
  show ?case
  proof (cases "failure (fixup_value E dst pz symbols dylibs cache ib f) = Some x")
    case True
    then show ?thesis by (intro exI [of _ "[]"] exI [of _ f] exI [of _ fs]) simp
  next
    case False
    with Cons.prems obtain v m' where "fixup_value E dst pz symbols dylibs cache ib f = Ok v"
      "failure (fixup_all_chained_fixups E dst pz symbols dylibs cache ib fs m') = Some x"
      unfolding fixup_all_Cons by (subst (asm) failure_rbind) blast
    with Cons.IH show ?thesis by (metis append_Cons set_ConsD)
  qed
qed simp

text \<open>Applying the fixups is making their stores in turn.\<close>

lemma fixups_as_stores:
  "fixup_all_chained_fixups E dst pz symbols dylibs cache ib fs m = Ok m' \<Longrightarrow>
     \<exists>vs. list_all2 (\<lambda>f v. fixup_value E dst pz symbols dylibs cache ib f = Ok v) fs vs \<and>
       m' = store_all poke_u64 (map2 (\<lambda>f v. (fixup_addr dst pz f, v)) fs vs) m"
proof (induction fs arbitrary: m)
  case Nil
  then show ?case by simp
next
  case (Cons f fs)
  from Cons.prems obtain v where v: "fixup_value E dst pz symbols dylibs cache ib f = Ok v"
    and rest: "fixup_all_chained_fixups E dst pz symbols dylibs cache ib fs
      (case v of None \<Rightarrow> m | Some v \<Rightarrow> poke_u64 m (fixup_addr dst pz f) v) = Ok m'"
    unfolding fixup_all_Cons by (auto simp: rbind_Ok_iff)
  from Cons.IH [OF rest] obtain vs where
    "list_all2 (\<lambda>f v. fixup_value E dst pz symbols dylibs cache ib f = Ok v) fs vs"
    "m' = store_all poke_u64 (map2 (\<lambda>f v. (fixup_addr dst pz f, v)) fs vs)
      (case v of None \<Rightarrow> m | Some v \<Rightarrow> poke_u64 m (fixup_addr dst pz f) v)" by blast
  with v show ?case by (intro exI [of _ "v # vs"]) simp
qed

interpretation words: memory peek_u64 poke_u64 "\<lambda>_. True" separate
  by unfold_locales (simp_all add: peek_poke_same peek_poke_other separate_sym)

lemma fixups_written:
  assumes "sorted_wrt (\<lambda>f g. separate (fixup_addr dst pz f) (fixup_addr dst pz g)) fs"
    and "fixup_all_chained_fixups E dst pz symbols dylibs cache ib fs m = Ok m'"
  shows "(\<forall>f \<in> set fs. case fixup_value E dst pz symbols dylibs cache ib f of
      Ok (Some v) \<Rightarrow> peek_u64 m' (fixup_addr dst pz f) = v
    | Ok None \<Rightarrow> peek_u64 m' (fixup_addr dst pz f) = peek_u64 m (fixup_addr dst pz f)
    | _ \<Rightarrow> False) \<and>
    (\<forall>x. (\<forall>f \<in> set fs. 8 \<le> unat (x - fixup_addr dst pz f)) \<longrightarrow> m' x = m x)"
proof -
  from fixups_as_stores [OF assms(2)] obtain vs where
    vs: "list_all2 (\<lambda>f v. fixup_value E dst pz symbols dylibs cache ib f = Ok v) fs vs"
    and m': "m' = store_all poke_u64 (map2 (\<lambda>f v. (fixup_addr dst pz f, v)) fs vs) m" by blast
  let ?ws = "map2 (\<lambda>f v. (fixup_addr dst pz f, v)) fs vs"
  have len: "length vs = length fs" using vs by (simp add: list_all2_lengthD)
  then have "map fst ?ws = map (fixup_addr dst pz) fs"
    by (intro nth_equalityI) simp_all
  then have sep: "sorted_wrt separate (map fst ?ws)" using assms(1) by (simp add: sorted_wrt_map)
  have "case fixup_value E dst pz symbols dylibs cache ib f of
      Ok (Some v) \<Rightarrow> peek_u64 m' (fixup_addr dst pz f) = v
    | Ok None \<Rightarrow> peek_u64 m' (fixup_addr dst pz f) = peek_u64 m (fixup_addr dst pz f)
    | _ \<Rightarrow> False" if "f \<in> set fs" for f
  proof -
    from that obtain i where i: "i < length fs" "f = fs ! i" by (auto simp: in_set_conv_nth)
    then have "(fixup_addr dst pz f, vs ! i) \<in> set ?ws"
      using len by (force simp: set_zip)
    from words.rd_store_all [OF sep _ this, of m] m'
    have "peek_u64 m' (fixup_addr dst pz f) = (case vs ! i of None \<Rightarrow> peek_u64 m (fixup_addr dst pz f) | Some w \<Rightarrow> w)"
      by simp
    moreover have "fixup_value E dst pz symbols dylibs cache ib f = Ok (vs ! i)"
      using vs i by (simp add: list_all2_conv_all_nth)
    ultimately show ?thesis by (simp split: option.split)
  qed
  then show ?thesis
    using fixups_frame [OF assms(2)] by blast
qed

text \<open>C7: applying the fixups. When the locations do not overlap and every fixup resolves, each location
  ends up holding the pointer of its own fixup (the base plus the target for a rebase, what the
  symbol resolves to for a bind), the locations of skipped binds keep their value, and no byte
  outside the locations changes.\<close>

theorem fixups_applied:
  assumes "sorted_wrt (\<lambda>f g. separate (fixup_addr dst pz f) (fixup_addr dst pz g)) fs"
    and "fixup_all_chained_fixups E dst pz symbols dylibs cache ib fs m = Ok m'"
  shows "(\<forall>f \<in> set fs. case fixup_value E dst pz symbols dylibs cache ib f of
      Ok (Some v) \<Rightarrow> peek_u64 m' (fixup_addr dst pz f) = v
    | Ok None \<Rightarrow> peek_u64 m' (fixup_addr dst pz f) = peek_u64 m (fixup_addr dst pz f)
    | _ \<Rightarrow> False) \<and>
    (\<forall>x. (\<forall>f \<in> set fs. 8 \<le> unat (x - fixup_addr dst pz f)) \<longrightarrow> m' x = m x)"
  by (rule fixups_written [OF assms])

definition sample_fixups :: "fixup list" where
  "sample_fixups = [fixup_rebase 0 0x10, fixup_bind 8 (fs_new 4) 1 0 False, fixup_rebase 16 0x20]"

theorem fixups_applied_witness:
  "\<exists>m'. fixup_all_chained_fixups (scroll_ref True) 0x1000 0 [] [] None True sample_fixups (\<lambda>_. 7) = Ok m' \<and>
     peek_u64 m' 0x1000 = 0x1010 \<and> peek_u64 m' 0x1010 = 0x1020 \<and> m' 0x1018 = 7"
proof -
  obtain m' where r: "fixup_all_chained_fixups (scroll_ref True) 0x1000 0 [] [] None True sample_fixups (\<lambda>_. 7) = Ok m'"
    by (simp add: sample_fixups_def fixup_rebase_def fixup_bind_def fixup_all_Cons fixup_value_def)
  have "sorted_wrt (\<lambda>f g. separate (fixup_addr 0x1000 0 f) (fixup_addr 0x1000 0 g)) sample_fixups"
    by (simp add: sample_fixups_def fixup_addr_def separate_def)
  from fixups_applied [OF this r] r show ?thesis
    by (auto simp: sample_fixups_def fixup_addr_def fixup_value_def fixup_rebase_def fixup_bind_def)
qed

text \<open>C13: the linker relocating itself. With binds ignored no fixup can fail, whatever the fixups, the
  libraries and the ordinals, and only the locations of rebases are written.\<close>

theorem self_rebase_total:
  "\<exists>m'. fixup_all_chained_fixups E dst pz symbols dylibs cache True fs m = Ok m' \<and>
     (\<forall>x. (\<forall>f t. f \<in> set fs \<and> fx_kind f = Rebase t \<longrightarrow> 8 \<le> unat (x - fixup_addr dst pz f)) \<longrightarrow> m' x = m x)"
proof -
  have val: "\<exists>v. fixup_value E dst pz symbols dylibs cache True f = Ok v" for f
    by (simp add: fixup_value_def split: fixup_kind.split)
  have "\<exists>m'. fixup_all_chained_fixups E dst pz symbols dylibs cache True fs m = Ok m'"
  proof (induction fs arbitrary: m)
    case (Cons f fs)
    with val [of f] show ?case unfolding fixup_all_Cons by auto
  qed simp
  then obtain m' where m': "fixup_all_chained_fixups E dst pz symbols dylibs cache True fs m = Ok m'" by blast
  have "m' x = m x" if "\<forall>f t. f \<in> set fs \<and> fx_kind f = Rebase t \<longrightarrow> 8 \<le> unat (x - fixup_addr dst pz f)" for x
    by (rule fixups_frame [OF m']) (use that in \<open>auto simp: fixup_value_def split: fixup_kind.split_asm\<close>)
  with m' show ?thesis by blast
qed

theorem self_rebase_total_witness:
  "\<exists>m'. fixup_all_chained_fixups (scroll_ref True) 0x1000 0 [] [] None True sample_fixups (\<lambda>_. 7) = Ok m' \<and> m' 0x1008 = 7"
proof -
  from self_rebase_total [where E = "scroll_ref True" and dst = "0x1000" and pz = 0 and symbols = "[]" and
    dylibs = "[]" and cache = None and fs = sample_fixups and m = "\<lambda>_. 7"]
  obtain m' where m': "fixup_all_chained_fixups (scroll_ref True) 0x1000 0 [] [] None True sample_fixups (\<lambda>_. 7) = Ok m'"
    and frame: "\<And>x. \<forall>f t. f \<in> set sample_fixups \<and> fx_kind f = Rebase t \<longrightarrow>
      8 \<le> unat (x - fixup_addr 0x1000 0 f) \<Longrightarrow> m' x = 7" by blast
  have "m' 0x1008 = 7"
    by (rule frame) (auto simp: sample_fixups_def fixup_addr_def fixup_rebase_def fixup_bind_def)
  with m' show ?thesis by blast
qed

text \<open>C12: binds that cannot be served. After any fixups that were applied, a bind to the image itself, to
  the main executable or by flat lookup stops the linking with its own error, and a library ordinal
  beyond the libraries collected is an index panic; nothing after it is applied.\<close>

theorem unsupported_binds_stop:
  assumes "fixup_all_chained_fixups E dst pz symbols dylibs cache False fs m = Ok m1"
    and "fx_kind f = Bind name k auth addend"
    and "k \<in> {0, 254, 255} \<or> (k \<noteq> 253 \<and> length dylibs < unat k)"
  shows "fixup_all_chained_fixups E dst pz symbols dylibs cache False (fs @ f # gs) m =
    (if k = 0 then Err Bind_Self_Unsupported else if k = 255 then Err Bind_Main_Exec_Unsupported
     else if k = 254 then Err Bind_Flat_Unsupported else Panic Index_Bounds)"
  using assms(1)
proof (induction fs arbitrary: m)
  case Nil
  with assms(2,3) show ?case by (auto simp: fixup_all_Cons fixup_value_def bind_target_def)
next
  case (Cons g fs)
  then show ?case by (auto simp: fixup_all_Cons rbind_Ok_iff)
qed

theorem unsupported_binds_stop_witness:
  "fixup_all_chained_fixups (scroll_ref True) 0x1000 0 [] [] None False
     [fixup_rebase 0 0x10, fixup_bind 8 (fs_new 4) 1 0 False] (\<lambda>_. 7) = Panic Index_Bounds"
proof -
  have "fixup_all_chained_fixups (scroll_ref True) 0x1000 0 [] [] None False [fixup_rebase 0 0x10] (\<lambda>_. 7) =
      Ok (poke_u64 (\<lambda>_. 7) 0x1000 0x1010)"
    by (simp add: fixup_rebase_def fixup_all_Cons fixup_value_def fixup_addr_def)
  from unsupported_binds_stop [OF this, of "fixup_bind 8 (fs_new 4) 1 0 False" "fs_new 4" 1 False 0 "[]"]
  show ?thesis by (simp add: fixup_bind_def)
qed

text \<open>C8: the chain walk. On any image shorter than 2 to the 63 bytes whose reads respect bounds, the
  unbounded loop over a chain always ends; when it succeeds it has appended exactly the fixups of the
  chain, in order, each inside the image and at strictly increasing offsets from the page's start.\<close>

theorem chain_parse_exact:
  assumes "scroll_bounds E" "length (c_data c) < 2 ^ 63"
  shows "chain_parse E c pf it off fs \<noteq> Diverge \<and>
    (\<forall>r. chain_parse E c pf it off fs = Ok r \<longleftrightarrow>
      (\<exists>gs. chain_of E c pf it off gs \<and> r = fs @ gs \<and> gs \<noteq> [] \<and> fx_offset (hd gs) = off \<and>
        sorted_wrt (<) (map (\<lambda>f. unat (fx_offset f)) gs) \<and>
        (\<forall>f \<in> set gs. unat (fx_offset f) + 8 \<le> length (c_data c))))"
  using scroll_bounds.chain_parse_iff [OF assms, of pf it off fs]
    scroll_bounds.chain_of_bounds [OF assms, of pf it off] by blast

text \<open>Two rebases in one chain, eight bytes apart.\<close>

definition sample_chain :: container where
  "sample_chain = with_bytes [0x10, 0, 0, 0, 0, 0, 8, 0, 0x20, 0, 0, 0, 0, 0, 0, 0] Little"

lemma sample_chain_of:
  "chain_of (scroll_ref oc) sample_chain DYLD_CHAINED_PTR_ARM64E it 0 [fixup_rebase 0 0x10, fixup_rebase 8 0x20]"
proof -
  have r: "deserialize_type_at_offset (pread_u64 (scroll_ref oc)) sample_chain 0 = Some 0x0008000000000010"
    "deserialize_type_at_offset (pread_u64 (scroll_ref oc)) sample_chain 8 = Some 0x20"
    by (simp_all add: deserialize_type_at_offset_def sample_chain_def with_bytes_def scroll_ref_def parser_simps)
  have "fixup_parse_one (scroll_ref oc) sample_chain DYLD_CHAINED_PTR_ARM64E 0x0008000000000010 0 it =
      Ok (8, fixup_rebase 0 0x10)"
    "fixup_parse_one (scroll_ref oc) sample_chain DYLD_CHAINED_PTR_ARM64E 0x20 8 it = Ok (0, fixup_rebase 8 0x20)"
    by (simp_all add: fixup_parse_one_def fixup_arm64e_parse_one_def rebase_field_defs wmul_def)
  with r have "chain_step (scroll_ref oc) sample_chain DYLD_CHAINED_PTR_ARM64E it 0 = Ok (fixup_rebase 0 0x10, Some 8)"
    "chain_step (scroll_ref oc) sample_chain DYLD_CHAINED_PTR_ARM64E it 8 = Ok (fixup_rebase 8 0x20, None)"
    by (simp_all add: chain_step_def wadd_def)
  then show ?thesis by (blast intro: chain_of.intros)
qed

theorem chain_parse_exact_witness:
  "chain_parse (scroll_ref True) sample_chain DYLD_CHAINED_PTR_ARM64E (DYLD_CHAINED_IMPORT, 0, 0) 0 [] =
     Ok [fixup_rebase 0 0x10, fixup_rebase 8 0x20]"
proof -
  have "length (c_data sample_chain) < 2 ^ 63" by (simp add: sample_chain_def with_bytes_def)
  from chain_parse_exact [OF scroll_ref.scroll_bounds_axioms this] show ?thesis
    using sample_chain_of [of True "(DYLD_CHAINED_IMPORT, 0, 0)"]
    by (auto simp: sample_chain_def with_bytes_def)
qed

text \<open>C11: parsing the fixups ends, and every fixup it returns denotes eight bytes inside the image.\<close>

theorem parse_all_total:
  assumes "scroll_bounds E" "length (c_data c) < 2 ^ 63"
  shows "chained_fixups_parse_all E c \<noteq> Diverge \<and>
    (\<forall>r. chained_fixups_parse_all E c = Ok r \<longrightarrow>
      (\<forall>f \<in> set r. unat (fx_offset f) + 8 \<le> length (c_data c)))"
  using scroll_bounds.parse_all_bounds [OF assms] by (simp add: in_bounds_def)

theorem parse_all_total_witness:
  "chained_fixups_parse_all (scroll_ref True) (with_bytes sample_image Little) \<noteq> Diverge"
proof -
  have "length (c_data (with_bytes sample_image Little)) < 2 ^ 63"
    by (simp add: sample_image_def with_bytes_def)
  from parse_all_total [OF scroll_ref.scroll_bounds_axioms this] show ?thesis by blast
qed

definition arm64e_rebase_word :: "43 word \<Rightarrow> u8 \<Rightarrow> 11 word \<Rightarrow> u64" where
  "arm64e_rebase_word target high8 nxt =
     ucast target OR push_bit 43 (ucast high8) OR push_bit 51 (ucast nxt)"

definition ptr_64_rebase_word :: "36 word \<Rightarrow> u8 \<Rightarrow> 12 word \<Rightarrow> u64" where
  "ptr_64_rebase_word target high8 nxt =
     ucast target OR push_bit 36 (ucast high8) OR push_bit 51 (ucast nxt)"

lemma arm64e_rebase_fields:
  "dyld_chained_ptr_arm64e_rebase_target (arm64e_rebase_word t h n) = ucast t"
  "dyld_chained_ptr_arm64e_rebase_high8 (arm64e_rebase_word t h n) = h"
  "dyld_chained_ptr_arm64e_rebase_next (arm64e_rebase_word t h n) = ucast n"
  "drop_bit 62 (arm64e_rebase_word t h n) AND 1 = 0" "drop_bit 63 (arm64e_rebase_word t h n) AND 1 = 0"
  unfolding arm64e_rebase_word_def rebase_field_defs and_masks
  by (rule bit_word_eqI; auto simp: bit_simps dest: bit_imp_le_length)+

lemma ptr_64_rebase_fields:
  "dyld_chained_ptr_64_rebase_target (ptr_64_rebase_word t h n) = ucast t"
  "dyld_chained_ptr_64_rebase_high8 (ptr_64_rebase_word t h n) = h"
  "dyld_chained_ptr_64_rebase_next (ptr_64_rebase_word t h n) = ucast n"
  "drop_bit 63 (ptr_64_rebase_word t h n) AND 1 = 0"
  unfolding ptr_64_rebase_word_def rebase_field_defs and_masks
  by (rule bit_word_eqI; auto simp: bit_simps dest: bit_imp_le_length)+

lemma next_exact:
  fixes n :: "11 word" and n' :: "12 word"
  shows "wmul oc (ucast n :: u64) 8 = Ok (8 * ucast n)" "wmul oc (ucast n' :: u64) 4 = Ok (4 * ucast n')"
  using unsigned_less [of n, where ?'a = nat] unsigned_less [of n', where ?'a = nat]
  by (simp_all add: wmul_def mult.commute)

lemma next_widen:
  "ucast (ucast n :: u16) = (ucast n :: u64)" "ucast (ucast n' :: u16) = (ucast n' :: u64)"
  for n :: "11 word" and n' :: "12 word"
  by (rule bit_word_eqI; auto simp: bit_simps dest: bit_imp_le_length)+

text \<open>C9: what a rebase entry means. For every target, high byte and distance to the next entry that fit
  their fields, the parsers return the address with the high byte back in bits 56 to 63, and the
  distance in bytes: a stride of 8 in the arm64e formats and of 4 in the 64-bit ones.\<close>

theorem rebase_entries_decode:
  "fixup_parse_one E c DYLD_CHAINED_PTR_ARM64E (arm64e_rebase_word t h n) off it =
     Ok (8 * ucast n, fixup_rebase off (ucast t OR push_bit 56 (ucast h))) \<and>
   fixup_parse_one E c DYLD_CHAINED_PTR_ARM64E_USERLAND24 (arm64e_rebase_word t h n) off it =
     Ok (8 * ucast n, fixup_rebase off (ucast t OR push_bit 56 (ucast h))) \<and>
   fixup_parse_one E c DYLD_CHAINED_PTR_64_OFFSET (ptr_64_rebase_word t' h' n') off it =
     Ok (4 * ucast n', fixup_rebase off (ucast t' OR push_bit 56 (ucast h')))"
  by (simp add: fixup_parse_one_def fixup_arm64e_parse_one_def fixup_arm64e_userland24_parse_one_def
      fixup_64_parse_one_def arm64e_rebase_fields ptr_64_rebase_fields next_exact next_widen fixup_rebase_def)

end
