(* ===== verification/Bind_Entries.thy ===== *)
theory Bind_Entries
  imports Fixups
begin

text \<open>
  What the entries of a chain that bind a symbol mean (\<open>src/src/fixups.rs\<close>): the words are put together from their
  fields, and the parsers take them apart again. The addend of the arm64e formats is documented as a signed field
  of 19 bits.
\<close>

definition arm64e_bind_word :: "16 word \<Rightarrow> 19 word \<Rightarrow> 11 word \<Rightarrow> u64" where
  "arm64e_bind_word ordinal addend nxt =
     ucast ordinal OR push_bit 32 (ucast addend) OR push_bit 51 (ucast nxt) OR push_bit 62 1"

definition arm64e_bind_24_word :: "24 word \<Rightarrow> 19 word \<Rightarrow> 11 word \<Rightarrow> u64" where
  "arm64e_bind_24_word ordinal addend nxt =
     ucast ordinal OR push_bit 32 (ucast addend) OR push_bit 51 (ucast nxt) OR push_bit 62 1"

text \<open>What an authenticated entry has in place of the addend: the diversity, its address bit and the key.\<close>

definition arm64e_auth_bind_24_word :: "24 word \<Rightarrow> 19 word \<Rightarrow> 11 word \<Rightarrow> u64" where
  "arm64e_auth_bind_24_word ordinal signing nxt =
     ucast ordinal OR push_bit 32 (ucast signing) OR push_bit 51 (ucast nxt) OR push_bit 62 3"

definition ptr_64_bind_word :: "24 word \<Rightarrow> u8 \<Rightarrow> 12 word \<Rightarrow> u64" where
  "ptr_64_bind_word ordinal addend nxt =
     ucast ordinal OR push_bit 24 (ucast addend) OR push_bit 51 (ucast nxt) OR push_bit 63 1"

lemma bit_three: "bit (3 :: u64) n \<longleftrightarrow> n < 2"
  by (cases n; simp add: bit_numeral_rec bit_1_iff; cases "n - 1"; simp add: bit_1_iff)

lemmas bind_word_defs = arm64e_bind_word_def arm64e_bind_24_word_def arm64e_auth_bind_24_word_def ptr_64_bind_word_def

lemma arm64e_bind_fields:
  "dyld_chained_ptr_arm64e_bind_ordinal (arm64e_bind_word k a n) = ucast k"
  "dyld_chained_ptr_arm64e_bind_addend (arm64e_bind_word k a n) = ucast a"
  "dyld_chained_ptr_arm64e_bind_next (arm64e_bind_word k a n) = ucast n"
  "drop_bit 62 (arm64e_bind_word k a n) AND 1 = 1" "drop_bit 63 (arm64e_bind_word k a n) AND 1 = 0"
  unfolding bind_word_defs bind_field_defs and_masks
  by (rule bit_word_eqI; auto simp: bit_simps bit_1_iff dest: bit_imp_le_length)+

lemma arm64e_bind_24_fields:
  "dyld_chained_ptr_arm64e_bind_24_ordinal (arm64e_bind_24_word k a n) = ucast k"
  "dyld_chained_ptr_arm64e_bind_24_addend (arm64e_bind_24_word k a n) = ucast a"
  "dyld_chained_ptr_arm64e_bind_24_next (arm64e_bind_24_word k a n) = ucast n"
  "drop_bit 62 (arm64e_bind_24_word k a n) AND 1 = 1" "drop_bit 63 (arm64e_bind_24_word k a n) AND 1 = 0"
  unfolding bind_word_defs bind_field_defs and_masks
  by (rule bit_word_eqI; auto simp: bit_simps bit_1_iff dest: bit_imp_le_length)+

lemma arm64e_auth_bind_24_fields:
  "dyld_chained_ptr_arm64e_auth_bind_24_ordinal (arm64e_auth_bind_24_word k a n) = ucast k"
  "dyld_chained_ptr_arm64e_auth_bind_24_next (arm64e_auth_bind_24_word k a n) = ucast n"
  "drop_bit 62 (arm64e_auth_bind_24_word k a n) AND 1 = 1" "drop_bit 63 (arm64e_auth_bind_24_word k a n) AND 1 = 1"
  unfolding bind_word_defs bind_field_defs and_masks
  by (rule bit_word_eqI; auto simp: bit_simps bit_1_iff bit_three dest: bit_imp_le_length)+

lemma ptr_64_bind_fields:
  "dyld_chained_ptr_64_bind_ordinal (ptr_64_bind_word k b n) = ucast k"
  "dyld_chained_ptr_64_bind_addend (ptr_64_bind_word k b n) = b"
  "dyld_chained_ptr_64_bind_next (ptr_64_bind_word k b n) = ucast n"
  "drop_bit 63 (ptr_64_bind_word k b n) AND 1 = 1"
  unfolding bind_word_defs bind_field_defs and_masks
  by (rule bit_word_eqI; auto simp: bit_simps bit_1_iff dest: bit_imp_le_length)+

lemma field_widen: "ucast (ucast k :: u16) = (ucast k :: u32)" for k :: "16 word"
  by (rule bit_word_eqI; auto simp: bit_simps dest: bit_imp_le_length)

lemma addend_widen: "scast (ucast a :: i32) = (ucast a :: i64)" for a :: "19 word"
  by (rule bit_word_eqI; auto simp: bit_simps min_def dest: bit_imp_le_length)

text \<open>C10: what a bind entry means. For every ordinal, addend and distance to the next entry that fit their
  fields, the parsers look up the import of that ordinal and return a bind to its library and name, with
  the distance in bytes, a stride of 8 in the arm64e formats and of 4 in the 64-bit ones. The addend comes
  back without its sign: a negative one as a large positive one. An authenticated entry has none.\<close>

theorem bind_entries_decode:
  "fixup_parse_one E c DYLD_CHAINED_PTR_ARM64E (arm64e_bind_word k a n) off it =
     rbind (import_at E c (ucast k) it) (\<lambda>(lib, name). Ok (8 * ucast n, fixup_bind off name (ucast lib) (ucast a) False)) \<and>
   fixup_parse_one E c DYLD_CHAINED_PTR_ARM64E_USERLAND24 (arm64e_bind_24_word j a n) off it =
     rbind (import_at E c (ucast j) it) (\<lambda>(lib, name). Ok (8 * ucast n, fixup_bind off name (ucast lib) (ucast a) False)) \<and>
   fixup_parse_one E c DYLD_CHAINED_PTR_ARM64E_USERLAND24 (arm64e_auth_bind_24_word j signing n) off it =
     rbind (import_at E c (ucast j) it) (\<lambda>(lib, name). Ok (8 * ucast n, fixup_bind off name (ucast lib) 0 True)) \<and>
   fixup_parse_one E c DYLD_CHAINED_PTR_64_OFFSET (ptr_64_bind_word j b n') off it =
     rbind (import_at E c (ucast j) it) (\<lambda>(lib, name). Ok (4 * ucast n', fixup_bind off name (ucast lib) (ucast b) False))"
  by (simp add: fixup_parse_one_def fixup_arm64e_parse_one_def fixup_arm64e_userland24_parse_one_def fixup_64_parse_one_def
      arm64e_bind_fields arm64e_bind_24_fields arm64e_auth_bind_24_fields ptr_64_bind_fields next_exact next_widen
      field_widen addend_widen fixup_bind_def)

end
