(* ===== verification/Loader_Parser.thy ===== *)
theory Loader_Parser
  imports Fixups
begin

text \<open>
  \<open>src/src/loader.rs\<close>, the parsing half: one walk over the load commands that gathers segments,
  symbols, initializers, libraries, fixups, entry point and run path of an image, with the
  classification of symbol table entries and the scan of the sections. The lemmas characterise the
  classification by the flag bits, show that every loop over the image ends, and that what the walk
  collects is what the load commands hold, in file order.
\<close>

unbundle bit_operations_syntax

section \<open>Model\<close>

definition macho_endian_from_magic :: "mach_magic \<Rightarrow> endian" where
  "macho_endian_from_magic magic =
     (if magic = MH_MAGIC \<or> magic = MH_MAGIC_64 then Little else Big)"

datatype rpath = LoaderPath | ExecutablePath | RPath

record parsed_image =
  pi_segments :: "segment fixed_vec"
  pi_fixups :: "fixup list"
  pi_symbols :: "symbol list"
  pi_init_functions :: "usize list"
  pi_libraries :: "(bytes \<times> usize) fixed_vec"
  pi_entry_point :: usize
  pi_has_thread_locals :: bool
  pi_is_dylib :: bool
  pi_rpath :: "rpath option"

definition parse_dylib_command ::
  "env \<Rightarrow> container \<Rightarrow> usize \<Rightarrow> (bytes \<times> usize) fixed_vec \<Rightarrow> (bytes \<times> usize) fixed_vec res" where
  "parse_dylib_command E img offset libraries =
     rbind (ok_or No_Dylib_Command (deserialize_type_at_offset (pread_dylib_command E) img offset)) (\<lambda>d.
     rbind (wadd (overflow_checks E) offset (ucast (ls_offset (dl_name (dc_dylib d))))) (\<lambda>name_at.
     rbind (deserialize_string_at_offset img name_at) (\<lambda>name.
     fv_push (overflow_checks E) (name, ucast (ls_offset (dl_name (dc_dylib d)))) libraries)))"

definition parse_main_command :: "env \<Rightarrow> container \<Rightarrow> usize \<Rightarrow> bool \<Rightarrow> usize res" where
  "parse_main_command E img offset is_dylib =
     (if is_dylib then Err Main_In_Dylib
      else rbind (ok_or No_Entry_Point (deserialize_type_at_offset (pread_entry_point_command E) img offset)) (\<lambda>m.
           Ok (ep_entryoff m)))"

definition parse_rpath :: "env \<Rightarrow> container \<Rightarrow> usize \<Rightarrow> rpath option res" where
  "parse_rpath E img offset =
     rbind (ok_or No_Rpath_Command (deserialize_type_at_offset (pread_rpath_command E) img offset)) (\<lambda>r.
     rbind (wadd (overflow_checks E) offset (ucast (ls_offset (rp_path r)))) (\<lambda>path_at.
     rbind (deserialize_string_at_offset img path_at) (\<lambda>path.
     if path = lit ''@rpath'' then Ok (Some RPath)
     else if path = lit ''@loader_path'' then Ok (Some LoaderPath)
     else if path = lit ''@executable_path'' then Ok (Some ExecutablePath)
     else Err Unknown_Rpath)))"

subsection \<open>Symbols\<close>

definition read_symbol_name :: "env \<Rightarrow> container \<Rightarrow> u32 \<Rightarrow> u32 \<Rightarrow> error \<Rightarrow> fixed_string res" where
  "read_symbol_name E img stroff strx err =
     rbind (wadd (overflow_checks E) stroff strx) (\<lambda>at.
     rbind (deserialize_string_at_offset img (ucast at)) (\<lambda>s.
     rbind (fs_try_from_str (overflow_checks E) SYMBOL_NAME_LEN s) (ok_or err)))"

text \<open>The match on \<open>(is_external, is_private_extern, is_weak_def, is_alt_entry, is_resolver)\<close>, arm by
  arm; \<open>weak_ref\<close> is the guard of the third.\<close>

definition defined_symbol_make ::
  "bool \<Rightarrow> bool \<Rightarrow> bool \<Rightarrow> bool \<Rightarrow> bool \<Rightarrow> bool \<Rightarrow> fixed_string \<Rightarrow> usize \<Rightarrow> u8 \<Rightarrow> bool \<Rightarrow> bool \<Rightarrow> symbol res" where
  "defined_symbol_make ext pext weak alt resolver weak_ref name value sect cold thumb =
     (if \<not> ext \<and> \<not> pext \<and> \<not> weak \<and> \<not> alt then Ok (make_regular_local name value sect cold thumb)
      else if \<not> ext \<and> pext \<and> \<not> weak \<and> \<not> alt then Ok (make_regular_export name value sect cold thumb)
      else if ext \<and> \<not> pext \<and> weak \<and> \<not> alt \<and> \<not> weak_ref then Ok (make_weak_def_export name value sect cold thumb)
      else if ext \<and> \<not> pext \<and> \<not> weak \<and> \<not> alt \<and> \<not> resolver then Ok (make_regular_export name value sect cold thumb)
      else if \<not> ext \<and> \<not> pext \<and> alt then Err AltEntry_TranslationUnit
      else if \<not> ext \<and> pext \<and> weak then Err WeakDef_WasPrivateExtern
      else if \<not> ext \<and> pext \<and> \<not> weak \<and> alt then Err AltEntry_WasLinkageUnit
      else if ext \<and> pext \<and> alt then Err AltEntry_LinkageUnit
      else if ext \<and> pext \<and> weak then Err WeakDef_Hidden
      else if ext \<and> pext \<and> resolver then Err Resolver_LinkageUnit
      else if ext \<and> pext then Err Regular_Hidden
      else if ext \<and> \<not> pext \<and> alt then Err AltEntry_Global
      else if ext \<and> \<not> pext \<and> weak then Err WeakDef_AutoHide
      else if ext \<and> \<not> pext \<and> resolver then Err Resolver_Global
      else Err Unknown_Symbol_Kind)"

definition classify_defined_symbol ::
  "env \<Rightarrow> container \<Rightarrow> u32 \<Rightarrow> nlist_64 \<Rightarrow> symbol list \<Rightarrow> symbol list res" where
  "classify_defined_symbol E img stroff entry symbols =
     (case read_symbol_name E img stroff (n_strx (n_un entry)) No_Symbol_Name of
        Err _ \<Rightarrow> Ok symbols
      | Panic p \<Rightarrow> Panic p
      | Diverge \<Rightarrow> Diverge
      | Ok name \<Rightarrow>
          rbind (defined_symbol_make (n_type entry AND N_EXT \<noteq> 0) (n_type entry AND N_PEXT \<noteq> 0)
              (n_desc entry AND N_WEAK_DEF \<noteq> 0) (n_desc entry AND N_ALT_ENTRY \<noteq> 0)
              (n_desc entry AND N_SYMBOL_RESOLVER \<noteq> 0) (n_desc entry AND N_WEAK_REF \<noteq> 0)
              name (n_value entry) (n_sect entry)
              (n_desc entry AND N_COLD_FUNC \<noteq> 0) (n_desc entry AND N_ARM_THUMB_DEF \<noteq> 0)) (\<lambda>sym.
          Ok (symbols @ [sym])))"

definition classify_undefined_symbol ::
  "env \<Rightarrow> container \<Rightarrow> u32 \<Rightarrow> nlist_64 \<Rightarrow> symbol list \<Rightarrow> symbol list res" where
  "classify_undefined_symbol E img stroff entry symbols =
     (if n_value entry \<noteq> 0 then Panic Unimplemented
      else case read_symbol_name E img stroff (n_strx (n_un entry)) No_Symbol_Name of
        Err _ \<Rightarrow> Ok symbols
      | Panic p \<Rightarrow> Panic p
      | Diverge \<Rightarrow> Diverge
      | Ok name \<Rightarrow>
          Ok (symbols @ [make_undefined name (get_library_ordinal (n_desc entry)) (n_desc entry AND N_WEAK_REF \<noteq> 0)]))"

fun symtab_loop :: "env \<Rightarrow> container \<Rightarrow> u32 \<Rightarrow> nat \<Rightarrow> usize \<Rightarrow> symbol list \<Rightarrow> symbol list res" where
  "symtab_loop E img stroff 0 nlist_offset symbols = Ok symbols"
| "symtab_loop E img stroff (Suc n) nlist_offset symbols =
     rbind (ok_or No_Nlist (deserialize_type_at_offset (pread_nlist_64 E) img nlist_offset)) (\<lambda>entry.
     rbind (wadd (overflow_checks E) nlist_offset (of_nat (size_of nlist_64_layout))) (\<lambda>nlist_offset.
     if n_type entry AND N_STAB \<noteq> 0 then symtab_loop E img stroff n nlist_offset symbols
     else
       rbind (if n_type entry AND N_TYPE = N_SECT then classify_defined_symbol E img stroff entry symbols
              else if n_type entry AND N_TYPE = N_UNDF then classify_undefined_symbol E img stroff entry symbols
              else Ok symbols)
         (symtab_loop E img stroff n nlist_offset)))"

definition parse_symtab :: "env \<Rightarrow> container \<Rightarrow> usize \<Rightarrow> symbol list \<Rightarrow> symbol list res" where
  "parse_symtab E img offset symbols =
     rbind (ok_or No_Symtab_Command (deserialize_type_at_offset (pread_symtab_command E) img offset)) (\<lambda>s.
     symtab_loop E img (st_stroff s) (unat (st_nsyms s)) (ucast (st_symoff s)) symbols)"

subsection \<open>Segments and sections\<close>

text \<open>\<open>while cursor < end\<close> on 32-bit cursors: without overflow checks the cursor may wrap around, so
  that the loop need not end.\<close>

partial_function (option) init_funcs_loop ::
  "env \<Rightarrow> container \<Rightarrow> u32 \<Rightarrow> u32 \<Rightarrow> usize list \<Rightarrow> usize list res option" where
  "init_funcs_loop E img cursor e init_functions =
     (if \<not> cursor < e then Some (Ok init_functions)
      else case deserialize_type_at_offset (pread_u32 E) img (ucast cursor) of
        None \<Rightarrow> Some (Err No_Init_Func_Offsets)
      | Some func \<Rightarrow>
          (case wadd (overflow_checks E) cursor 4 of
             Ok cursor \<Rightarrow> init_funcs_loop E img cursor e (init_functions @ [ucast func])
           | Err x \<Rightarrow> Some (Err x) | Panic p \<Rightarrow> Some (Panic p) | Diverge \<Rightarrow> None))"

definition read_init_func_offsets :: "env \<Rightarrow> container \<Rightarrow> u32 \<Rightarrow> u32 \<Rightarrow> usize list \<Rightarrow> usize list res" where
  "read_init_func_offsets E img cursor sz init_functions =
     rbind (wadd (overflow_checks E) cursor sz) (\<lambda>e.
     case init_funcs_loop E img cursor e init_functions of None \<Rightarrow> Diverge | Some r \<Rightarrow> r)"

definition scan_section ::
  "env \<Rightarrow> container \<Rightarrow> usize \<Rightarrow> usize list \<times> bool \<Rightarrow> (usize list \<times> bool) res" where
  "scan_section E img section_off acc =
     (case acc of (init_functions, has_thread_locals) \<Rightarrow>
      rbind (ok_or No_Section (deserialize_type_at_offset (pread_section_64 E) img section_off)) (\<lambda>s.
      if se_flags s AND SECTION_TYPE = S_INIT_FUNC_OFFSETS then
        rbind (read_init_func_offsets E img (se_offset s) (ucast (se_size s)) init_functions) (\<lambda>fs.
        Ok (fs, has_thread_locals))
      else if se_flags s AND SECTION_TYPE = S_THREAD_LOCAL_VARIABLES then Ok (init_functions, True)
      else Ok (init_functions, has_thread_locals)))"

fun sections_loop ::
  "env \<Rightarrow> container \<Rightarrow> usize \<Rightarrow> nat list \<Rightarrow> usize list \<times> bool \<Rightarrow> (usize list \<times> bool) res" where
  "sections_loop E img sections_off [] acc = Ok acc"
| "sections_loop E img sections_off (i # si) acc =
     rbind (wmul (overflow_checks E) (of_nat i) (of_nat (size_of section_64_layout))) (\<lambda>d.
     rbind (wadd (overflow_checks E) sections_off d) (\<lambda>section_off.
     rbind (scan_section E img section_off acc) (sections_loop E img sections_off si)))"

definition parse_segment :: "env \<Rightarrow> container \<Rightarrow> usize \<Rightarrow> parsed_image \<Rightarrow> parsed_image res" where
  "parse_segment E img offset p =
     rbind (ok_or No_Segment_Command (deserialize_type_at_offset (pread_segment_command_64 E) img offset)) (\<lambda>sg.
     rbind (wadd (overflow_checks E) offset (of_nat (size_of segment_command_64_layout))) (\<lambda>sections_off.
     rbind (if starts_with (sg_segname sg) SEG_TEXT \<or> starts_with (sg_segname sg) SEG_DATA
            then sections_loop E img sections_off [0..<unat (sg_nsects sg)] (pi_init_functions p, pi_has_thread_locals p)
            else Ok (pi_init_functions p, pi_has_thread_locals p)) (\<lambda>(fs, tl).
     rbind (fv_push (overflow_checks E)
              \<lparr>sm_file_offset = sg_fileoff sg, sm_vm_addr = sg_vmaddr sg, sm_vm_size = sg_vmsize sg,
               sm_prot = sg_initprot sg\<rparr> (pi_segments p)) (\<lambda>segs.
     Ok (p\<lparr>pi_segments := segs, pi_init_functions := fs, pi_has_thread_locals := tl\<rparr>)))))"

subsection \<open>The walk\<close>

definition parsed_image_empty :: parsed_image where
  "parsed_image_empty = \<lparr>pi_segments = fv_new_array 64, pi_fixups = [], pi_symbols = [], pi_init_functions = [],
     pi_libraries = fv_new_array 64, pi_entry_point = 0, pi_has_thread_locals = False, pi_is_dylib = False,
     pi_rpath = None\<rparr>"

definition parse_command ::
  "env \<Rightarrow> container \<Rightarrow> load_command_variants \<Rightarrow> usize \<Rightarrow> parsed_image \<Rightarrow> parsed_image res" where
  "parse_command E img cmd offset p =
     (if cmd = LC_LOAD_DYLIB \<or> cmd = LC_LOAD_WEAK_DYLIB \<or> cmd = LC_LAZY_LOAD_DYLIB then
        rbind (parse_dylib_command E img offset (pi_libraries p)) (\<lambda>libs. Ok (p\<lparr>pi_libraries := libs\<rparr>))
      else if cmd = LC_MAIN then
        rbind (parse_main_command E img offset (pi_is_dylib p)) (\<lambda>e. Ok (p\<lparr>pi_entry_point := e\<rparr>))
      else if cmd = LC_SYMTAB then
        rbind (parse_symtab E img offset (pi_symbols p)) (\<lambda>ss. Ok (p\<lparr>pi_symbols := ss\<rparr>))
      else if cmd = LC_SEGMENT_64 then parse_segment E img offset p
      else if cmd = LC_DYLD_CHAINED_FIXUPS then
        rbind (chained_fixups_parse_all E img) (\<lambda>fs. Ok (p\<lparr>pi_fixups := fs\<rparr>))
      else if cmd = LC_RPATH then
        rbind (parse_rpath E img offset) (\<lambda>r. Ok (p\<lparr>pi_rpath := r\<rparr>))
      else Ok p)"

fun commands_loop :: "env \<Rightarrow> container \<Rightarrow> nat \<Rightarrow> usize \<Rightarrow> parsed_image \<Rightarrow> parsed_image res" where
  "commands_loop E img 0 offset p = Ok p"
| "commands_loop E img (Suc n) offset p =
     rbind (ok_or No_Load_Command (deserialize_type_at_offset (pread_load_command E) img offset)) (\<lambda>lc.
     rbind (parse_command E img (lc_cmd lc) offset p) (\<lambda>p.
     rbind (wadd (overflow_checks E) offset (ucast (lc_cmdsize lc))) (\<lambda>offset.
     commands_loop E img n offset p)))"

definition macho_parser :: "env \<Rightarrow> container \<Rightarrow> parsed_image res" where
  "macho_parser E img =
     rbind (ok_or No_Arm64_Header (deserialize_type_at_offset (pread_mach_header_64 E) img 0)) (\<lambda>h.
     rbind (if mh_filetype h = MH_EXECUTE then Ok False
            else if mh_filetype h = MH_DYLIB then Ok True
            else Err Bad_Filetype) (\<lambda>is_dylib.
     commands_loop E img (unat (mh_ncmds h)) (of_nat (size_of mach_header_64_layout))
       (parsed_image_empty\<lparr>pi_is_dylib := is_dylib\<rparr>)))"

section \<open>Libraries and their paths\<close>

fun dependencies_loop ::
  "bool \<Rightarrow> shared_cache \<Rightarrow> (bytes \<times> usize) list \<Rightarrow> (bytes \<times> bool) fixed_vec \<Rightarrow> (bytes \<times> bool) fixed_vec res" where
  "dependencies_loop oc cache [] deps = Ok deps"
| "dependencies_loop oc cache ((lib_name, _) # libs) deps =
     (if fv_length deps = 32 then Err Too_Many_Dylibs
      else rbind (fv_push oc (lib_name, is_library_cached cache lib_name) deps) (dependencies_loop oc cache libs))"

definition dependencies_collect ::
  "bool \<Rightarrow> parsed_image \<Rightarrow> shared_cache \<Rightarrow> (bytes \<times> bool) fixed_vec res" where
  "dependencies_collect oc p cache =
     rbind (fv_deref (pi_libraries p)) (\<lambda>libs. dependencies_loop oc cache libs (fv_new_array 32))"

definition strip_prefix :: "bytes \<Rightarrow> bytes \<Rightarrow> bytes option" where
  "strip_prefix s pre = (if starts_with s pre then Some (drop (length pre) s) else None)"

definition user_dylib_disk_path_resolve :: "bytes \<Rightarrow> rpath option \<Rightarrow> bytes \<Rightarrow> bytes res" where
  "user_dylib_disk_path_resolve install_name rp exec_dir =
     rbind (case strip_prefix install_name (lit ''@rpath/'') of
         Some rest \<Rightarrow>
           (case rp of
              Some LoaderPath \<Rightarrow> Ok (exec_dir @ lit ''/'' @ rest)
            | Some ExecutablePath \<Rightarrow> Ok (exec_dir @ lit ''/'' @ rest)
            | Some RPath \<Rightarrow> Panic Unimplemented
            | None \<Rightarrow> Ok rest)
       | None \<Rightarrow>
           (case strip_prefix install_name (lit ''@loader_path/'') of
              Some rest \<Rightarrow> Ok (exec_dir @ lit ''/'' @ rest)
            | None \<Rightarrow>
                (case strip_prefix install_name (lit ''@executable_path/'') of
                   Some rest \<Rightarrow> Ok (exec_dir @ lit ''/'' @ rest)
                 | None \<Rightarrow> Ok install_name)))
       (\<lambda>resolved. Ok (resolved @ [0]))"

section \<open>The walk as a fold\<close>

fun parse_commands :: "env \<Rightarrow> container \<Rightarrow> (load_command \<times> usize) list \<Rightarrow> parsed_image \<Rightarrow> parsed_image res" where
  "parse_commands E img [] p = Ok p"
| "parse_commands E img ((lc, off) # cs) p = rbind (parse_command E img (lc_cmd lc) off p) (parse_commands E img cs)"

lemma commands_loop_scan:
  "commands_loop E img n off p =
     rbind (parse_commands E img (fst (lc_scan E img n off)) p) (\<lambda>p.
       case snd (lc_scan E img n off) of
         Ok _ \<Rightarrow> Ok p | Err _ \<Rightarrow> Err No_Load_Command | Panic q \<Rightarrow> Panic q | Diverge \<Rightarrow> Diverge)"
proof (induction n arbitrary: off p)
  case 0
  then show ?case by simp
next
  case (Suc n)
  show ?case
  proof (cases "deserialize_type_at_offset (pread_load_command E) img off")
    case None
    then show ?thesis by simp
  next
    case (Some lc)
    let ?w = "wadd (overflow_checks E) off (ucast (lc_cmdsize lc))"
    have "?w = Panic Arith_Overflow \<or> (\<exists>off'. ?w = Ok off')" by (simp add: wadd_def)
    with Some show ?thesis
      by (elim disjE exE) (auto simp: Suc.IH rbind_assoc intro!: rbind_cong)
  qed
qed

lemma lc_scan_complete: "snd (lc_scan E c n off) = Ok u \<Longrightarrow> length (fst (lc_scan E c n off)) = n"
  by (induction n arbitrary: off) (auto split: option.split_asm res.split_asm)

section \<open>What the walk collects\<close>

definition names_library :: "load_command \<times> usize \<Rightarrow> bool" where
  "names_library c \<longleftrightarrow> lc_cmd (fst c) \<in> {LC_LOAD_DYLIB, LC_LOAD_WEAK_DYLIB, LC_LAZY_LOAD_DYLIB}"

definition is_segment :: "load_command \<times> usize \<Rightarrow> bool" where
  "is_segment c \<longleftrightarrow> lc_cmd (fst c) = LC_SEGMENT_64"

definition is_main :: "load_command \<times> usize \<Rightarrow> bool" where
  "is_main c \<longleftrightarrow> lc_cmd (fst c) = LC_MAIN"

text \<open>The library named by the command at an offset: the NUL-terminated string its name offset points
  to, relative to the command.\<close>

definition library_at :: "env \<Rightarrow> container \<Rightarrow> usize \<Rightarrow> bytes \<times> usize \<Rightarrow> bool" where
  "library_at E img off e \<longleftrightarrow> (\<exists>d. deserialize_type_at_offset (pread_dylib_command E) img off = Some d \<and>
     snd e = ucast (ls_offset (dl_name (dc_dylib d))) \<and>
     deserialize_string_at_offset img (off + snd e) = Ok (fst e))"

definition segment_at :: "env \<Rightarrow> container \<Rightarrow> usize \<Rightarrow> segment \<Rightarrow> bool" where
  "segment_at E img off s \<longleftrightarrow> (\<exists>sg. deserialize_type_at_offset (pread_segment_command_64 E) img off = Some sg \<and>
     s = \<lparr>sm_file_offset = sg_fileoff sg, sm_vm_addr = sg_vmaddr sg, sm_vm_size = sg_vmsize sg,
          sm_prot = sg_initprot sg\<rparr>)"

definition tables_ok :: "parsed_image \<Rightarrow> bool" where
  "tables_ok p \<longleftrightarrow> fv_inv (pi_libraries p) \<and> fv_cap (pi_libraries p) = 64 \<and>
     fv_inv (pi_segments p) \<and> fv_cap (pi_segments p) = 64"

lemma fv_push_Ok:
  assumes "fv_inv v" "fv_push oc x v = Ok v'"
  shows "fv_inv v' \<and> fv_list v' = fv_list v @ [x] \<and> fv_cap v' = fv_cap v"
  using fv_push_eq [OF assms(1), of oc x] assms(2) by (auto split: if_split_asm)

lemma parse_command_step:
  assumes "parse_command E img (lc_cmd lc) off p = Ok p'" "tables_ok p"
  shows "tables_ok p' \<and> pi_is_dylib p' = pi_is_dylib p \<and>
    (if names_library (lc, off) then \<exists>e. library_at E img off e \<and> fv_list (pi_libraries p') = fv_list (pi_libraries p) @ [e]
     else fv_list (pi_libraries p') = fv_list (pi_libraries p)) \<and>
    (if is_segment (lc, off) then \<exists>s. segment_at E img off s \<and> fv_list (pi_segments p') = fv_list (pi_segments p) @ [s]
     else fv_list (pi_segments p') = fv_list (pi_segments p)) \<and>
    (is_main (lc, off) \<longrightarrow> \<not> pi_is_dylib p)"
proof -
  consider (lib) "names_library (lc, off)" | (seg) "is_segment (lc, off)"
    | (other) "\<not> names_library (lc, off)" "\<not> is_segment (lc, off)" by blast
  then show ?thesis
  proof cases
    case lib
    with assms(1) have "rbind (parse_dylib_command E img off (pi_libraries p))
        (\<lambda>libs. Ok (p\<lparr>pi_libraries := libs\<rparr>)) = Ok p'"
      by (auto simp: parse_command_def names_library_def)
    then obtain libs where libs: "parse_dylib_command E img off (pi_libraries p) = Ok libs"
      and p': "p' = p\<lparr>pi_libraries := libs\<rparr>" by (auto simp: rbind_Ok_iff)
    from libs obtain e where e: "library_at E img off e"
      and push: "fv_push (overflow_checks E) e (pi_libraries p) = Ok libs"
      by (auto simp: parse_dylib_command_def library_at_def res_simps)
    have "fv_inv (pi_libraries p)" using assms(2) by (simp add: tables_ok_def)
    from fv_push_Ok [OF this push] e assms(2) lib p' show ?thesis
      by (cases e) (auto simp: tables_ok_def names_library_def is_segment_def is_main_def)
  next
    case seg
    with assms(1) have "parse_segment E img off p = Ok p'"
      by (auto simp: parse_command_def is_segment_def)
    then obtain s segs fs tl where sg: "segment_at E img off s"
      and push: "fv_push (overflow_checks E) s (pi_segments p) = Ok segs"
      and p': "p' = p\<lparr>pi_segments := segs, pi_init_functions := fs, pi_has_thread_locals := tl\<rparr>"
      by (auto simp: parse_segment_def segment_at_def rbind_Ok_iff ok_or_Ok_iff split: prod.split_asm)
    have "fv_inv (pi_segments p)" using assms(2) by (simp add: tables_ok_def)
    from fv_push_Ok [OF this push] sg assms(2) seg p' show ?thesis
      by (auto simp: tables_ok_def names_library_def is_segment_def is_main_def)
  next
    case other
    with assms show ?thesis
      by (auto simp: parse_command_def names_library_def is_segment_def is_main_def rbind_Ok_iff tables_ok_def
          parse_main_command_def split: if_split_asm)
  qed
qed

lemma parse_commands_collect:
  assumes "parse_commands E img cs p = Ok p'" "tables_ok p"
  shows "tables_ok p' \<and> pi_is_dylib p' = pi_is_dylib p \<and>
    (\<exists>libs. fv_list (pi_libraries p') = fv_list (pi_libraries p) @ libs \<and>
       list_all2 (\<lambda>c. library_at E img (snd c)) (filter names_library cs) libs) \<and>
    (\<exists>segs. fv_list (pi_segments p') = fv_list (pi_segments p) @ segs \<and>
       list_all2 (\<lambda>c. segment_at E img (snd c)) (filter is_segment cs) segs) \<and>
    (pi_is_dylib p \<longrightarrow> \<not> (\<exists>c \<in> set cs. is_main c))"
  using assms
proof (induction cs arbitrary: p)
  case Nil
  then show ?case by simp
next
  case (Cons c cs)
  obtain lc off where c: "c = (lc, off)" by fastforce
  from Cons.prems(1) obtain p1 where p1: "parse_command E img (lc_cmd lc) off p = Ok p1"
    and rest: "parse_commands E img cs p1 = Ok p'" by (auto simp: c rbind_Ok_iff)
  note step = parse_command_step [OF p1 Cons.prems(2)]
  from Cons.IH [OF rest] step obtain libs segs where
    ih: "tables_ok p'" "pi_is_dylib p' = pi_is_dylib p1" "fv_list (pi_libraries p') = fv_list (pi_libraries p1) @ libs"
    "list_all2 (\<lambda>c. library_at E img (snd c)) (filter names_library cs) libs"
    "fv_list (pi_segments p') = fv_list (pi_segments p1) @ segs"
    "list_all2 (\<lambda>c. segment_at E img (snd c)) (filter is_segment cs) segs"
    "pi_is_dylib p1 \<longrightarrow> \<not> (\<exists>c \<in> set cs. is_main c)" by blast
  show ?case
    using step ih by (auto simp: c split: if_split_asm)
qed

lemma tables_ok_empty: "tables_ok (parsed_image_empty\<lparr>pi_is_dylib := d\<rparr>)"
  "fv_list (pi_libraries (parsed_image_empty\<lparr>pi_is_dylib := d\<rparr>)) = []"
  "fv_list (pi_segments (parsed_image_empty\<lparr>pi_is_dylib := d\<rparr>)) = []"
  by (simp_all add: tables_ok_def parsed_image_empty_def fv_new_array_inv)

lemma macho_parser_commands:
  assumes "macho_parser E img = Ok p"
  shows "\<exists>h d cs. deserialize_type_at_offset (pread_mach_header_64 E) img 0 = Some h \<and>
    mh_filetype h = (if d then MH_DYLIB else MH_EXECUTE) \<and>
    lc_scan E img (unat (mh_ncmds h)) 32 = (cs, Ok ()) \<and>
    parse_commands E img cs (parsed_image_empty\<lparr>pi_is_dylib := d\<rparr>) = Ok p"
proof -
  from assms obtain h d where h: "deserialize_type_at_offset (pread_mach_header_64 E) img 0 = Some h"
    and d: "mh_filetype h = (if d then MH_DYLIB else MH_EXECUTE)"
    and loop: "commands_loop E img (unat (mh_ncmds h)) 32 (parsed_image_empty\<lparr>pi_is_dylib := d\<rparr>) = Ok p"
    by (auto simp: macho_parser_def res_simps size_of_layouts split: if_split_asm)
  obtain cs fin where scan: "lc_scan E img (unat (mh_ncmds h)) 32 = (cs, fin)" by fastforce
  from loop have "parse_commands E img cs (parsed_image_empty\<lparr>pi_is_dylib := d\<rparr>) = Ok p" "fin = Ok ()"
    by (cases fin; auto simp: commands_loop_scan scan rbind_Ok_iff)+
  with h d scan show ?thesis by blast
qed

lemma macho_parser_tables: "macho_parser E img = Ok p \<Longrightarrow> tables_ok p"
  using macho_parser_commands parse_commands_collect [OF _ tables_ok_empty(1)] by blast

text \<open>C27: what the loader learns from an image. When the parse succeeds, the file type is an executable
  or a dynamic library and recorded as such, every load command was read, the libraries are exactly
  those of the LOAD, WEAK and LAZY commands in file order under the names the commands hold, the
  segments are those of the 64-bit segment commands in file order, there are at most 64 of each,
  and a library has no entry point command.\<close>

theorem macho_parser_collects:
  assumes "macho_parser E img = Ok p"
  shows "\<exists>h cs. deserialize_type_at_offset (pread_mach_header_64 E) img 0 = Some h \<and>
    lc_scan E img (unat (mh_ncmds h)) 32 = (cs, Ok ()) \<and> length cs = unat (mh_ncmds h) \<and>
    mh_filetype h = (if pi_is_dylib p then MH_DYLIB else MH_EXECUTE) \<and>
    list_all2 (\<lambda>c. library_at E img (snd c)) (filter names_library cs) (fv_list (pi_libraries p)) \<and>
    list_all2 (\<lambda>c. segment_at E img (snd c)) (filter is_segment cs) (fv_list (pi_segments p)) \<and>
    length (fv_list (pi_libraries p)) \<le> 64 \<and> length (fv_list (pi_segments p)) \<le> 64 \<and>
    (pi_is_dylib p \<longrightarrow> filter is_main cs = [])"
proof -
  from macho_parser_commands [OF assms] obtain h d cs where
    h: "deserialize_type_at_offset (pread_mach_header_64 E) img 0 = Some h"
    and d: "mh_filetype h = (if d then MH_DYLIB else MH_EXECUTE)"
    and scan: "lc_scan E img (unat (mh_ncmds h)) 32 = (cs, Ok ())"
    and cmds: "parse_commands E img cs (parsed_image_empty\<lparr>pi_is_dylib := d\<rparr>) = Ok p" by blast
  note collect = parse_commands_collect [OF cmds tables_ok_empty(1)]
  then have "length (fv_list (pi_libraries p)) \<le> 64" "length (fv_list (pi_segments p)) \<le> 64"
    using fv_list_le_cap by (fastforce simp: tables_ok_def)+
  moreover have "length cs = unat (mh_ncmds h)"
    using lc_scan_complete [of E img "unat (mh_ncmds h)" 32 "()"] scan by simp
  ultimately show ?thesis
    using collect h d scan tables_ok_empty by (fastforce simp: filter_empty_conv parsed_image_empty_def)
qed

text \<open>An executable with one load command, which names the library \<open>/a\<close>.\<close>

definition sample_program :: container where
  "sample_program = with_bytes [0xCF,0xFA,0xED,0xFE, 0x0C,0,0,1, 0,0,0,0, 2,0,0,0, 1,0,0,0, 32,0,0,0, 0,0,0,0, 0,0,0,0,
     0x0C,0,0,0, 32,0,0,0, 24,0,0,0, 0,0,0,0, 0,0,0,0, 0,0,0,0, 0x2F,0x61,0,0, 0,0,0,0] Little"

lemma sample_program_reads:
  "deserialize_type_at_offset (pread_mach_header_64 (scroll_ref oc)) sample_program 0 =
     Some \<lparr>mh_magic = MH_MAGIC_64, mh_cputype = 0x100000C, mh_cpusubtype = 0, mh_filetype = MH_EXECUTE,
       mh_ncmds = 1, mh_sizeofcmds = 32, mh_flags = 0, mh_reserved = 0\<rparr>"
  "deserialize_type_at_offset (pread_load_command (scroll_ref oc)) sample_program 32 =
     Some \<lparr>lc_cmd = LC_LOAD_DYLIB, lc_cmdsize = 32\<rparr>"
  "deserialize_type_at_offset (pread_dylib_command (scroll_ref oc)) sample_program 32 =
     Some \<lparr>dc_cmd = LC_LOAD_DYLIB, dc_cmdsize = 32, dc_dylib = \<lparr>dl_name = \<lparr>ls_offset = 24\<rparr>, dl_timestamp = 0,
       dl_current_version = 0, dl_compatibility_version = 0\<rparr>\<rparr>"
  "deserialize_string_at_offset sample_program 56 = Ok [0x2F, 0x61]"
  by (simp_all add: deserialize_type_at_offset_def with_bytes_def sample_program_def scroll_ref_def
      p_mach_header_64_def p_load_command_def p_dylib_command_def p_dylib_def p_lc_str_def parser_simps
      deserialize_string_at_offset_def utf8_valid_ascii)

lemma sample_program_parse:
  "\<exists>p. macho_parser (scroll_ref oc) sample_program = Ok p \<and> fv_list (pi_libraries p) = [([0x2F, 0x61], 24)]"
proof -
  obtain libs :: "(bytes \<times> usize) fixed_vec" where libs: "fv_push oc ([0x2F, 0x61], 24) (fv_new_array 64) = Ok libs"
    "fv_list libs = [([0x2F, 0x61], 24)]"
    using fv_push_eq [OF fv_new_array_inv, of 64 oc "([0x2F, 0x61], 24)"] by auto
  have oc: "overflow_checks (scroll_ref oc) = oc" by (simp add: scroll_ref_def)
  show ?thesis
    using libs
    by (simp add: macho_parser_def sample_program_reads parse_command_def parse_dylib_command_def
        parsed_image_empty_def oc wadd_def)
qed

theorem macho_parser_collects_witness:
  "\<exists>p (h :: mach_header_64) cs. macho_parser (scroll_ref True) sample_program = Ok p \<and>
     lc_scan (scroll_ref True) sample_program (unat (mh_ncmds h)) 32 = (cs, Ok ()) \<and>
     list_all2 (\<lambda>c. library_at (scroll_ref True) sample_program (snd c)) (filter names_library cs) [([0x2F, 0x61], 24)]"
proof -
  obtain p where p: "macho_parser (scroll_ref True) sample_program = Ok p"
    "fv_list (pi_libraries p) = [([0x2F, 0x61], 24)]"
    using sample_program_parse by blast
  from macho_parser_collects [OF p(1)] obtain h :: mach_header_64 and cs where
    "lc_scan (scroll_ref True) sample_program (unat (mh_ncmds h)) 32 = (cs, Ok ())"
    "list_all2 (\<lambda>c. library_at (scroll_ref True) sample_program (snd c)) (filter names_library cs) (fv_list (pi_libraries p))"
    by blast
  with p show ?thesis by auto
qed

section \<open>Termination\<close>

context scroll_bounds
begin

lemma init_funcs_loop_total:
  assumes "length (c_data img) < 2 ^ 32"
  shows "\<exists>r. init_funcs_loop E img cursor e fs = Some r \<and> r \<noteq> Diverge \<and>
    (\<forall>gs. r = Ok gs \<longrightarrow> (\<exists>hs. gs = fs @ hs \<and>
       length hs = (unat e - unat cursor + 3) div 4 \<and>
       (\<forall>i < length hs. \<exists>v. deserialize_type_at_offset (pread_u32 E) img (of_nat (unat cursor + 4 * i)) = Some v \<and>
          hs ! i = ucast v)))"
proof (induction "length (c_data img) - unat cursor" arbitrary: cursor fs rule: less_induct)
  case less
  let ?read = "deserialize_type_at_offset (pread_u32 E) img (ucast cursor)"
  show ?case
  proof (cases "cursor < e")
    case False
    then have "unat e - unat cursor = 0" by (simp add: word_less_nat_alt)
    with False show ?thesis by (subst init_funcs_loop.simps) simp
  next
    case True
    then have lt: "unat cursor < unat e" by (simp add: word_less_nat_alt)
    show ?thesis
    proof (cases ?read)
      case None
      with True show ?thesis by (subst init_funcs_loop.simps) simp
    next
      case (Some v)
      then have inb: "unat cursor + 4 \<le> length (c_data img)"
        using u32_in_bounds by (fastforce simp: deserialize_type_at_offset_def)
      with assms have fits: "unat cursor + unat (4 :: u32) < 2 ^ LENGTH(32)" by simp
      then have step: "unat (cursor + 4) = unat cursor + 4" by (simp only: unat_add_fits) simp
      have loop: "init_funcs_loop E img cursor e fs = init_funcs_loop E img (cursor + 4) e (fs @ [ucast v])"
        using True Some by (subst init_funcs_loop.simps) (simp add: wadd_fits [OF fits])
      have "length (c_data img) - unat (cursor + 4) < length (c_data img) - unat cursor"
        using step inb by linarith
      from less.hyps [OF this, of "fs @ [ucast v]"] obtain r where r:
        "init_funcs_loop E img (cursor + 4) e (fs @ [ucast v]) = Some r" "r \<noteq> Diverge"
        "\<And>gs. r = Ok gs \<Longrightarrow> \<exists>hs. gs = (fs @ [ucast v]) @ hs \<and>
           length hs = (unat e - unat (cursor + 4) + 3) div 4 \<and>
           (\<forall>i < length hs. \<exists>v. deserialize_type_at_offset (pread_u32 E) img (of_nat (unat (cursor + 4) + 4 * i)) = Some v \<and>
              hs ! i = ucast v)"
        by blast
      have "\<exists>hs. gs = fs @ hs \<and> length hs = (unat e - unat cursor + 3) div 4 \<and>
         (\<forall>i < length hs. \<exists>v. deserialize_type_at_offset (pread_u32 E) img (of_nat (unat cursor + 4 * i)) = Some v \<and>
            hs ! i = ucast v)" if gs: "r = Ok gs" for gs
      proof -
        from r(3) [OF gs] obtain hs where hs: "gs = fs @ ucast v # hs"
          "length hs = (unat e - unat (cursor + 4) + 3) div 4"
          "\<And>i. i < length hs \<Longrightarrow> \<exists>v. deserialize_type_at_offset (pread_u32 E) img (of_nat (unat cursor + 4 + 4 * i)) = Some v \<and>
             hs ! i = ucast v" by (auto simp: step)
        have len: "length (ucast v # hs :: usize list) = (unat e - unat cursor + 3) div 4"
        proof -
          have "Suc ((d - 4 + 3) div 4) = (d + 3) div 4" if "0 < d" for d :: nat
            using that by presburger
          from this [of "unat e - unat cursor"] hs(2) step lt show ?thesis
            by (simp add: diff_diff_add)
        qed
        have "\<exists>w. deserialize_type_at_offset (pread_u32 E) img (of_nat (unat cursor + 4 * i)) = Some w \<and>
            (ucast v # hs) ! i = ucast w" if "i < length (ucast v # hs :: usize list)" for i
        proof (cases i)
          case 0
          with Some show ?thesis by (simp add: of_nat_unat)
        next
          case (Suc j)
          with that hs(3) [of j] show ?thesis by (simp add: algebra_simps)
        qed
        with hs(1) len show ?thesis by (intro exI [of _ "ucast v # hs"]) blast
      qed
      with r loop show ?thesis by auto
    qed
  qed
qed

lemma read_init_total: "length (c_data img) < 2 ^ 32 \<Longrightarrow> read_init_func_offsets E img cursor sz fs \<noteq> Diverge"
  using init_funcs_loop_total [of img cursor "cursor + sz" fs]
  by (auto simp: read_init_func_offsets_def res_simps)

lemma sections_loop_total:
  "length (c_data img) < 2 ^ 32 \<Longrightarrow> sections_loop E img off js acc \<noteq> Diverge"
  by (induction js arbitrary: acc)
    (auto simp: res_simps scan_section_def read_init_total split: if_split_asm)

lemma segment_total: "length (c_data img) < 2 ^ 32 \<Longrightarrow> parse_segment E img off p \<noteq> Diverge"
  by (auto simp: parse_segment_def rbind_Diverge_iff sections_loop_total fv_push_def fv_try_push_def fv_is_full_def
      fv_remaining_capacity_def cell_write_def split: if_split_asm sum.split_asm)

lemma symtab_total: "symtab_loop E img stroff n off ss \<noteq> Diverge"
proof -
  have name: "read_symbol_name E img stroff k e \<noteq> Diverge" for k e
    by (auto simp: read_symbol_name_def res_simps string_building_returns)
  have "classify_defined_symbol E img stroff x ss \<noteq> Diverge" "classify_undefined_symbol E img stroff x ss \<noteq> Diverge" for x ss
    using name by (auto simp: classify_defined_symbol_def classify_undefined_symbol_def defined_symbol_make_def
        rbind_Diverge_iff split: res.split_asm if_split_asm)
  then show ?thesis
    by (induction n arbitrary: off ss) (auto simp: rbind_Diverge_iff split: if_split_asm)
qed

lemma parse_command_total:
  assumes "length (c_data img) < 2 ^ 32"
  shows "parse_command E img cmd off p \<noteq> Diverge"
proof -
  have "parse_dylib_command E img off libs \<noteq> Diverge" for libs
    by (auto simp: parse_dylib_command_def rbind_Diverge_iff string_building_returns fv_push_def fv_try_push_def
        fv_is_full_def fv_remaining_capacity_def cell_write_def split: if_split_asm sum.split_asm)
  moreover have "parse_rpath E img off \<noteq> Diverge"
    by (auto simp: parse_rpath_def rbind_Diverge_iff string_building_returns)
  moreover have "chained_fixups_parse_all E img \<noteq> Diverge"
    using parse_all_bounds [of img] assms by simp
  ultimately show ?thesis
    by (auto simp: parse_command_def rbind_Diverge_iff parse_main_command_def parse_symtab_def symtab_total
        segment_total [OF assms])
qed

lemma macho_parser_total:
  assumes "length (c_data img) < 2 ^ 32"
  shows "macho_parser E img \<noteq> Diverge"
proof -
  have "commands_loop E img n off p \<noteq> Diverge" for n off p
    by (induction n arbitrary: off p) (auto simp: rbind_Diverge_iff parse_command_total [OF assms])
  then show ?thesis by (auto simp: macho_parser_def rbind_Diverge_iff)
qed

end

text \<open>C30: the parse ends. On an image below 4 GiB whose reads respect bounds the loader's parser always
  returns, although the scan of initializer offsets runs on a 32-bit cursor that wraps in builds
  without overflow checks.\<close>

theorem macho_parser_returns:
  assumes "scroll_bounds E" "length (c_data img) < 2 ^ 32"
  shows "macho_parser E img \<noteq> Diverge"
  by (rule scroll_bounds.macho_parser_total [OF assms])

theorem macho_parser_returns_witness:
  "length (c_data sample_program) < 2 ^ 32 \<and> macho_parser (scroll_ref False) sample_program \<noteq> Diverge"
proof -
  have "length (c_data sample_program) < 2 ^ 32" by (simp add: sample_program_def with_bytes_def)
  with macho_parser_returns [OF scroll_ref.scroll_bounds_axioms this] show ?thesis by blast
qed

text \<open>The initializers of a section. When the scan succeeds it has appended one offset for every
  four bytes of the section, a partial last word included, each read from its place in the image, in
  order; it does so whatever the build, and always ends.\<close>

theorem init_offsets_read:
  assumes "scroll_bounds E" "length (c_data img) < 2 ^ 32" "unat cursor + unat sz < 2 ^ 32"
  shows "case read_init_func_offsets E img cursor sz fs of
      Ok gs \<Rightarrow> \<exists>hs. gs = fs @ hs \<and> length hs = (unat sz + 3) div 4 \<and>
        (\<forall>i < length hs. \<exists>v. deserialize_type_at_offset (pread_u32 E) img (of_nat (unat cursor + 4 * i)) = Some v \<and>
           hs ! i = ucast v)
    | Err e \<Rightarrow> True | Panic p \<Rightarrow> True | Diverge \<Rightarrow> False"
proof -
  have e: "unat (cursor + sz) = unat cursor + unat sz" using assms(3) by (simp add: unat_add_fits)
  obtain r where r: "init_funcs_loop E img cursor (cursor + sz) fs = Some r" "r \<noteq> Diverge"
    "\<forall>gs. r = Ok gs \<longrightarrow> (\<exists>hs. gs = fs @ hs \<and> length hs = (unat (cursor + sz) - unat cursor + 3) div 4 \<and>
       (\<forall>i < length hs. \<exists>v. deserialize_type_at_offset (pread_u32 E) img (of_nat (unat cursor + 4 * i)) = Some v \<and>
          hs ! i = ucast v))"
    using scroll_bounds.init_funcs_loop_total [OF assms(1,2)] by metis
  have "read_init_func_offsets E img cursor sz fs = r"
    using assms(3) r(1) by (simp add: read_init_func_offsets_def)
  with r(2,3) show ?thesis by (cases r) (simp_all add: e)
qed

theorem init_offsets_read_witness:
  "\<exists>gs. read_init_func_offsets (scroll_ref True) sample_program 16 8 [5] = Ok gs \<and> length gs = 3"
proof -
  have len: "length (c_data sample_program) < 2 ^ 32" by (simp add: sample_program_def with_bytes_def)
  have r: "deserialize_type_at_offset (pread_u32 (scroll_ref True)) sample_program 16 = Some 1"
    "deserialize_type_at_offset (pread_u32 (scroll_ref True)) sample_program 20 = Some 32"
    by (simp_all add: deserialize_type_at_offset_def sample_program_def with_bytes_def scroll_ref_def parser_simps)
  have "\<exists>gs. read_init_func_offsets (scroll_ref True) sample_program 16 8 [5] = Ok gs"
    by (simp add: read_init_func_offsets_def init_funcs_loop.simps r wadd_def)
  then show ?thesis
    using init_offsets_read [OF scroll_ref.scroll_bounds_axioms [of True] len, where cursor = 16 and sz = 8 and fs = "[5]"] by auto
qed

text \<open>C28: which defined symbols are accepted. An entry of a section whose name can be read is accepted
  exactly when it is no alternative entry, not both external and private, weak only if it is external
  without the weak-reference bit, and a resolver only if it is not a plain export; it is then
  appended with its value as the offset in the image. The catch-all error is reached exactly by a weak
  definition that is neither external nor private, and nothing panics.\<close>

theorem defined_symbol_accepted:
  assumes "read_symbol_name E img stroff (n_strx (n_un entry)) No_Symbol_Name = Ok name"
    and "ext \<longleftrightarrow> n_type entry AND N_EXT \<noteq> 0" "pext \<longleftrightarrow> n_type entry AND N_PEXT \<noteq> 0"
    and "weak \<longleftrightarrow> n_desc entry AND N_WEAK_DEF \<noteq> 0" "alt \<longleftrightarrow> n_desc entry AND N_ALT_ENTRY \<noteq> 0"
    and "resolver \<longleftrightarrow> n_desc entry AND N_SYMBOL_RESOLVER \<noteq> 0" "wref \<longleftrightarrow> n_desc entry AND N_WEAK_REF \<noteq> 0"
  shows "case classify_defined_symbol E img stroff entry ss of
      Ok r \<Rightarrow> (\<not> alt \<and> \<not> (ext \<and> pext) \<and> (weak \<longrightarrow> ext \<and> \<not> wref) \<and> (resolver \<longrightarrow> \<not> ext \<or> weak)) \<and>
        (\<exists>s. r = ss @ [s] \<and> sy_name s = name \<and> sy_impl_offset s = n_value entry \<and> sy_sect_num s = n_sect entry \<and>
           sy_lib_ordinal s = SELF_LIBRARY_ORDINAL \<and> (sy_is_weak s \<longleftrightarrow> weak))
    | Err e \<Rightarrow> \<not> (\<not> alt \<and> \<not> (ext \<and> pext) \<and> (weak \<longrightarrow> ext \<and> \<not> wref) \<and> (resolver \<longrightarrow> \<not> ext \<or> weak)) \<and>
        (e = Unknown_Symbol_Kind \<longleftrightarrow> \<not> ext \<and> \<not> pext \<and> weak \<and> \<not> alt)
    | Panic p \<Rightarrow> False | Diverge \<Rightarrow> False"
proof -
  have "\<And>e. e \<in> {AltEntry_TranslationUnit, WeakDef_WasPrivateExtern, AltEntry_WasLinkageUnit, AltEntry_LinkageUnit,
      WeakDef_Hidden, Resolver_LinkageUnit, Regular_Hidden, AltEntry_Global, WeakDef_AutoHide, Resolver_Global} \<Longrightarrow>
      e \<noteq> Unknown_Symbol_Kind"
    by (auto simp: AltEntry_TranslationUnit_def WeakDef_WasPrivateExtern_def AltEntry_WasLinkageUnit_def
        AltEntry_LinkageUnit_def WeakDef_Hidden_def Resolver_LinkageUnit_def Regular_Hidden_def AltEntry_Global_def
        WeakDef_AutoHide_def Resolver_Global_def Unknown_Symbol_Kind_def)
  then show ?thesis
    unfolding classify_defined_symbol_def assms(1) res.case assms(2-7) [symmetric] defined_symbol_make_def
    by (cases ext; cases pext; cases weak; cases alt; cases resolver; cases wref;
        simp add: make_regular_local_def make_regular_export_def make_weak_def_export_def)
qed

lemma fs_try_from_str_short:
  assumes "length str \<le> n" "n < 2 ^ 32"
  shows "\<exists>f. fs_try_from_str oc n str = Ok (Some f) \<and> fs_as_str f = Ok str"
  using fs_try_push_str_eq [of "fs_new n" str oc] assms
  by (auto simp: fs_try_from_str_def fs_new_def fv_new_array_inv fs_as_str_def fv_deref_eq)

definition sample_entry :: nlist_64 where
  "sample_entry = \<lparr>n_un = \<lparr>n_strx = 0\<rparr>, n_type = 0x0F, n_sect = 1, n_desc = 0x0080, n_value = 0x1000\<rparr>"

theorem defined_symbol_accepted_witness:
  "\<exists>s. classify_defined_symbol (scroll_ref True) sample_program 56 sample_entry [] = Ok [s] \<and> sy_is_weak s \<and>
     sy_impl_offset s = 0x1000"
proof -
  obtain name where "fs_try_from_str True SYMBOL_NAME_LEN [0x2F, 0x61] = Ok (Some name)"
    using fs_try_from_str_short [of "[0x2F, 0x61]" SYMBOL_NAME_LEN True] by (auto simp: SYMBOL_NAME_LEN_def)
  then have name: "read_symbol_name (scroll_ref True) sample_program 56 (n_strx (n_un sample_entry)) No_Symbol_Name = Ok name"
    by (simp add: read_symbol_name_def sample_entry_def sample_program_reads scroll_ref_def)
  have "case classify_defined_symbol (scroll_ref True) sample_program 56 sample_entry [] of
      Ok r \<Rightarrow> \<exists>s. r = [s] \<and> sy_is_weak s \<and> sy_impl_offset s = 0x1000 | _ \<Rightarrow> False"
    using defined_symbol_accepted [OF name refl refl refl refl refl refl, of "[]"]
    by (auto simp: sample_entry_def const_defs split: res.split_asm)
  then show ?thesis by (auto split: res.split_asm)
qed

text \<open>C29: the list of libraries to load. Up to 32 libraries it holds every library of the image, in order,
  with whether the shared cache has it; with more the loader stops with its error, and never panics.\<close>

theorem dependencies_exact:
  assumes "fv_inv (pi_libraries p)"
  shows "if length (fv_list (pi_libraries p)) \<le> 32
    then \<exists>deps. dependencies_collect oc p cache = Ok deps \<and> fv_inv deps \<and>
      fv_list deps = map (\<lambda>(name, _). (name, is_library_cached cache name)) (fv_list (pi_libraries p))
    else dependencies_collect oc p cache = Err Too_Many_Dylibs"
proof -
  have "if length (fv_list deps) + length libs \<le> 32
    then \<exists>deps'. dependencies_loop oc cache libs deps = Ok deps' \<and> fv_inv deps' \<and>
      fv_list deps' = fv_list deps @ map (\<lambda>(name, _). (name, is_library_cached cache name)) libs
    else dependencies_loop oc cache libs deps = Err Too_Many_Dylibs"
    if "fv_inv deps" "fv_cap deps = 32" for libs deps
    using that
  proof (induction libs arbitrary: deps)
    case Nil
    with fv_list_le_cap [of deps] show ?case by simp
  next
    case (Cons l libs)
    obtain name k where l: "l = (name, k)" by fastforce
    have "unat (fv_length deps) = length (fv_list deps)"
      using Cons.prems by (simp add: fv_length_def length_fv_list)
    then have full: "fv_length deps = 32 \<longleftrightarrow> length (fv_list deps) = 32"
      by (simp add: word_unat_eq_iff)
    show ?case
    proof (cases "length (fv_list deps) = 32")
      case True
      with l full show ?thesis by simp
    next
      case False
      with fv_list_le_cap [OF Cons.prems(1)] Cons.prems(2) have "length (fv_list deps) < fv_cap deps" by simp
      with fv_push_eq [OF Cons.prems(1)] obtain d where
        push: "fv_push oc (name, is_library_cached cache name) deps = Ok d" and d: "fv_inv d"
        "fv_list d = fv_list deps @ [(name, is_library_cached cache name)]" "fv_cap d = 32"
        using Cons.prems(2) by metis
      have "dependencies_loop oc cache (l # libs) deps = dependencies_loop oc cache libs d"
        using False full push l by simp
      with Cons.IH [OF d(1,3)] d(2) l show ?thesis by (simp split: if_split_asm)
    qed
  qed
  from this [of "fv_new_array 32" "fv_list (pi_libraries p)"] assms show ?thesis
    by (auto simp: dependencies_collect_def fv_deref_eq fv_new_array_inv split: if_split_asm)
qed

theorem dependencies_exact_witness:
  "\<exists>p deps. macho_parser (scroll_ref True) sample_program = Ok p \<and>
     dependencies_collect True p dsc_new = Ok deps \<and> fv_list deps = [([0x2F, 0x61], False)]"
proof -
  obtain p where p: "macho_parser (scroll_ref True) sample_program = Ok p"
    "fv_list (pi_libraries p) = [([0x2F, 0x61], 24)]"
    using sample_program_parse by blast
  from macho_parser_tables [OF p(1)] have "fv_inv (pi_libraries p)" by (simp add: tables_ok_def)
  from dependencies_exact [OF this, of True dsc_new] p show ?thesis
    by (auto simp: is_library_cached_def library_find_by_install_path_def dsc_new_def)
qed

lemma strip_prefix_Some_iff: "strip_prefix s pre = Some r \<longleftrightarrow> s = pre @ r"
  by (auto simp: strip_prefix_def starts_with_iff)

lemma strip_prefix_None_iff: "strip_prefix s pre = None \<longleftrightarrow> (\<forall>r. s \<noteq> pre @ r)"
  by (auto simp: strip_prefix_def starts_with_iff)

text \<open>What the comments on \<open>Rpath\<close> (\<open>loader.rs\<close>, lines 33 to 44) make of a name: the loader path is the
  directory of the binary with the load command, the executable path that of the main executable. Of a
  search list, or of no run path at all, they name no directory. The names that depend on the first of
  the two directories are the loader relative ones.\<close>

definition loader_relative :: "bytes \<Rightarrow> rpath option \<Rightarrow> bool" where
  "loader_relative name rp \<longleftrightarrow>
     starts_with name (lit ''@loader_path/'') \<or> starts_with name (lit ''@rpath/'') \<and> rp = Some LoaderPath"

definition documented_disk_path :: "bytes \<Rightarrow> rpath option \<Rightarrow> bytes \<Rightarrow> bytes \<Rightarrow> bytes option" where
  "documented_disk_path name rp loader_dir exec_dir =
     (case strip_prefix name (lit ''@rpath/'') of
        Some rest \<Rightarrow>
          (case rp of
             Some LoaderPath \<Rightarrow> Some (loader_dir @ lit ''/'' @ rest)
           | Some ExecutablePath \<Rightarrow> Some (exec_dir @ lit ''/'' @ rest)
           | _ \<Rightarrow> None)
      | None \<Rightarrow>
          (case strip_prefix name (lit ''@loader_path/'') of
             Some rest \<Rightarrow> Some (loader_dir @ lit ''/'' @ rest)
           | None \<Rightarrow>
               (case strip_prefix name (lit ''@executable_path/'') of
                  Some rest \<Rightarrow> Some (exec_dir @ lit ''/'' @ rest)
                | None \<Rightarrow> Some name)))"

lemma disk_path_documented:
  assumes "user_dylib_disk_path_resolve name rp dir = Ok path" "documented_disk_path name rp loader_dir dir = Some d"
  shows "path = d @ [0] \<longleftrightarrow> loader_dir = dir \<or> \<not> loader_relative name rp"
proof -
  have "starts_with name (lit ''@loader_path/'') \<longleftrightarrow> strip_prefix name (lit ''@loader_path/'') \<noteq> None"
    "starts_with name (lit ''@rpath/'') \<longleftrightarrow> strip_prefix name (lit ''@rpath/'') \<noteq> None"
    by (simp_all add: strip_prefix_def)
  moreover have "strip_prefix name (lit ''@rpath/'') = Some r \<Longrightarrow> strip_prefix name (lit ''@loader_path/'') = None" for r
    by (auto simp: strip_prefix_Some_iff strip_prefix_None_iff lit_def)
  ultimately show ?thesis
    using assms unfolding user_dylib_disk_path_resolve_def documented_disk_path_def loader_relative_def
    by (auto split: option.splits rpath.splits)
qed

lemma disk_path_cases:
  assumes "0 \<notin> set name" "0 \<notin> set dir"
  shows "(case user_dylib_disk_path_resolve name rp dir of
      Ok path \<Rightarrow> cstr_from_bytes_with_nul path = Some path \<and>
        (\<forall>rest. name = lit ''@loader_path/'' @ rest \<or> name = lit ''@executable_path/'' @ rest \<or>
           (name = lit ''@rpath/'' @ rest \<and> rp \<noteq> None) \<longrightarrow> path = dir @ lit ''/'' @ rest @ [0]) \<and>
        (\<forall>rest. name = lit ''@rpath/'' @ rest \<and> rp = None \<longrightarrow> path = rest @ [0]) \<and>
        ((\<forall>rest. name \<noteq> lit ''@loader_path/'' @ rest \<and> name \<noteq> lit ''@executable_path/'' @ rest \<and>
           name \<noteq> lit ''@rpath/'' @ rest) \<longrightarrow> path = name @ [0])
    | Panic p \<Rightarrow> p = Unimplemented \<and> rp = Some RPath \<and> (\<exists>rest. name = lit ''@rpath/'' @ rest)
    | Err e \<Rightarrow> False | Diverge \<Rightarrow> False)"
proof -
  have nul: "cstr_from_bytes_with_nul (q @ [0]) = Some (q @ [0])" if "0 \<notin> set q" for q
    using that position_append_first [of q "\<lambda>b. b = 0" 0 "[]"] by (auto simp: cstr_from_bytes_with_nul_def)
  have dist: "lit ''@rpath/'' @ r \<noteq> lit ''@loader_path/'' @ r'" "lit ''@rpath/'' @ r \<noteq> lit ''@executable_path/'' @ r'"
    "lit ''@loader_path/'' @ r \<noteq> lit ''@executable_path/'' @ r'" for r r'
    by (simp_all add: lit_def)
  have slash: "0 \<notin> set (lit ''/'')" by (simp add: lit_def)
  consider r where "name = lit ''@rpath/'' @ r" | r where "name = lit ''@loader_path/'' @ r"
    | r where "name = lit ''@executable_path/'' @ r"
    | (none) "strip_prefix name (lit ''@rpath/'') = None" "strip_prefix name (lit ''@loader_path/'') = None"
      "strip_prefix name (lit ''@executable_path/'') = None"
    by (metis strip_prefix_None_iff)
  then show ?thesis
  proof cases
    case none
    then have "user_dylib_disk_path_resolve name rp dir = Ok (name @ [0])"
      by (simp add: user_dylib_disk_path_resolve_def)
    with none assms show ?thesis by (simp add: strip_prefix_None_iff nul)
  next
    case 1
    then have "strip_prefix name (lit ''@rpath/'') = Some r" by (simp add: strip_prefix_Some_iff)
    with 1 assms slash nul [of r] nul [of "dir @ lit ''/'' @ r"] show ?thesis
      by (auto simp: user_dylib_disk_path_resolve_def dist split: option.split rpath.split)
  next
    case 2
    then have "strip_prefix name (lit ''@rpath/'') = None" "strip_prefix name (lit ''@loader_path/'') = Some r"
      by (simp_all add: strip_prefix_Some_iff strip_prefix_None_iff dist dist [symmetric])
    with 2 assms slash nul [of "dir @ lit ''/'' @ r"] show ?thesis
      by (auto simp: user_dylib_disk_path_resolve_def dist dist [symmetric])
  next
    case 3
    then have "strip_prefix name (lit ''@rpath/'') = None" "strip_prefix name (lit ''@loader_path/'') = None"
      "strip_prefix name (lit ''@executable_path/'') = Some r"
      by (simp_all add: strip_prefix_Some_iff strip_prefix_None_iff dist dist [symmetric])
    with 3 assms slash nul [of "dir @ lit ''/'' @ r"] show ?thesis
      by (auto simp: user_dylib_disk_path_resolve_def dist dist [symmetric])
  qed
qed

text \<open>C31: the path a library is opened under. A name under one of the three placeholders is looked up in
  the directory the loader hands down, that of the executable, also for \<open>@loader_path\<close>, which the
  comments on \<open>Rpath\<close> give the directory of the binary with the load command. The path is the documented
  one exactly when the two directories are the same or the name is not loader relative. A run path command of the
  image decides for \<open>@rpath\<close>; without one the rest of the name is used as it is, and the search list is
  not implemented. Any other name is taken literally. The result is a C string: one NUL, at its end,
  when the inputs have none.\<close>

theorem disk_path_resolved:
  assumes "0 \<notin> set name" "0 \<notin> set dir"
  shows "(case user_dylib_disk_path_resolve name rp dir of
      Ok path \<Rightarrow> cstr_from_bytes_with_nul path = Some path \<and>
        (\<forall>rest. name = lit ''@loader_path/'' @ rest \<or> name = lit ''@executable_path/'' @ rest \<or>
           (name = lit ''@rpath/'' @ rest \<and> rp \<noteq> None) \<longrightarrow> path = dir @ lit ''/'' @ rest @ [0]) \<and>
        (\<forall>rest. name = lit ''@rpath/'' @ rest \<and> rp = None \<longrightarrow> path = rest @ [0]) \<and>
        ((\<forall>rest. name \<noteq> lit ''@loader_path/'' @ rest \<and> name \<noteq> lit ''@executable_path/'' @ rest \<and>
           name \<noteq> lit ''@rpath/'' @ rest) \<longrightarrow> path = name @ [0]) \<and>
        (\<forall>loader_dir d. documented_disk_path name rp loader_dir dir = Some d \<longrightarrow>
           (path = d @ [0] \<longleftrightarrow> loader_dir = dir \<or> \<not> loader_relative name rp))
    | Panic p \<Rightarrow> p = Unimplemented \<and> rp = Some RPath \<and> (\<exists>rest. name = lit ''@rpath/'' @ rest)
    | Err e \<Rightarrow> False | Diverge \<Rightarrow> False)"
  using disk_path_cases [OF assms, of rp] disk_path_documented [of name rp dir] by (auto split: res.split)

theorem disk_path_resolved_witness:
  "user_dylib_disk_path_resolve (lit ''@loader_path/a'') None (lit ''/d'') = Ok (lit ''/d/a'' @ [0]) \<and>
   documented_disk_path (lit ''@loader_path/a'') None (lit ''/l'') (lit ''/d'') = Some (lit ''/l/a'')"
proof -
  have "0 \<notin> set (lit ''@loader_path/a'')" "0 \<notin> set (lit ''/d'')" by (simp_all add: lit_def)
  moreover have "lit ''@loader_path/a'' = lit ''@loader_path/'' @ lit ''a''" "lit ''/d/a'' = lit ''/d'' @ lit ''/'' @ lit ''a''"
    by (simp_all add: lit_def)
  moreover have "documented_disk_path (lit ''@loader_path/a'') None (lit ''/l'') (lit ''/d'') = Some (lit ''/l/a'')"
    by (simp add: documented_disk_path_def strip_prefix_def starts_with_iff lit_def)
  ultimately show ?thesis
    using disk_path_resolved [of "lit ''@loader_path/a''" "lit ''/d''" None] by (auto split: res.split_asm)
qed

end
