(* ===== verification/Process.thy ===== *)
theory Process
  imports Loader_Parser
begin

text \<open>
  The process and what it asks of the system: \<open>syscalls.rs\<close>, \<open>libc.rs\<close>, \<open>mach.rs\<close>, \<open>mmap.rs\<close>,
  \<open>print.rs\<close>, \<open>jump.rs\<close> and \<open>user_dylibs.rs\<close> under \<open>src/src\<close>. The state of the process is its memory and
  the trace of what it asked for. Outside the program are the answers of the kernel, the code that is
  jumped to, and the two C libraries: a \<open>machine\<close>, which every definition takes as its argument. A
  pointer to a buffer of the program is passed to the kernel as the contents of the buffer, and what
  the kernel leaves in it comes back with the answer.
\<close>

unbundle bit_operations_syntax

section \<open>Process and machine\<close>

datatype arg =
    W usize      \<comment> \<open>a word\<close>
  | In bytes     \<comment> \<open>a pointer to these bytes\<close>
  | Out nat      \<comment> \<open>a pointer to a buffer of this size, for the answer\<close>

datatype event =
    Svc usize "arg list"
  | Run usize "usize list"
  | Tlv_Init usize

record proc =
  pr_mem :: mem
  pr_trace :: "event list"

record answer =
  an_x0 :: usize
  an_carry :: u64
  an_out :: bytes
  an_mem :: mem

record machine =
  svc :: "usize \<Rightarrow> arg list \<Rightarrow> proc \<Rightarrow> answer"
  run_code :: "usize \<Rightarrow> usize list \<Rightarrow> proc \<Rightarrow> mem"
  tlv_initialize :: "usize \<Rightarrow> proc \<Rightarrow> mem"
  null_array :: usize  \<comment> \<open>the address of the constant array that holds one null pointer\<close>

type_synonym 'a io = "proc \<Rightarrow> 'a res \<times> proc"

definition io_ok :: "'a \<Rightarrow> 'a io" where
  "io_ok x s = (Ok x, s)"

definition io_lift :: "'a res \<Rightarrow> 'a io" where
  "io_lift r s = (r, s)"

definition io_bind :: "'a io \<Rightarrow> ('a \<Rightarrow> 'b io) \<Rightarrow> 'b io" where
  "io_bind m f s = (case m s of
       (Ok x, s') \<Rightarrow> f x s'
     | (Err e, s') \<Rightarrow> (Err e, s') | (Panic p, s') \<Rightarrow> (Panic p, s') | (Diverge, s') \<Rightarrow> (Diverge, s'))"

text \<open>\<open>map_err(|_| e)?\<close> on a kernel result, \<open>Inl\<close> being its error.\<close>

definition io_try :: "error \<Rightarrow> ('e + 'a) io \<Rightarrow> 'a io" where
  "io_try e m = io_bind m (\<lambda>r. io_lift (case r of Inl _ \<Rightarrow> Err e | Inr x \<Rightarrow> Ok x))"

lemma io_simps [simp]:
  "io_bind (io_ok x) f = f x" "io_bind (io_lift (Ok x)) f = f x"
  "io_bind (io_lift (Err e)) f = io_lift (Err e)" "io_bind (io_lift (Panic p)) f = io_lift (Panic p)"
  "io_bind (io_lift Diverge) f = io_lift Diverge" "io_ok x s = (Ok x, s)" "io_lift r s = (r, s)"
  by (auto simp: io_bind_def io_ok_def io_lift_def fun_eq_iff)

lemma io_bind_assoc: "io_bind (io_bind m f) g = io_bind m (\<lambda>x. io_bind (f x) g)"
  by (auto simp: io_bind_def fun_eq_iff split: prod.split res.split)

lemma io_bind_Ok_iff [res_simps]:
  "io_bind m f s = (Ok y, s'') \<longleftrightarrow> (\<exists>x s'. m s = (Ok x, s') \<and> f x s' = (Ok y, s''))"
  by (auto simp: io_bind_def split: prod.split res.split)

lemma io_bind_cong [fundef_cong]:
  "m = m' \<Longrightarrow> s = s' \<Longrightarrow> (\<And>x t. m' s' = (Ok x, t) \<Longrightarrow> f x t = g x t) \<Longrightarrow> io_bind m f s = io_bind m' g s'"
  by (auto simp: io_bind_def split: prod.split res.split)

section \<open>System calls\<close>

definition SYS_EXIT :: usize where [const_defs]: "SYS_EXIT = 1"
definition SYS_WRITE :: usize where [const_defs]: "SYS_WRITE = 4"
definition SYS_READ :: usize where [const_defs]: "SYS_READ = 3"
definition SYS_OPEN :: usize where [const_defs]: "SYS_OPEN = 5"
definition SYS_CLOSE :: usize where [const_defs]: "SYS_CLOSE = 6"
definition SYS_FSTAT :: usize where [const_defs]: "SYS_FSTAT = 339"
definition SYS_MMAP :: usize where [const_defs]: "SYS_MMAP = 197"
definition SYS_MUNMAP :: usize where [const_defs]: "SYS_MUNMAP = 73"
definition SYS_MPROTECT :: usize where [const_defs]: "SYS_MPROTECT = 74"
definition SYS_FCNTL :: usize where [const_defs]: "SYS_FCNTL = 92"
definition F_GETPATH :: usize where [const_defs]: "F_GETPATH = 50"
definition SYS_READLINK :: usize where [const_defs]: "SYS_READLINK = 58"
definition O_SYMLINK :: usize where [const_defs]: "O_SYMLINK = 0x200000"

definition decode_ret :: "usize \<Rightarrow> u64 \<Rightarrow> usize + usize" where
  "decode_ret val err_bit = (if err_bit = 0 then Inr val else Inl val)"

text \<open>\<open>svc #0x80\<close> with the number in \<open>x16\<close> and the arguments from \<open>x0\<close>; the result is \<open>x0\<close> and the carry
  flag. The wrappers of the code differ in the number of arguments only; the second component of the
  result is what the kernel left in the buffer passed as \<open>Out\<close>.\<close>

definition syscall :: "machine \<Rightarrow> usize \<Rightarrow> arg list \<Rightarrow> ((usize + usize) \<times> bytes) io" where
  "syscall K num args s =
     (let a = svc K num args s in
      (Ok (decode_ret (an_x0 a) (an_carry a), an_out a),
       s\<lparr>pr_mem := an_mem a, pr_trace := pr_trace s @ [Svc num args]\<rparr>))"

definition syscall_ret :: "machine \<Rightarrow> usize \<Rightarrow> arg list \<Rightarrow> (usize + usize) io" where
  "syscall_ret K num args = io_bind (syscall K num args) (\<lambda>r. io_ok (fst r))"

definition syscall0 :: "machine \<Rightarrow> usize \<Rightarrow> (usize + usize) io" where
  "syscall0 K num = syscall_ret K num []"

definition syscall1 :: "machine \<Rightarrow> usize \<Rightarrow> arg \<Rightarrow> (usize + usize) io" where
  "syscall1 K num a0 = syscall_ret K num [a0]"

definition syscall2 :: "machine \<Rightarrow> usize \<Rightarrow> arg \<Rightarrow> arg \<Rightarrow> (usize + usize) io" where
  "syscall2 K num a0 a1 = syscall_ret K num [a0, a1]"

definition syscall3 :: "machine \<Rightarrow> usize \<Rightarrow> arg \<Rightarrow> arg \<Rightarrow> arg \<Rightarrow> (usize + usize) io" where
  "syscall3 K num a0 a1 a2 = syscall_ret K num [a0, a1, a2]"

definition syscall4 :: "machine \<Rightarrow> usize \<Rightarrow> arg \<Rightarrow> arg \<Rightarrow> arg \<Rightarrow> arg \<Rightarrow> (usize + usize) io" where
  "syscall4 K num a0 a1 a2 a3 = syscall_ret K num [a0, a1, a2, a3]"

definition syscall5 :: "machine \<Rightarrow> usize \<Rightarrow> arg \<Rightarrow> arg \<Rightarrow> arg \<Rightarrow> arg \<Rightarrow> arg \<Rightarrow> (usize + usize) io" where
  "syscall5 K num a0 a1 a2 a3 a4 = syscall_ret K num [a0, a1, a2, a3, a4]"

definition syscall6 :: "machine \<Rightarrow> usize \<Rightarrow> arg \<Rightarrow> arg \<Rightarrow> arg \<Rightarrow> arg \<Rightarrow> arg \<Rightarrow> arg \<Rightarrow> (usize + usize) io" where
  "syscall6 K num a0 a1 a2 a3 a4 a5 = syscall_ret K num [a0, a1, a2, a3, a4, a5]"

definition syscall7 :: "machine \<Rightarrow> usize \<Rightarrow> arg \<Rightarrow> arg \<Rightarrow> arg \<Rightarrow> arg \<Rightarrow> arg \<Rightarrow> arg \<Rightarrow> arg \<Rightarrow> (usize + usize) io" where
  "syscall7 K num a0 a1 a2 a3 a4 a5 a6 = syscall_ret K num [a0, a1, a2, a3, a4, a5, a6]"

definition syscall8 ::
  "machine \<Rightarrow> usize \<Rightarrow> arg \<Rightarrow> arg \<Rightarrow> arg \<Rightarrow> arg \<Rightarrow> arg \<Rightarrow> arg \<Rightarrow> arg \<Rightarrow> arg \<Rightarrow> (usize + usize) io" where
  "syscall8 K num a0 a1 a2 a3 a4 a5 a6 a7 = syscall_ret K num [a0, a1, a2, a3, a4, a5, a6, a7]"

text \<open>The two calls with an out buffer.\<close>

definition syscall2_out :: "machine \<Rightarrow> usize \<Rightarrow> arg \<Rightarrow> nat \<Rightarrow> ((usize + usize) \<times> bytes) io" where
  "syscall2_out K num a0 n = syscall K num [a0, Out n]"

definition syscall4_out :: "machine \<Rightarrow> usize \<Rightarrow> arg \<Rightarrow> nat \<Rightarrow> arg \<Rightarrow> arg \<Rightarrow> ((usize + usize) \<times> bytes) io" where
  "syscall4_out K num a0 n a2 a3 = syscall K num [a0, Out n, a2, a3]"

section \<open>libc\<close>

definition EXIT_FAILURE :: usize where [const_defs]: "EXIT_FAILURE = 0"
definition STDOUT_FILENO :: usize where [const_defs]: "STDOUT_FILENO = 1"
definition STDERR_FILENO :: usize where [const_defs]: "STDERR_FILENO = 2"
definition O_RDONLY :: usize where [const_defs]: "O_RDONLY = 0"

definition O_WRONLY :: usize where [const_defs]: "O_WRONLY = 1"
definition O_RDWR :: usize where [const_defs]: "O_RDWR = 2"
definition O_NONBLOCK :: usize where [const_defs]: "O_NONBLOCK = 4"
definition O_APPEND :: usize where [const_defs]: "O_APPEND = 8"
definition O_CREAT :: usize where [const_defs]: "O_CREAT = 0x200"
definition O_TRUNC :: usize where [const_defs]: "O_TRUNC = 0x400"
definition O_EXCL :: usize where [const_defs]: "O_EXCL = 0x800"
definition MODE_644 :: usize where [const_defs]: "MODE_644 = 0x1A4"
definition MODE_755 :: usize where [const_defs]: "MODE_755 = 0x1ED"

definition libc_write :: "machine \<Rightarrow> usize \<Rightarrow> bytes \<Rightarrow> (usize + usize) io" where
  "libc_write K fildes buf = syscall3 K SYS_WRITE (W fildes) (In buf) (W (of_nat (length buf)))"

definition libc_exit :: "machine \<Rightarrow> usize \<Rightarrow> (usize + usize) io" where
  "libc_exit K status = syscall1 K SYS_EXIT (W status)"

text \<open>Past the call nothing runs: \<open>unreachable!\<close> would be reached only if the kernel refused to exit.\<close>

definition exit_error :: "machine \<Rightarrow> 'a io" where
  "exit_error K = io_bind (syscall1 K SYS_EXIT (W EXIT_FAILURE)) (\<lambda>_. io_lift (Panic Exit_Error))"

definition bzero :: "usize \<Rightarrow> usize \<Rightarrow> mem \<Rightarrow> mem" where
  "bzero dst n m = (\<lambda>x. if unat (x - dst) < unat n then 0 else m x)"

definition libc_open :: "machine \<Rightarrow> bytes \<Rightarrow> usize \<Rightarrow> usize \<Rightarrow> (usize + usize) io" where
  "libc_open K path flags mode = syscall3 K SYS_OPEN (In path) (W flags) (W mode)"

definition libc_read :: "machine \<Rightarrow> usize \<Rightarrow> usize \<Rightarrow> usize \<Rightarrow> (usize + usize) io" where
  "libc_read K fildes buf count = syscall3 K SYS_READ (W fildes) (W buf) (W count)"

definition libc_close :: "machine \<Rightarrow> usize \<Rightarrow> (usize + usize) io" where
  "libc_close K fildes = syscall1 K SYS_CLOSE (W fildes)"

text \<open>The fields of \<open>File\<close> with the layout \<open>repr(C)\<close> gives them.\<close>

record file_stat =
  st_dev :: i32
  st_mode :: u16
  st_nlink :: u16
  st_ino :: u64
  st_uid :: u32
  st_gid :: u32
  st_rdev :: i32
  st_atime :: i64
  st_atime_nsec :: i64
  st_mtime :: i64
  st_mtime_nsec :: i64
  st_ctime :: i64
  st_ctime_nsec :: i64
  st_birthtime :: i64
  st_birthtime_nsec :: i64
  st_size :: i64
  st_blocks :: i64
  st_blksize :: i32
  st_flags :: u32
  st_gen :: u32
  st_lspare :: i32
  st_qspare :: "i64 \<times> i64"

definition file_layout :: layout where
  "file_layout = [f_u32, f_u16, f_u16, f_u64, f_u32, f_u32, f_u32, f_u64, f_u64, f_u64, f_u64, f_u64, f_u64,
     f_u64, f_u64, f_u64, f_u64, f_u32, f_u32, f_u32, f_u32, f_u64, f_u64]"

definition field_at :: "bytes \<Rightarrow> nat \<Rightarrow> nat \<Rightarrow> 'a::len word" where
  "field_at bs off n = of_nat (le_nat (take n (drop off bs)))"

definition file_of_bytes :: "bytes \<Rightarrow> file_stat" where
  "file_of_bytes b = \<lparr>st_dev = field_at b 0 4, st_mode = field_at b 4 2, st_nlink = field_at b 6 2,
     st_ino = field_at b 8 8, st_uid = field_at b 16 4, st_gid = field_at b 20 4, st_rdev = field_at b 24 4,
     st_atime = field_at b 32 8, st_atime_nsec = field_at b 40 8, st_mtime = field_at b 48 8,
     st_mtime_nsec = field_at b 56 8, st_ctime = field_at b 64 8, st_ctime_nsec = field_at b 72 8,
     st_birthtime = field_at b 80 8, st_birthtime_nsec = field_at b 88 8, st_size = field_at b 96 8,
     st_blocks = field_at b 104 8, st_blksize = field_at b 112 4, st_flags = field_at b 116 4,
     st_gen = field_at b 120 4, st_lspare = field_at b 124 4,
     st_qspare = (field_at b 128 8, field_at b 136 8)\<rparr>"

definition libc_fstat :: "machine \<Rightarrow> usize \<Rightarrow> ((usize + usize) \<times> file_stat) io" where
  "libc_fstat K fildes =
     io_bind (syscall2_out K SYS_FSTAT (W fildes) (size_of file_layout)) (\<lambda>(r, out). io_ok (r, file_of_bytes out))"

section \<open>Mach\<close>

definition KERN_SUCCESS :: i32 where [const_defs]: "KERN_SUCCESS = 0"
definition TRAP_KERNELRPC_MACH_VM_ALLOCATE :: usize where [const_defs]: "TRAP_KERNELRPC_MACH_VM_ALLOCATE = - 10"
definition TRAP_KERNELRPC_MACH_VM_DEALLOCATE :: usize where [const_defs]: "TRAP_KERNELRPC_MACH_VM_DEALLOCATE = - 12"
definition TRAP_KERNELRPC_MACH_VM_PROTECT :: usize where [const_defs]: "TRAP_KERNELRPC_MACH_VM_PROTECT = - 14"
definition TRAP_KERNELRPC_MACH_PORT_DEALLOCATE :: usize where [const_defs]: "TRAP_KERNELRPC_MACH_PORT_DEALLOCATE = - 18"
definition TRAP_TASK_SELF :: usize where [const_defs]: "TRAP_TASK_SELF = - 28"
definition VM_FLAGS_ANYWHERE :: i32 where [const_defs]: "VM_FLAGS_ANYWHERE = 1"

definition kr :: "usize + usize \<Rightarrow> i32" where
  "kr r = (case r of Inl v \<Rightarrow> ucast v | Inr v \<Rightarrow> ucast v)"

definition task_self_internal :: "machine \<Rightarrow> u32 io" where
  "task_self_internal K = io_bind (syscall0 K TRAP_TASK_SELF) (\<lambda>r.
     io_ok (case r of Inl v \<Rightarrow> ucast v | Inr v \<Rightarrow> ucast v))"

definition mach_port_deallocate_internal :: "machine \<Rightarrow> u32 \<Rightarrow> u32 \<Rightarrow> i32 io" where
  "mach_port_deallocate_internal K target name =
     io_bind (syscall3 K TRAP_KERNELRPC_MACH_PORT_DEALLOCATE (W (ucast target)) (W (ucast name)) (W 0)) (\<lambda>r. io_ok (kr r))"

definition vm_allocate_internal :: "machine \<Rightarrow> u32 \<Rightarrow> u64 \<Rightarrow> i32 \<Rightarrow> (i32 \<times> u64) io" where
  "vm_allocate_internal K target sz flags =
     io_bind (syscall4_out K TRAP_KERNELRPC_MACH_VM_ALLOCATE (W (ucast target)) 8 (W sz) (W (ucast flags)))
       (\<lambda>(r, out). io_ok (kr r, field_at out 0 8))"

definition vm_deallocate_internal :: "machine \<Rightarrow> u32 \<Rightarrow> u64 \<Rightarrow> u64 \<Rightarrow> i32 io" where
  "vm_deallocate_internal K target address sz =
     io_bind (syscall3 K TRAP_KERNELRPC_MACH_VM_DEALLOCATE (W (ucast target)) (W address) (W sz)) (\<lambda>r. io_ok (kr r))"

definition vm_protect_internal :: "machine \<Rightarrow> u32 \<Rightarrow> u64 \<Rightarrow> u64 \<Rightarrow> u32 \<Rightarrow> i32 \<Rightarrow> i32 io" where
  "vm_protect_internal K target address sz set_maximum new_protection =
     io_bind (syscall5 K TRAP_KERNELRPC_MACH_VM_PROTECT (W (ucast target)) (W address) (W sz)
       (W (ucast set_maximum)) (W (ucast new_protection))) (\<lambda>r. io_ok (kr r))"

definition vm_alloc_task_self :: "machine \<Rightarrow> usize \<Rightarrow> (i32 + usize) io" where
  "vm_alloc_task_self K sz =
     io_bind (task_self_internal K) (\<lambda>task.
     io_bind (vm_allocate_internal K task sz VM_FLAGS_ANYWHERE) (\<lambda>(r, addr).
     io_ok (if r \<noteq> KERN_SUCCESS then Inl r else if addr = 0 then Inl (- 1) else Inr addr)))"

definition vm_dealloc_task_self :: "machine \<Rightarrow> u64 \<Rightarrow> usize \<Rightarrow> (i32 + unit) io" where
  "vm_dealloc_task_self K address sz =
     io_bind (task_self_internal K) (\<lambda>task.
     io_bind (vm_deallocate_internal K task address sz) (\<lambda>r.
     io_ok (if r \<noteq> KERN_SUCCESS then Inl r else Inr ())))"

definition vm_protect :: "machine \<Rightarrow> u64 \<Rightarrow> usize \<Rightarrow> u32 \<Rightarrow> i32 \<Rightarrow> (i32 + unit) io" where
  "vm_protect K address sz set_maximum protection =
     io_bind (task_self_internal K) (\<lambda>task.
     io_bind (vm_protect_internal K task address sz set_maximum protection) (\<lambda>r.
     io_ok (if r \<noteq> KERN_SUCCESS then Inl r else Inr ())))"

text \<open>\<open>copy_nonoverlapping\<close> of \<open>count\<close> bytes.\<close>

definition copy_bytes :: "usize \<Rightarrow> usize \<Rightarrow> usize \<Rightarrow> mem \<Rightarrow> mem" where
  "copy_bytes src dst count m = (\<lambda>x. if unat (x - dst) < unat count then m (src + (x - dst)) else m x)"

definition vm_copy_into_task_self :: "u64 \<Rightarrow> u64 \<Rightarrow> usize \<Rightarrow> unit io" where
  "vm_copy_into_task_self src dst count s = (Ok (), s\<lparr>pr_mem := copy_bytes src dst count (pr_mem s)\<rparr>)"

section \<open>mmap\<close>

definition PROT_NONE :: i32 where [const_defs]: "PROT_NONE = 0"
definition PROT_EXEC :: i32 where [const_defs]: "PROT_EXEC = 4"
definition PROT_READ :: i32 where [const_defs]: "PROT_READ = 1"
definition PROT_WRITE :: i32 where [const_defs]: "PROT_WRITE = 2"
definition MAP_SHARED :: i32 where [const_defs]: "MAP_SHARED = 1"
definition MAP_PRIVATE :: i32 where [const_defs]: "MAP_PRIVATE = 2"
definition MAP_FIXED :: i32 where [const_defs]: "MAP_FIXED = 0x10"
definition MAP_ANON :: i32 where [const_defs]: "MAP_ANON = 0x20"
definition MAP_FAILED :: usize where [const_defs]: "MAP_FAILED = - 1"

definition mmap_internal :: "machine \<Rightarrow> usize \<Rightarrow> usize \<Rightarrow> i32 \<Rightarrow> i32 \<Rightarrow> i32 \<Rightarrow> i64 \<Rightarrow> (i32 + usize) io" where
  "mmap_internal K addr len prot flags fd offset =
     io_bind (syscall6 K SYS_MMAP (W addr) (W len) (W (scast prot)) (W (scast flags)) (W (scast fd)) (W offset)) (\<lambda>r.
     io_ok (case r of
         Inr v \<Rightarrow> if v = MAP_FAILED then Inl 0 else Inr v
       | Inl e \<Rightarrow> Inl (ucast e)))"

definition munmap_internal :: "machine \<Rightarrow> usize \<Rightarrow> usize \<Rightarrow> (i32 + unit) io" where
  "munmap_internal K addr len =
     io_bind (syscall2 K SYS_MUNMAP (W addr) (W len)) (\<lambda>r.
     io_ok (case r of Inr _ \<Rightarrow> Inr () | Inl e \<Rightarrow> Inl (ucast e)))"

definition mprotect_internal :: "machine \<Rightarrow> usize \<Rightarrow> usize \<Rightarrow> i32 \<Rightarrow> (i32 + unit) io" where
  "mprotect_internal K addr len prot =
     io_bind (syscall3 K SYS_MPROTECT (W addr) (W len) (W (scast prot))) (\<lambda>r.
     io_ok (case r of Inr _ \<Rightarrow> Inr () | Inl e \<Rightarrow> Inl (ucast e)))"

text \<open>\<open>NonNull::new(p).ok_or(22)\<close> on the result of a mapping.\<close>

definition mapped_non_null :: "i32 + usize \<Rightarrow> i32 + usize" where
  "mapped_non_null r = (case r of Inl e \<Rightarrow> Inl e | Inr p \<Rightarrow> if p = 0 then Inl 22 else Inr p)"

definition mmap_anon :: "machine \<Rightarrow> usize \<Rightarrow> i32 \<Rightarrow> (i32 + usize) io" where
  "mmap_anon K len prot =
     (if len = 0 then io_ok (Inl 22)
      else io_bind (mmap_internal K 0 len prot (MAP_PRIVATE OR MAP_ANON) (- 1) 0) (\<lambda>r. io_ok (mapped_non_null r)))"

definition mmap_file :: "machine \<Rightarrow> usize \<Rightarrow> i32 \<Rightarrow> i32 \<Rightarrow> i32 \<Rightarrow> i64 \<Rightarrow> (i32 + usize) io" where
  "mmap_file K len prot flags fd offset =
     (if len = 0 then io_ok (Inl 22)
      else let sp = flags AND (MAP_SHARED OR MAP_PRIVATE) in
        if sp \<noteq> MAP_SHARED \<and> sp \<noteq> MAP_PRIVATE then io_ok (Inl 22)
        else io_bind (mmap_internal K 0 len prot flags fd offset) (\<lambda>r. io_ok (mapped_non_null r)))"

definition munmap :: "machine \<Rightarrow> usize \<Rightarrow> usize \<Rightarrow> (i32 + unit) io" where
  "munmap K addr len = munmap_internal K addr len"

definition mprotect :: "machine \<Rightarrow> usize \<Rightarrow> usize \<Rightarrow> i32 \<Rightarrow> (i32 + unit) io" where
  "mprotect K addr len prot = mprotect_internal K addr len prot"

definition mmap_copy :: "usize \<Rightarrow> usize \<Rightarrow> usize \<Rightarrow> unit io" where
  "mmap_copy src dst count s = (Ok (), s\<lparr>pr_mem := copy_bytes src dst count (pr_mem s)\<rparr>)"

section \<open>Output\<close>

function write_all :: "machine \<Rightarrow> usize \<Rightarrow> bytes \<Rightarrow> proc \<Rightarrow> (usize + unit) res \<times> proc" where
  "write_all K fd buf s =
     (if buf = [] then (Ok (Inr ()), s)
      else io_bind (libc_write K fd buf) (\<lambda>r s.
        case r of
          Inl e \<Rightarrow> (Ok (Inl e), s)
        | Inr n \<Rightarrow>
            if n = 0 then (Ok (Inl 0), s)
            else if length buf < unat n then (Panic Index_Bounds, s)
            else write_all K fd (drop (unat n) buf) s) s)"
  by pat_completeness auto
termination
  by (relation "measure (\<lambda>(K, fd, buf, s). length buf)") (auto simp: unat_gt_0)

declare write_all.simps [simp del]

text \<open>\<open>write_fmt\<close> hands the pieces of the format, literals and formatted arguments, to \<open>write_str\<close> one by
  one and stops at the first failure, which \<open>_print\<close> and \<open>_print_err\<close> unwrap.\<close>

fun write_pieces :: "machine \<Rightarrow> usize \<Rightarrow> bytes list \<Rightarrow> (usize + unit) io" where
  "write_pieces K fd [] = io_ok (Inr ())"
| "write_pieces K fd (p # ps) = io_bind (write_all K fd p) (\<lambda>r.
     case r of Inl e \<Rightarrow> io_ok (Inl e) | Inr _ \<Rightarrow> write_pieces K fd ps)"

definition print_to :: "machine \<Rightarrow> usize \<Rightarrow> bytes list \<Rightarrow> unit io" where
  "print_to K fd ps = io_bind (write_pieces K fd ps) (\<lambda>r.
     io_lift (case r of Inl _ \<Rightarrow> Panic Unwrap_Failed | Inr _ \<Rightarrow> Ok ()))"

definition print :: "machine \<Rightarrow> bytes list \<Rightarrow> unit io" where
  "print K ps = print_to K STDOUT_FILENO ps"

definition print_err :: "machine \<Rightarrow> bytes list \<Rightarrow> unit io" where
  "print_err K ps = print_to K STDERR_FILENO ps"

definition println :: "machine \<Rightarrow> bytes list \<Rightarrow> unit io" where
  "println K ps = io_bind (print_to K STDOUT_FILENO ps) (\<lambda>_. print_to K STDOUT_FILENO [[10]])"

definition println_err :: "machine \<Rightarrow> bytes list \<Rightarrow> unit io" where
  "println_err K ps = io_bind (print_to K STDERR_FILENO ps) (\<lambda>_. print_to K STDERR_FILENO [[10]])"

text \<open>\<open>format!\<close>: the pieces go to a string that grows and takes all of them.\<close>

fun format_pieces :: "bytes \<Rightarrow> bytes list \<Rightarrow> bytes" where
  "format_pieces s [] = s"
| "format_pieces s (p # ps) = format_pieces (s @ p) ps"

definition format_args :: "bytes list \<Rightarrow> bytes" where
  "format_args ps = format_pieces [] ps"

lemma format_args_concat: "format_args ps = concat ps"
proof -
  have "format_pieces s ps = s @ concat ps" for s by (induction ps arbitrary: s) simp_all
  then show ?thesis by (simp add: format_args_def)
qed

section \<open>The base of the shared cache\<close>

text \<open>\<open>src/libdsc/dyld_shared_cache_base_address_get.c\<close>: the system call \<open>shared_region_check_np\<close>, and whether the
  carry flag was left clear. The second component is what is then in the variable the pointer is to.\<close>

definition SHARED_REGION_CHECK_NP :: usize where [const_defs]: "SHARED_REGION_CHECK_NP = 294"

definition dyld_shared_cache_base_address_get :: "machine \<Rightarrow> (u8 \<times> u64) io" where
  "dyld_shared_cache_base_address_get K =
     io_bind (syscall K SHARED_REGION_CHECK_NP [Out 8]) (\<lambda>(r, out).
     io_ok (case r of Inr _ \<Rightarrow> 1 | Inl _ \<Rightarrow> 0, field_at out 0 8))"

section \<open>Jumping\<close>

definition entry_and_ret :: "machine \<Rightarrow> usize \<Rightarrow> usize \<Rightarrow> usize \<Rightarrow> usize \<Rightarrow> usize \<Rightarrow> unit io" where
  "entry_and_ret K entrypoint argc argv envp apple s =
     (Ok (), s\<lparr>pr_mem := run_code K entrypoint [argc, argv, envp, apple] s,
               pr_trace := pr_trace s @ [Run entrypoint [argc, argv, envp, apple]]\<rparr>)"

definition jump_entry :: "machine \<Rightarrow> usize \<Rightarrow> usize \<Rightarrow> usize \<Rightarrow> usize \<Rightarrow> usize \<Rightarrow> unit io" where
  "jump_entry K entrypoint argc argv envp apple = entry_and_ret K entrypoint argc argv envp apple"

definition tlv_initialize_descriptors_export :: "machine \<Rightarrow> usize \<Rightarrow> unit io" where
  "tlv_initialize_descriptors_export K mh s =
     (Ok (), s\<lparr>pr_mem := tlv_initialize K mh s, pr_trace := pr_trace s @ [Tlv_Init mh]\<rparr>)"

section \<open>Mapping a library file\<close>

text \<open>The result is the container over the mapped bytes and the address of the first of them.\<close>

definition disk_path_mmap :: "machine \<Rightarrow> bytes \<Rightarrow> (container \<times> usize) io" where
  "disk_path_mmap K path =
     io_bind (io_try Open_Failed (libc_open K path O_RDONLY 0)) (\<lambda>fd0.
     let fd = ucast fd0 :: u32 in
     io_bind (libc_fstat K (ucast fd)) (\<lambda>(r, stat).
     io_bind (io_try Stat_Failed (io_ok r)) (\<lambda>_.
     let sz = st_size stat in
     io_bind (io_try Mmap_Failed (mmap_file K sz (PROT_READ OR PROT_WRITE) MAP_PRIVATE (ucast fd) 0)) (\<lambda>ptr s.
     (Ok (with_bytes (raw_slice (pr_mem s) ptr sz) Little, ptr), s)))))"

section \<open>What the calls do\<close>

text \<open>The system call that writes a buffer, as the trace records it.\<close>

definition write_event :: "usize \<Rightarrow> bytes \<Rightarrow> event" where
  "write_event fd b = Svc SYS_WRITE [W fd, In b, W (of_nat (length b))]"

lemma libc_write_eq:
  "libc_write K fd b s =
     (let a = svc K SYS_WRITE [W fd, In b, W (of_nat (length b))] s in
      (Ok (decode_ret (an_x0 a) (an_carry a)), s\<lparr>pr_mem := an_mem a, pr_trace := pr_trace s @ [write_event fd b]\<rparr>))"
  by (simp add: libc_write_def syscall3_def syscall_ret_def syscall_def io_bind_def Let_def write_event_def)

text \<open>The kernel takes at least one byte of every write, and no more than it is given.\<close>

definition accepts_writes :: "machine \<Rightarrow> bool" where
  "accepts_writes K \<longleftrightarrow> (\<forall>fd b s. b \<noteq> [] \<longrightarrow>
     (let a = svc K SYS_WRITE [W fd, In b, W (of_nat (length b))] s in
      an_carry a = 0 \<and> an_x0 a \<noteq> 0 \<and> unat (an_x0 a) \<le> length b))"

lemma write_all_trace:
  "write_all K fd buf s = (r, s') \<Longrightarrow>
     \<exists>bs. pr_trace s' = pr_trace s @ map (write_event fd) bs \<and> [] \<notin> set bs \<and>
       (bs = [] \<longleftrightarrow> buf = []) \<and> (buf \<noteq> [] \<longrightarrow> hd bs = buf) \<and>
       sorted_wrt (\<lambda>a b. \<exists>n > 0. b = drop n a) bs \<and> (\<forall>b \<in> set bs. \<exists>n. b = drop n buf) \<and>
       r \<noteq> Diverge \<and> (\<forall>e. r \<noteq> Err e) \<and> (accepts_writes K \<longrightarrow> r = Ok (Inr ()))"
proof (induction K fd buf s arbitrary: r rule: write_all.induct)
  case (1 K fd buf s)
  show ?case
  proof (cases "buf = []")
    case True
    with 1(2) show ?thesis by (subst (asm) write_all.simps) auto
  next
    case False
    define a where "a = svc K SYS_WRITE [W fd, In buf, W (of_nat (length buf))] s"
    define t where "t = s\<lparr>pr_mem := an_mem a, pr_trace := pr_trace s @ [write_event fd buf]\<rparr>"
    have w: "libc_write K fd buf s = (Ok (decode_ret (an_x0 a) (an_carry a)), t)"
      by (simp add: libc_write_eq a_def t_def Let_def)
    have acc: "an_carry a = 0 \<and> an_x0 a \<noteq> 0 \<and> unat (an_x0 a) \<le> length buf" if "accepts_writes K"
      using that False by (simp add: accepts_writes_def a_def Let_def)
    show ?thesis
    proof (cases "an_carry a = 0 \<and> an_x0 a \<noteq> 0 \<and> unat (an_x0 a) \<le> length buf")
      case stop: False
      then have "\<not> accepts_writes K" using acc by blast
      moreover have "s' = t \<and> r \<noteq> Diverge \<and> (\<forall>e. r \<noteq> Err e)"
        using 1(2) False stop w
        by (subst (asm) write_all.simps) (auto simp: io_bind_def decode_ret_def split: if_split_asm)
      ultimately show ?thesis
        using False by (intro exI [of _ "[buf]"]) (auto simp: t_def intro: exI [of _ 0])
    next
      case go: True
      let ?n = "unat (an_x0 a)"
      have rest: "write_all K fd (drop ?n buf) t = (r, s')"
        using 1(2) False go w
        by (subst (asm) write_all.simps) (auto simp: io_bind_def decode_ret_def split: if_split_asm)
      have n: "0 < ?n" using go by (simp add: unat_gt_0)
      have "\<exists>bs. pr_trace s' = pr_trace t @ map (write_event fd) bs \<and> [] \<notin> set bs \<and>
       (bs = [] \<longleftrightarrow> drop ?n buf = []) \<and> (drop ?n buf \<noteq> [] \<longrightarrow> hd bs = drop ?n buf) \<and>
       sorted_wrt (\<lambda>a b. \<exists>n > 0. b = drop n a) bs \<and> (\<forall>b \<in> set bs. \<exists>n. b = drop n (drop ?n buf)) \<and>
       r \<noteq> Diverge \<and> (\<forall>e. r \<noteq> Err e) \<and> (accepts_writes K \<longrightarrow> r = Ok (Inr ()))"
        by (rule 1(1) [OF False w _ _ _ rest]) (use go in \<open>auto simp: decode_ret_def\<close>)
      then obtain bs where bs: "pr_trace s' = pr_trace t @ map (write_event fd) bs" "[] \<notin> set bs"
        "sorted_wrt (\<lambda>a b. \<exists>n > 0. b = drop n a) bs" "\<forall>b \<in> set bs. \<exists>n. b = drop n (drop ?n buf)"
        "r \<noteq> Diverge" "\<forall>e. r \<noteq> Err e" "accepts_writes K \<longrightarrow> r = Ok (Inr ())" by blast
      have "\<forall>b \<in> set bs. \<exists>n > 0. b = drop n buf"
        using bs(4) n by (metis drop_drop add_gr_0)
      with bs False show ?thesis
        by (intro exI [of _ "buf # bs"]) (auto simp: t_def intro: exI [of _ 0])
    qed
  qed
qed

text \<open>C32: output. Writing a buffer always ends; what it asks the kernel are writes to the one descriptor,
  the first of the whole buffer, each later one of a strictly shorter rest of the buffer and never an
  empty one, and with a kernel that takes some of every write it succeeds.\<close>

theorem write_all_exact:
  assumes "write_all K fd buf s = (r, s')"
  shows "\<exists>bs. pr_trace s' = pr_trace s @ map (write_event fd) bs \<and> [] \<notin> set bs \<and>
    (buf \<noteq> [] \<longrightarrow> bs \<noteq> [] \<and> hd bs = buf) \<and> sorted_wrt (\<lambda>a b. \<exists>n > 0. b = drop n a) bs \<and>
    r \<noteq> Diverge \<and> (accepts_writes K \<longrightarrow> r = Ok (Inr ()))"
  using write_all_trace [OF assms] by blast

text \<open>A kernel that takes one byte of every write and refuses everything else.\<close>

definition byte_kernel :: machine where
  "byte_kernel = \<lparr>svc = (\<lambda>n args s. \<lparr>an_x0 = 1, an_carry = (if n = SYS_WRITE then 0 else 1), an_out = [], an_mem = pr_mem s\<rparr>),
     run_code = (\<lambda>_ _ s. pr_mem s), tlv_initialize = (\<lambda>_ s. pr_mem s), null_array = 0\<rparr>"

theorem write_all_exact_witness:
  "fst (write_all byte_kernel 2 [1, 2, 3] \<lparr>pr_mem = (\<lambda>_. 0), pr_trace = []\<rparr>) = Ok (Inr ())"
proof -
  have "1 \<le> length b" if "b \<noteq> []" for b :: bytes
    using that by (cases b) auto
  then have "accepts_writes byte_kernel" by (simp add: accepts_writes_def byte_kernel_def Let_def)
  obtain r s' where r: "write_all byte_kernel 2 [1, 2, 3] \<lparr>pr_mem = (\<lambda>_. 0), pr_trace = []\<rparr> = (r, s')" by fastforce
  from write_all_exact [OF r] r \<open>accepts_writes byte_kernel\<close> show ?thesis by auto
qed

definition after_svc :: "machine \<Rightarrow> usize \<Rightarrow> arg list \<Rightarrow> proc \<Rightarrow> proc" where
  "after_svc K n args s = s\<lparr>pr_mem := an_mem (svc K n args s), pr_trace := pr_trace s @ [Svc n args]\<rparr>"

lemma after_svc_trace [simp]: "pr_trace (after_svc K n args s) = pr_trace s @ [Svc n args]"
  by (simp add: after_svc_def)

lemma syscall_run:
  "syscall K n args s = (Ok (decode_ret (an_x0 (svc K n args s)) (an_carry (svc K n args s)), an_out (svc K n args s)),
     after_svc K n args s)"
  "syscall_ret K n args s = (Ok (decode_ret (an_x0 (svc K n args s)) (an_carry (svc K n args s))), after_svc K n args s)"
  by (simp_all add: syscall_ret_def syscall_def after_svc_def io_bind_def Let_def)

lemmas syscall_wrappers = syscall0_def syscall1_def syscall2_def syscall3_def syscall4_def syscall5_def
  syscall6_def syscall2_out_def syscall4_out_def

lemma vm_alloc_run:
  "vm_alloc_task_self K sz s = (r, s') \<Longrightarrow>
     \<exists>port x. s' = after_svc K TRAP_KERNELRPC_MACH_VM_ALLOCATE [W (ucast (port :: u32)), Out 8, W sz, W 1]
                 (after_svc K TRAP_TASK_SELF [] s) \<and> r = Ok x \<and> (\<forall>p. x = Inr p \<longrightarrow> p \<noteq> 0)"
  by (auto simp: vm_alloc_task_self_def task_self_internal_def vm_allocate_internal_def syscall_wrappers syscall_run
      io_bind_def VM_FLAGS_ANYWHERE_def)

text \<open>The offsets \<open>file_of_bytes\<close> reads at are those of the layout: each field at the next multiple of
  its alignment.\<close>

lemma file_layout_offsets:
  "size_of file_layout = 144" "fields_end 0 (take 15 file_layout) = 96"
  by (simp_all add: size_of_def file_layout_def round_up_def)

lemma mmap_file_run:
  "mmap_file K len prot flags fd offset s = (r, s') \<Longrightarrow> flags = MAP_PRIVATE \<Longrightarrow>
     (\<exists>x. r = Ok x \<and> (\<forall>p. x = Inr p \<longrightarrow> p \<noteq> 0 \<and> p \<noteq> MAP_FAILED)) \<and>
     (if len = 0 then s' = s \<and> (\<exists>e. r = Ok (Inl e))
      else s' = after_svc K SYS_MMAP [W 0, W len, W (scast prot), W (scast flags), W (scast fd), W offset] s)"
  by (auto simp: mmap_file_def mmap_internal_def syscall_wrappers syscall_run io_bind_def Let_def decode_ret_def
      mapped_non_null_def const_defs split: if_split_asm sum.split_asm)

lemma mmap_file_answers:
  "mmap_file K len prot MAP_PRIVATE fd 0 s =
     (let args = [W 0, W len, W (scast prot), W 2, W (scast fd), W 0]; a = svc K SYS_MMAP args s in
      if len = 0 then (Ok (Inl 22), s)
      else (Ok (if an_carry a \<noteq> 0 then Inl (ucast (an_x0 a)) else if an_x0 a = MAP_FAILED then Inl 0
          else if an_x0 a = 0 then Inl 22 else Inr (an_x0 a)), after_svc K SYS_MMAP args s))"
  by (simp add: mmap_file_def mmap_internal_def syscall_wrappers syscall_run io_bind_def Let_def decode_ret_def
      mapped_non_null_def const_defs)

lemma io_bind_run:
  "m s = (Ok x, t) \<Longrightarrow> io_bind m f s = f x t"
  "m' s = (Ok r, t) \<Longrightarrow> io_bind (io_try e m') g s = (case r of Inl _ \<Rightarrow> (Err e, t) | Inr x \<Rightarrow> g x t)"
  "io_bind (Pair (Ok x)) h s = h x s" "io_bind (Pair (Err e)) h s = (Err e, s)"
  by (auto simp: io_bind_def io_try_def split: sum.split)

text \<open>C33: mapping a library file. It is opened, its size read and as many bytes mapped, each call made only
  after the one before succeeded and each failure with its own error; a file of size 0 is not mapped. The
  calls use what the kernel answered: the descriptor of the open file, the size the file has, at offset
  96 of what \<open>fstat\<close> left. On success the container holds, little endian, that many bytes of the memory at the
  address the mapping was given, which is neither null nor \<open>MAP_FAILED\<close>. The descriptor is not closed.\<close>

theorem disk_path_mmap_exact:
  "disk_path_mmap K path s =
     (let open_args = [In path, W 0, W 0]; opened = svc K SYS_OPEN open_args s; s1 = after_svc K SYS_OPEN open_args s;
          fd = ucast (an_x0 opened) :: u32;
          stat_args = [W (ucast fd), Out 144]; stat = svc K SYS_FSTAT stat_args s1; s2 = after_svc K SYS_FSTAT stat_args s1;
          sz = of_nat (le_nat (take 8 (drop 96 (an_out stat)))) :: usize;
          map_args = [W 0, W sz, W 3, W 2, W (scast (ucast fd :: i32)), W 0];
          mapped = svc K SYS_MMAP map_args s2; s3 = after_svc K SYS_MMAP map_args s2; p = an_x0 mapped
      in if an_carry opened \<noteq> 0 then (Err Open_Failed, s1)
         else if an_carry stat \<noteq> 0 then (Err Stat_Failed, s2)
         else if sz = 0 then (Err Mmap_Failed, s2)
         else if an_carry mapped \<noteq> 0 \<or> p = 0 \<or> p = - 1 then (Err Mmap_Failed, s3)
         else (Ok (with_bytes (raw_slice (pr_mem s3) p sz) Little, p), s3))"
proof -
  define opened where "opened = svc K SYS_OPEN [In path, W 0, W 0] s"
  define s1 where "s1 = after_svc K SYS_OPEN [In path, W 0, W 0] s"
  define fd where "fd = (ucast (an_x0 opened) :: u32)"
  define stat where "stat = svc K SYS_FSTAT [W (ucast fd), Out 144] s1"
  define s2 where "s2 = after_svc K SYS_FSTAT [W (ucast fd), Out 144] s1"
  define sz where "sz = (of_nat (le_nat (take 8 (drop 96 (an_out stat)))) :: usize)"
  have prot: "PROT_READ OR PROT_WRITE = 3" "scast (3 :: i32) = (3 :: usize)" by (simp_all add: const_defs)
  have 1: "libc_open K path O_RDONLY 0 s = (Ok (decode_ret (an_x0 opened) (an_carry opened)), s1)"
    by (simp add: libc_open_def syscall_wrappers syscall_run O_RDONLY_def opened_def s1_def)
  have 2: "libc_fstat K (ucast fd) s1 = (Ok (decode_ret (an_x0 stat) (an_carry stat), file_of_bytes (an_out stat)), s2)"
    by (simp add: libc_fstat_def syscall_wrappers syscall_run io_bind_def file_layout_offsets stat_def s2_def)
  have 3: "st_size (file_of_bytes (an_out stat)) = sz" by (simp add: file_of_bytes_def field_at_def sz_def)
  have "disk_path_mmap K path s =
     (if an_carry opened \<noteq> 0 then (Err Open_Failed, s1)
      else if an_carry stat \<noteq> 0 then (Err Stat_Failed, s2)
      else io_bind (io_try Mmap_Failed (mmap_file K sz 3 MAP_PRIVATE (ucast fd) 0)) (\<lambda>p s.
        (Ok (with_bytes (raw_slice (pr_mem s) p sz) Little, p), s)) s2)"
    unfolding disk_path_mmap_def io_bind_run(2) [where m' = "libc_open K path O_RDONLY 0" and s = s, OF 1] decode_ret_def
    by (simp add: Let_def io_bind_run(1) [where m = "libc_fstat K (ucast fd)" and s = s1, OF 2] io_try_def [of Stat_Failed] decode_ret_def io_bind_run(3,4) 3 prot flip: fd_def)
  then show ?thesis
    unfolding Let_def opened_def [symmetric] s1_def [symmetric] fd_def [symmetric] stat_def [symmetric] s2_def [symmetric] sz_def [symmetric]
    by (simp add: io_bind_def io_try_def mmap_file_answers MAP_FAILED_def prot Let_def)
qed

end
