(* ===== verification/Loader.thy ===== *)
theory Loader
  imports Process
begin

text \<open>
  \<open>src/src/loader.rs\<close>, the linking half: mapping the segments, loading the libraries recursively,
  applying the fixups, and bringing the image to life (thread locals, protections, initializers). The
  recursion over the libraries is not bounded by the code, so it takes fuel; \<open>Diverge\<close> is a call that
  is still going when the fuel is used up.
\<close>

section \<open>Mapping the segments\<close>

definition PAGE_ZERO_SIZE :: usize where
  "PAGE_ZERO_SIZE = 0x100000000"

fun segments_span :: "bool \<Rightarrow> segment list \<Rightarrow> u64 \<times> u64 \<Rightarrow> (u64 \<times> u64) res" where
  "segments_span oc [] acc = Ok acc"
| "segments_span oc (g # gs) (lo, hi) =
     rbind (wadd oc (sm_vm_addr g) (sm_vm_size g)) (\<lambda>e.
     segments_span oc gs (min lo (sm_vm_addr g), max hi e))"

fun copy_loop :: "bool \<Rightarrow> usize \<Rightarrow> usize \<Rightarrow> segment list \<Rightarrow> unit io" where
  "copy_loop skip_page_zero base vm [] = io_ok ()"
| "copy_loop skip_page_zero base vm (g # gs) =
     (if skip_page_zero \<and> sm_vm_addr g = 0 then copy_loop skip_page_zero base vm gs
      else io_bind (vm_copy_into_task_self (base + sm_file_offset g) (vm + sm_vm_addr g) (sm_vm_size g)) (\<lambda>_.
           copy_loop skip_page_zero base vm gs))"

text \<open>\<open>base\<close> is the address of the image's bytes.\<close>

definition macho_segments_map_to_vm ::
  "bool \<Rightarrow> machine \<Rightarrow> bool \<Rightarrow> usize \<Rightarrow> segment list \<Rightarrow> (usize \<times> usize) io" where
  "macho_segments_map_to_vm oc K skip_page_zero base segments =
     io_bind (io_lift (segments_span oc segments (- 1, 0))) (\<lambda>(min_addr, max_addr).
     io_bind (io_lift (wsub oc max_addr min_addr)) (\<lambda>vm_size.
     io_bind (io_try Vm_Alloc_Failed (vm_alloc_task_self K vm_size)) (\<lambda>vm.
     io_bind (copy_loop skip_page_zero base vm segments) (\<lambda>_.
     io_ok (vm, vm_size)))))"

section \<open>Bringing an image to life\<close>

text \<open>Both protections of one segment, the maximum first.\<close>

definition segment_protect :: "machine \<Rightarrow> usize \<Rightarrow> segment \<Rightarrow> bool \<Rightarrow> unit io" where
  "segment_protect K vm g set_max =
     io_try Vm_Protect_Failed (vm_protect K (vm + sm_vm_addr g) (sm_vm_size g) (of_bool set_max) (sm_prot g))"

fun macho_segments_vm_protect :: "machine \<Rightarrow> usize \<Rightarrow> segment list \<Rightarrow> unit io" where
  "macho_segments_vm_protect K vm [] = io_ok ()"
| "macho_segments_vm_protect K vm (g # gs) =
     io_bind (segment_protect K vm g True) (\<lambda>_.
     io_bind (segment_protect K vm g False) (\<lambda>_.
     macho_segments_vm_protect K vm gs))"

fun macho_init_functions_exec :: "machine \<Rightarrow> usize \<Rightarrow> usize list \<Rightarrow> unit io" where
  "macho_init_functions_exec K vm [] = io_ok ()"
| "macho_init_functions_exec K vm (func # fs) =
     io_bind (entry_and_ret K (vm + func + PAGE_ZERO_SIZE) 0 (null_array K) (null_array K) (null_array K)) (\<lambda>_.
     macho_init_functions_exec K vm fs)"

definition macho_tlv_initialize :: "machine \<Rightarrow> usize \<Rightarrow> unit io" where
  "macho_tlv_initialize K vm = tlv_initialize_descriptors_export K (vm + PAGE_ZERO_SIZE)"

definition image_finalize :: "machine \<Rightarrow> usize \<Rightarrow> parsed_image \<Rightarrow> bool \<Rightarrow> unit io" where
  "image_finalize K vm p is_executable =
     io_bind (if is_executable \<and> pi_has_thread_locals p then macho_tlv_initialize K vm else io_ok ()) (\<lambda>_.
     io_bind (io_lift (fv_deref (pi_segments p))) (\<lambda>segments.
     io_bind (macho_segments_vm_protect K vm segments) (\<lambda>_.
     macho_init_functions_exec K vm (pi_init_functions p))))"

definition image_fixups_apply ::
  "env \<Rightarrow> usize \<Rightarrow> parsed_image \<Rightarrow> library list \<Rightarrow> shared_cache \<Rightarrow> bool \<Rightarrow> unit io" where
  "image_fixups_apply E vm p dependencies cache is_executable s =
     (let fixup_base_offset = if is_executable then PAGE_ZERO_SIZE else 0 in
      case fixup_all_chained_fixups E vm fixup_base_offset (pi_symbols p) dependencies (Some cache) False
             (pi_fixups p) (pr_mem s) of
        Ok m \<Rightarrow> (Ok (), s\<lparr>pr_mem := m\<rparr>)
      | Err e \<Rightarrow> (Err e, s) | Panic q \<Rightarrow> (Panic q, s) | Diverge \<Rightarrow> (Diverge, s))"

section \<open>The loader\<close>

text \<open>\<open>load\<close> is the recursive call on a mapped library: its container, the address of its bytes and its
  path. A loaded library is the bytes of its region at the address of the region.\<close>

fun user_dylibs_loop ::
  "machine \<Rightarrow> (container \<Rightarrow> usize \<Rightarrow> bytes \<Rightarrow> (usize \<times> usize) io) \<Rightarrow> bytes \<Rightarrow> rpath option \<Rightarrow> (bytes \<times> bool) list \<Rightarrow>
     library list \<Rightarrow> library list io" where
  "user_dylibs_loop K load exec_dir rp [] loaded = io_ok loaded"
| "user_dylibs_loop K load exec_dir rp ((install_name, is_system_dylib) # deps) loaded =
     (if is_system_dylib then user_dylibs_loop K load exec_dir rp deps (loaded @ [System install_name])
      else
        io_bind (io_lift (user_dylib_disk_path_resolve install_name rp exec_dir)) (\<lambda>dylib_path.
        io_bind (disk_path_mmap K dylib_path) (\<lambda>(c, base).
        io_bind (load c base dylib_path) (\<lambda>(vm, vm_size) s.
        user_dylibs_loop K load exec_dir rp deps
          (loaded @ [User (with_bytes (raw_slice (pr_mem s) vm vm_size) Little) vm]) s))))"

definition user_dylibs_load_recursively ::
  "machine \<Rightarrow> (container \<Rightarrow> usize \<Rightarrow> bytes \<Rightarrow> (usize \<times> usize) io) \<Rightarrow> (bytes \<times> bool) fixed_vec \<Rightarrow> bytes \<Rightarrow> rpath option \<Rightarrow>
     library list io" where
  "user_dylibs_load_recursively K load dependencies exec_dir rp =
     io_bind (io_lift (fv_deref dependencies)) (\<lambda>deps. user_dylibs_loop K load exec_dir rp deps [])"

fun macho_loader ::
  "env \<Rightarrow> machine \<Rightarrow> nat \<Rightarrow> shared_cache \<Rightarrow> container \<Rightarrow> usize \<Rightarrow> bytes \<Rightarrow> bytes option \<Rightarrow> (usize \<times> usize) io" where
  "macho_loader E K 0 cache img base exec_dir dylib_dir = io_lift Diverge"
| "macho_loader E K (Suc fuel) cache img base exec_dir dylib_dir =
     (let is_executable = (dylib_dir = None); oc = overflow_checks E in
      io_bind (io_lift (macho_parser E img)) (\<lambda>p.
      io_bind (io_lift (dependencies_collect oc p cache)) (\<lambda>dependencies.
      io_bind (user_dylibs_load_recursively K
          (\<lambda>c b path. macho_loader E K fuel cache c b exec_dir (Some path)) dependencies exec_dir (pi_rpath p)) (\<lambda>dylib_images.
      io_bind (io_lift (fv_deref (pi_segments p))) (\<lambda>segments.
      io_bind (macho_segments_map_to_vm oc K is_executable base segments) (\<lambda>(vm, vm_size).
      io_bind (image_fixups_apply E vm p dylib_images cache is_executable) (\<lambda>_.
      io_bind (image_finalize K vm p is_executable) (\<lambda>_.
      io_ok (case dylib_dir of
          Some _ \<Rightarrow> (vm, vm_size)
        | None \<Rightarrow> (vm, vm + pi_entry_point p + PAGE_ZERO_SIZE))))))))))"


section \<open>What the mapping does\<close>

definition covers :: "usize \<Rightarrow> usize \<Rightarrow> segment \<Rightarrow> bool" where
  "covers vm x g \<longleftrightarrow> unat (x - (vm + sm_vm_addr g)) < unat (sm_vm_size g)"

definition source_of :: "usize \<Rightarrow> usize \<Rightarrow> usize \<Rightarrow> segment \<Rightarrow> usize" where
  "source_of base vm x g = base + sm_file_offset g + (x - (vm + sm_vm_addr g))"

definition copied_segments :: "bool \<Rightarrow> segment list \<Rightarrow> segment list" where
  "copied_segments skip_page_zero gs = filter (\<lambda>g. \<not> (skip_page_zero \<and> sm_vm_addr g = 0)) gs"

text \<open>The memory with the segments in place: a byte comes from the last segment that covers it.\<close>

definition laid_out :: "usize \<Rightarrow> usize \<Rightarrow> segment list \<Rightarrow> mem \<Rightarrow> mem" where
  "laid_out base vm gs m x =
     (case filter (covers vm x) gs of [] \<Rightarrow> m x | hs \<Rightarrow> m (source_of base vm x (last hs)))"

text \<open>No byte that is still to be read lies where a segment is copied to.\<close>

definition sources_apart :: "usize \<Rightarrow> usize \<Rightarrow> segment list \<Rightarrow> bool" where
  "sources_apart base vm gs \<longleftrightarrow> (\<forall>g \<in> set gs. \<forall>h \<in> set gs. \<forall>x. covers vm x g \<longrightarrow> \<not> covers vm (source_of base vm x g) h)"

lemma laid_out_Cons:
  assumes "sources_apart base vm (g # gs)"
  shows "laid_out base vm gs (copy_bytes (base + sm_file_offset g) (vm + sm_vm_addr g) (sm_vm_size g) m) =
    laid_out base vm (g # gs) m"
proof
  fix x
  let ?m = "copy_bytes (base + sm_file_offset g) (vm + sm_vm_addr g) (sm_vm_size g) m"
  have m: "?m y = (if covers vm y g then m (source_of base vm y g) else m y)" for y
    by (simp add: copy_bytes_def covers_def source_of_def)
  show "laid_out base vm gs ?m x = laid_out base vm (g # gs) m x"
  proof (cases "filter (covers vm x) gs")
    case Nil
    then show ?thesis by (simp add: laid_out_def m)
  next
    case (Cons h hs)
    then have "last (h # hs) \<in> set (filter (covers vm x) gs)" by (metis last_in_set list.distinct(1))
    with assms have "\<not> covers vm (source_of base vm x (last (h # hs))) g"
      by (auto simp: sources_apart_def)
    with Cons show ?thesis by (simp add: laid_out_def m)
  qed
qed

lemma copy_loop_run:
  "sources_apart base vm (copied_segments skip gs) \<Longrightarrow>
     copy_loop skip base vm gs s = (Ok (), s\<lparr>pr_mem := laid_out base vm (copied_segments skip gs) (pr_mem s)\<rparr>)"
proof (induction gs arbitrary: s)
  case Nil
  have "laid_out base vm [] m = m" for m by (simp add: laid_out_def fun_eq_iff)
  then show ?case by (simp add: copied_segments_def)
next
  case (Cons g gs)
  show ?case
  proof (cases "skip \<and> sm_vm_addr g = 0")
    case True
    with Cons show ?thesis by (simp add: copied_segments_def)
  next
    case False
    then have c: "copied_segments skip (g # gs) = g # copied_segments skip gs" by (auto simp: copied_segments_def)
    with Cons.prems have "sources_apart base vm (copied_segments skip gs)" by (simp add: sources_apart_def)
    note IH = Cons.IH [OF this]
    from False have "copy_loop skip base vm (g # gs) s =
      copy_loop skip base vm gs (s\<lparr>pr_mem := copy_bytes (base + sm_file_offset g) (vm + sm_vm_addr g) (sm_vm_size g) (pr_mem s)\<rparr>)"
      by (auto simp: io_bind_def vm_copy_into_task_self_def)
    also have "\<dots> = (Ok (), s\<lparr>pr_mem := laid_out base vm (copied_segments skip (g # gs)) (pr_mem s)\<rparr>)"
      using Cons.prems c by (simp add: IH laid_out_Cons)
    finally show ?thesis .
  qed
qed

lemma segments_span_run:
  "segments_span True gs (lo, hi) = Ok (lo', hi') \<Longrightarrow>
     (\<forall>g \<in> set gs. unat (sm_vm_addr g) + unat (sm_vm_size g) < 2 ^ 64) \<and>
     unat lo' = Min (insert (unat lo) ((\<lambda>g. unat (sm_vm_addr g)) ` set gs)) \<and>
     unat hi' = Max (insert (unat hi) ((\<lambda>g. unat (sm_vm_addr g) + unat (sm_vm_size g)) ` set gs))"
proof (induction gs arbitrary: lo hi)
  case Nil
  then show ?case by simp
next
  case (Cons g gs)
  then have fits: "unat (sm_vm_addr g) + unat (sm_vm_size g) < 2 ^ 64"
    and rest: "segments_span True gs (min lo (sm_vm_addr g), max hi (sm_vm_addr g + sm_vm_size g)) = Ok (lo', hi')"
    by (auto simp: res_simps wadd_Ok_iff)
  have mm: "unat (min lo (sm_vm_addr g)) = min (unat lo) (unat (sm_vm_addr g))"
    "unat (max hi (sm_vm_addr g + sm_vm_size g)) = max (unat hi) (unat (sm_vm_addr g) + unat (sm_vm_size g))"
    using fits by (auto simp: min_def max_def word_le_nat_alt unat_add_fits)
  have set: "insert (min a b) A = insert (min a b) A" for a b :: nat and A ..
  have "Min (insert (min a b) A) = Min (insert a (insert b A))" "Max (insert (max a b) A) = Max (insert a (insert b A))"
    if "finite A" for a b :: nat and A
    using that by (cases "A = {}"; simp add: min.assoc max.assoc)+
  with Cons.IH [OF rest] fits mm show ?case by simp
qed

text \<open>The calls that protect a segment, with the task port the kernel gives before each.\<close>

definition protect_events :: "usize \<Rightarrow> segment \<times> bool \<Rightarrow> u32 \<Rightarrow> event list" where
  "protect_events vm gb port = (case gb of (g, set_max) \<Rightarrow>
     [Svc TRAP_TASK_SELF [],
      Svc TRAP_KERNELRPC_MACH_VM_PROTECT
        [W (ucast port), W (vm + sm_vm_addr g), W (sm_vm_size g), W (of_bool set_max), W (ucast (sm_prot g))]])"

definition protect_order :: "segment list \<Rightarrow> (segment \<times> bool) list" where
  "protect_order gs = concat (map (\<lambda>g. [(g, True), (g, False)]) gs)"

text \<open>The arguments of the call that protects a segment, and what the kernel makes of the calls: each is made
  in the state the one before left, with the port it has just given, up to the first it refuses.\<close>

definition protect_args :: "usize \<Rightarrow> segment \<times> bool \<Rightarrow> u32 \<Rightarrow> arg list" where
  "protect_args vm gb port =
     [W (ucast port), W (vm + sm_vm_addr (fst gb)), W (sm_vm_size (fst gb)), W (of_bool (snd gb)), W (ucast (sm_prot (fst gb)))]"

inductive protected :: "machine \<Rightarrow> usize \<Rightarrow> (segment \<times> bool) list \<Rightarrow> proc \<Rightarrow> u32 list \<Rightarrow> bool \<Rightarrow> proc \<Rightarrow> bool" for K vm where
  all: "protected K vm [] s [] True s"
| granted: "port = ucast (an_x0 (svc K TRAP_TASK_SELF [] s)) \<Longrightarrow> s1 = after_svc K TRAP_TASK_SELF [] s \<Longrightarrow>
    (ucast (an_x0 (svc K TRAP_KERNELRPC_MACH_VM_PROTECT (protect_args vm gb port) s1)) :: i32) = 0 \<Longrightarrow>
    protected K vm gbs (after_svc K TRAP_KERNELRPC_MACH_VM_PROTECT (protect_args vm gb port) s1) ports b t \<Longrightarrow>
    protected K vm (gb # gbs) s (port # ports) b t"
| refused: "port = ucast (an_x0 (svc K TRAP_TASK_SELF [] s)) \<Longrightarrow> s1 = after_svc K TRAP_TASK_SELF [] s \<Longrightarrow>
    (ucast (an_x0 (svc K TRAP_KERNELRPC_MACH_VM_PROTECT (protect_args vm gb port) s1)) :: i32) \<noteq> 0 \<Longrightarrow>
    protected K vm (gb # gbs) s [port] False (after_svc K TRAP_KERNELRPC_MACH_VM_PROTECT (protect_args vm gb port) s1)"

inductive_cases protected_ConsE: "protected K vm (gb # gbs) s ports b t"

lemma segment_protect_answer:
  defines "port \<equiv> \<lambda>K s. ucast (an_x0 (svc K TRAP_TASK_SELF [] s))"
  shows "segment_protect K vm g b s =
    (let s1 = after_svc K TRAP_TASK_SELF [] s; args = protect_args vm (g, b) (port K s) in
     (if (ucast (an_x0 (svc K TRAP_KERNELRPC_MACH_VM_PROTECT args s1)) :: i32) = 0 then Ok () else Err Vm_Protect_Failed,
      after_svc K TRAP_KERNELRPC_MACH_VM_PROTECT args s1))"
proof -
  have ret: "(case decode_ret v c of Inl v \<Rightarrow> ucast v | Inr v \<Rightarrow> ucast v) = ucast v" for v c by (simp add: decode_ret_def)
  show ?thesis
    by (simp add: segment_protect_def vm_protect_def task_self_internal_def vm_protect_internal_def syscall_wrappers
        syscall_run io_bind_def io_try_def io_lift_def io_ok_def Let_def port_def protect_args_def kr_def ret KERN_SUCCESS_def)
qed

text \<open>Protecting the segments is protecting them in that order, to the first refusal.\<close>

lemma segments_protected:
  "\<exists>ports b t. protected K vm (protect_order gs) s ports b t \<and>
     macho_segments_vm_protect K vm gs s = (if b then Ok () else Err Vm_Protect_Failed, t)"
proof (induction gs arbitrary: s)
  case Nil
  show ?case using all [of K vm s] by (force simp: protect_order_def)
next
  case (Cons g gs)
  have order: "protect_order (g # gs) = (g, True) # (g, False) # protect_order gs" by (simp add: protect_order_def)
  define s1 where "s1 = after_svc K TRAP_TASK_SELF [] s"
  define p1 where "p1 = (ucast (an_x0 (svc K TRAP_TASK_SELF [] s)) :: u32)"
  define a1 where "a1 = (ucast (an_x0 (svc K TRAP_KERNELRPC_MACH_VM_PROTECT (protect_args vm (g, True) p1) s1)) :: i32)"
  define s2 where "s2 = after_svc K TRAP_KERNELRPC_MACH_VM_PROTECT (protect_args vm (g, True) p1) s1"
  have 1: "segment_protect K vm g True s = (if a1 = 0 then Ok () else Err Vm_Protect_Failed, s2)"
    by (simp add: segment_protect_answer Let_def s1_def s2_def p1_def a1_def)
  define s3 where "s3 = after_svc K TRAP_TASK_SELF [] s2"
  define p2 where "p2 = (ucast (an_x0 (svc K TRAP_TASK_SELF [] s2)) :: u32)"
  define a2 where "a2 = (ucast (an_x0 (svc K TRAP_KERNELRPC_MACH_VM_PROTECT (protect_args vm (g, False) p2) s3)) :: i32)"
  define s4 where "s4 = after_svc K TRAP_KERNELRPC_MACH_VM_PROTECT (protect_args vm (g, False) p2) s3"
  have 2: "segment_protect K vm g False s2 = (if a2 = 0 then Ok () else Err Vm_Protect_Failed, s4)"
    by (simp add: segment_protect_answer Let_def s3_def s4_def p2_def a2_def)
  note go = granted [OF p1_def s1_def, where vm = vm and gb = "(g, True)", folded a1_def s2_def]
  have run: "macho_segments_vm_protect K vm (g # gs) s =
     (if a1 \<noteq> 0 then (Err Vm_Protect_Failed, s2) else if a2 \<noteq> 0 then (Err Vm_Protect_Failed, s4)
      else macho_segments_vm_protect K vm gs s4)"
    using 1 2 by (simp add: io_bind_def)
  consider "a1 \<noteq> 0" | "a1 = 0" "a2 \<noteq> 0" | "a1 = 0" "a2 = 0" by blast
  then show ?case
  proof cases
    case 1
    have "protected K vm (protect_order (g # gs)) s [p1] False s2"
      unfolding order by (rule refused [OF p1_def s1_def 1 [unfolded a1_def], folded s2_def])
    with 1 show ?thesis unfolding run by (intro exI [of _ "[p1]"] exI [of _ False] exI [of _ s2]) simp
  next
    case 2
    have "protected K vm (protect_order (g # gs)) s [p1, p2] False s4"
      unfolding order by (rule go [OF 2(1) refused [OF p2_def s3_def 2(2) [unfolded a2_def], folded s4_def]])
    with 2 show ?thesis unfolding run by (intro exI [of _ "[p1, p2]"] exI [of _ False] exI [of _ s4]) simp
  next
    case 3
    obtain ports b t where "protected K vm (protect_order gs) s4 ports b t"
      "macho_segments_vm_protect K vm gs s4 = (if b then Ok () else Err Vm_Protect_Failed, t)" using Cons by blast
    moreover from this(1) have "protected K vm (protect_order (g # gs)) s (p1 # p2 # ports) b t"
      unfolding order by (rule go [OF 3(1) granted [OF p2_def s3_def 3(2) [unfolded a2_def], folded s4_def]])
    ultimately show ?thesis using 3 unfolding run by (intro exI [of _ "p1 # p2 # ports"] exI [of _ b] exI [of _ t]) simp
  qed
qed

lemma protected_trace:
  "protected K vm gbs s ports b t \<Longrightarrow> pr_trace t = pr_trace s @ concat (map2 (protect_events vm) gbs ports) \<and>
     length ports \<le> length gbs \<and> (if b then length ports = length gbs else ports \<noteq> [])"
  by (induction rule: protected.induct) (auto simp: protect_events_def protect_args_def split: prod.split)

lemma vm_protect_all_run:
  assumes "macho_segments_vm_protect K vm gs s = (r, s')"
  shows "\<exists>ports. pr_trace s' = pr_trace s @ concat (map2 (protect_events vm) (protect_order gs) ports) \<and>
     length ports \<le> length (protect_order gs) \<and>
     (r = Ok () \<and> length ports = length (protect_order gs) \<or> r = Err Vm_Protect_Failed \<and> ports \<noteq> [])"
proof -
  obtain ports b t where "protected K vm (protect_order gs) s ports b t" "r = (if b then Ok () else Err Vm_Protect_Failed)" "s' = t"
    using segments_protected [of K vm gs s] assms by auto
  with protected_trace [of K vm "protect_order gs" s ports b t] show ?thesis by (intro exI [of _ ports]) (auto split: if_split_asm)
qed

text \<open>A call of an initializer: no arguments, and arrays of one null pointer.\<close>

definition init_event :: "machine \<Rightarrow> usize \<Rightarrow> usize \<Rightarrow> event" where
  "init_event K vm f = Run (vm + f + PAGE_ZERO_SIZE) [0, null_array K, null_array K, null_array K]"

lemma init_functions_run:
  "\<exists>s'. macho_init_functions_exec K vm fs s = (Ok (), s') \<and> pr_trace s' = pr_trace s @ map (init_event K vm) fs"
proof (induction fs arbitrary: s)
  case (Cons f fs)
  let ?t = "snd (entry_and_ret K (vm + f + PAGE_ZERO_SIZE) 0 (null_array K) (null_array K) (null_array K) s)"
  from Cons [of ?t] show ?case by (auto simp: io_bind_def entry_and_ret_def init_event_def)
qed simp

lemma finalize_run:
  assumes "fv_deref (pi_segments p) = Ok gs" "image_finalize K vm p is_executable s = (r, s')"
  shows "\<exists>ports granted t. protected K vm (protect_order gs)
      (if is_executable \<and> pi_has_thread_locals p
       then snd (tlv_initialize_descriptors_export K (vm + PAGE_ZERO_SIZE) s) else s) ports granted t \<and>
    r = (if granted then Ok () else Err Vm_Protect_Failed) \<and>
    pr_trace s' = pr_trace s @
      (if is_executable \<and> pi_has_thread_locals p then [Tlv_Init (vm + PAGE_ZERO_SIZE)] else []) @
      concat (map2 (protect_events vm) (protect_order gs) ports) @
      (if granted then map (init_event K vm) (pi_init_functions p) else []) \<and>
    length ports \<le> 2 * length gs \<and> (r = Ok () \<and> length ports = 2 * length gs \<or> r = Err Vm_Protect_Failed \<and> ports \<noteq> [])"
proof -
  define t where "t = (if is_executable \<and> pi_has_thread_locals p
    then snd (tlv_initialize_descriptors_export K (vm + PAGE_ZERO_SIZE) s) else s)"
  have len: "length (protect_order gs) = 2 * length gs" by (induction gs) (simp_all add: protect_order_def)
  obtain ports granted s1 where prot: "protected K vm (protect_order gs) t ports granted s1"
    and r1: "macho_segments_vm_protect K vm gs t = (if granted then Ok () else Err Vm_Protect_Failed, s1)"
    using segments_protected by blast
  obtain s2 where r2: "macho_init_functions_exec K vm (pi_init_functions p) s1 = (Ok (), s2)"
    "pr_trace s2 = pr_trace s1 @ map (init_event K vm) (pi_init_functions p)"
    using init_functions_run by blast
  have fin: "image_finalize K vm p is_executable s = (if granted then (Ok (), s2) else (Err Vm_Protect_Failed, s1))"
    using r1 r2(1) assms(1)
    by (auto simp: image_finalize_def io_bind_def t_def macho_tlv_initialize_def tlv_initialize_descriptors_export_def)
  have tr: "pr_trace t = pr_trace s @ (if is_executable \<and> pi_has_thread_locals p then [Tlv_Init (vm + PAGE_ZERO_SIZE)] else [])"
    by (simp add: t_def tlv_initialize_descriptors_export_def)
  show ?thesis
    using prot protected_trace [OF prot] assms(2) fin tr r2(2) len unfolding t_def [symmetric]
    by (intro exI [of _ ports] exI [of _ granted] exI [of _ s1]) (auto split: if_split_asm)
qed

section \<open>Fuel\<close>

lemma io_bind_Diverge_iff:
  "fst (io_bind m f s) = Diverge \<longleftrightarrow> fst (m s) = Diverge \<or> (\<exists>x t. m s = (Ok x, t) \<and> fst (f x t) = Diverge)"
  by (cases "m s") (auto simp: io_bind_def split: res.split)

definition io_le :: "'a io \<Rightarrow> 'a io \<Rightarrow> bool" where
  "io_le f g \<longleftrightarrow> (\<forall>s. fst (f s) \<noteq> Diverge \<longrightarrow> g s = f s)"

lemma io_le_refl [simp]: "io_le f f"
  by (simp add: io_le_def)

lemma io_le_bind:
  assumes "io_le m m'" "\<And>x. io_le (f x) (f' x)"
  shows "io_le (io_bind m f) (io_bind m' f')"
  unfolding io_le_def
proof (intro allI impI)
  fix s
  assume nd: "fst (io_bind m f s) \<noteq> Diverge"
  then have "m' s = m s" using assms(1) by (simp add: io_le_def io_bind_Diverge_iff)
  with nd assms(2) show "io_bind m' f' s = io_bind m f s"
    by (auto simp: io_bind_def io_le_def split: prod.split res.split)
qed

lemma user_dylibs_loop_mono:
  assumes "\<And>c b q. io_le (load c b q) (load' c b q)"
  shows "io_le (user_dylibs_loop K load dir rp ds loaded) (user_dylibs_loop K load' dir rp ds loaded)"
proof (induction ds arbitrary: loaded)
  case (Cons d ds)
  obtain name cached where d: "d = (name, cached)" by fastforce
  have "io_le (\<lambda>s. user_dylibs_loop K load dir rp ds (g s) s) (\<lambda>s. user_dylibs_loop K load' dir rp ds (g s) s)" for g
    using Cons.IH by (simp add: io_le_def)
  with Cons.IH assms show ?case
    by (auto simp: d intro!: io_le_bind split: prod.split)
qed simp

lemma macho_loader_mono:
  "io_le (macho_loader E K n cache img base dir dd) (macho_loader E K (n + k) cache img base dir dd)"
proof (induction n arbitrary: img base dd)
  case 0
  then show ?case by (simp add: io_le_def)
next
  case (Suc n)
  have "io_le (user_dylibs_load_recursively K (\<lambda>c b path. macho_loader E K n cache c b dir (Some path)) deps dir rp)
     (user_dylibs_load_recursively K (\<lambda>c b path. macho_loader E K (n + k) cache c b dir (Some path)) deps dir rp)" for deps rp
    unfolding user_dylibs_load_recursively_def by (intro io_le_bind user_dylibs_loop_mono Suc io_le_refl)
  then show ?case
    by (simp only: macho_loader.simps add_Suc Let_def) (intro io_le_bind io_le_refl)
qed

text \<open>The paths of the libraries an image loads from disk.\<close>

definition disk_dependencies :: "env \<Rightarrow> shared_cache \<Rightarrow> bytes \<Rightarrow> container \<Rightarrow> bytes set" where
  "disk_dependencies E cache dir img = {q. \<exists>p deps ds name. macho_parser E img = Ok p \<and>
     dependencies_collect (overflow_checks E) p cache = Ok deps \<and> fv_deref deps = Ok ds \<and> (name, False) \<in> set ds \<and>
     user_dylib_disk_path_resolve name (pi_rpath p) dir = Ok q}"

text \<open>Whatever library the system maps under a path is below 4 GiB, and what it loads itself ranks lower.\<close>

definition libraries_ranked :: "env \<Rightarrow> machine \<Rightarrow> shared_cache \<Rightarrow> bytes \<Rightarrow> (bytes \<Rightarrow> nat) \<Rightarrow> bool" where
  "libraries_ranked E K cache dir rank \<longleftrightarrow> (\<forall>path s c b t. disk_path_mmap K path s = (Ok (c, b), t) \<longrightarrow>
     length (c_data c) < 2 ^ 32 \<and> (\<forall>q \<in> disk_dependencies E cache dir c. rank q < rank path))"

lemma mapping_returns: "fst (disk_path_mmap K path s) \<noteq> Diverge"
proof -
  have "fst (syscall_ret K n as t) \<noteq> Diverge" "fst (syscall K n as t) \<noteq> Diverge" for n as t
    by (simp_all add: syscall_run)
  then show ?thesis
    by (auto simp: disk_path_mmap_def io_bind_Diverge_iff io_try_def libc_open_def libc_fstat_def syscall_wrappers
        mmap_file_def mmap_internal_def io_ok_def io_lift_def Let_def split: sum.split_asm prod.split_asm if_split_asm)
qed

lemma deref_returns: "fv_deref v \<noteq> Diverge" "fs_as_str x \<noteq> Diverge"
proof -
  have "cell_slice xs i j \<noteq> Diverge" for xs :: "'c option list" and i j by (simp add: cell_slice_def)
  then show "fv_deref v \<noteq> Diverge" by (simp add: fv_deref_def)
  have "cell_slice xs i j \<noteq> Diverge" for xs :: "u8 option list" and i j by (simp add: cell_slice_def)
  then show "fs_as_str x \<noteq> Diverge" by (simp add: fs_as_str_def fv_deref_def)
qed

lemma symbol_fixups_return:
  "fixup_dylib_weak_symbol m dst off pz symbols n \<noteq> Diverge"
  "fixup_regular_symbol E m dst off pz n lib cache \<noteq> Diverge"
proof -
  have "find_map (\<lambda>sym. rbind (array_string_cmp sym n) (\<lambda>b. Ok (if b then Some sym else None))) symbols \<noteq> Diverge"
    by (rule find_map_returns) (auto simp: array_string_cmp_def rbind_Diverge_iff deref_returns)
  then show "fixup_dylib_weak_symbol m dst off pz symbols n \<noteq> Diverge"
    by (auto simp: fixup_dylib_weak_symbol_def rbind_Diverge_iff)
  show "fixup_regular_symbol E m dst off pz n lib cache \<noteq> Diverge"
    by (auto simp: fixup_regular_symbol_def Let_def rbind_Diverge_iff deref_returns dylib_symbol_resolve_returns
        symbol_resolve_def resolve_returns split: library.split option.split dylib_symbol.split)
qed

lemma fixups_return: "fixup_all_chained_fixups E dst pz symbols dylibs cache ib fs m \<noteq> Diverge"
proof (induction fs arbitrary: m)
  case (Cons f fs)
  then show ?case
    by (auto simp: fixup_all_chained_fixups.simps(2) rbind_Diverge_iff symbol_fixups_return split: fixup_kind.split)
qed simp

lemma image_steps_return:
  "fst (macho_segments_map_to_vm oc K skip base gs s) \<noteq> Diverge"
  "fst (image_fixups_apply E vm p libs cache ex s) \<noteq> Diverge"
  "fst (image_finalize K vm p ex s) \<noteq> Diverge"
proof -
  have span: "segments_span oc gs acc \<noteq> Diverge" for acc
    by (induction gs arbitrary: acc) (auto simp: rbind_Diverge_iff)
  have copy: "fst (copy_loop skip base vm gs s) \<noteq> Diverge" for vm s
    by (induction gs arbitrary: s) (auto simp: io_bind_Diverge_iff vm_copy_into_task_self_def)
  have "fst (vm_alloc_task_self K sz s) \<noteq> Diverge" for sz
    using vm_alloc_run [of K sz s] by (cases "vm_alloc_task_self K sz s") auto
  then show "fst (macho_segments_map_to_vm oc K skip base gs s) \<noteq> Diverge"
    by (auto simp: macho_segments_map_to_vm_def io_bind_Diverge_iff io_lift_def span copy io_try_def io_ok_def
        split: prod.split_asm sum.split_asm)
  show "fst (image_fixups_apply E vm p libs cache ex s) \<noteq> Diverge"
    by (auto simp: image_fixups_apply_def Let_def fixups_return split: res.split)
  show "fst (image_finalize K vm p ex s) \<noteq> Diverge"
  proof (cases "fv_deref (pi_segments p)")
    case (Ok gs)
    obtain r t where rt: "image_finalize K vm p ex s = (r, t)" by fastforce
    from finalize_run [OF Ok rt] rt show ?thesis by auto
  qed (auto simp: image_finalize_def io_bind_Diverge_iff macho_tlv_initialize_def tlv_initialize_descriptors_export_def
      deref_returns)
qed

lemma dependencies_collect_returns: "dependencies_collect oc p cache \<noteq> Diverge"
proof -
  have "dependencies_loop oc cache libs deps \<noteq> Diverge" for libs deps
    by (induction libs arbitrary: deps)
      (auto simp: rbind_Diverge_iff fv_push_def fv_try_push_def fv_is_full_def
        fv_remaining_capacity_def cell_write_def split: if_split_asm sum.split_asm)
  then show ?thesis by (simp add: dependencies_collect_def rbind_Diverge_iff deref_returns)
qed

lemma path_resolve_returns: "user_dylib_disk_path_resolve name rp dir \<noteq> Diverge"
  by (auto simp: user_dylib_disk_path_resolve_def rbind_Diverge_iff split: option.split rpath.split)

lemma user_dylibs_loop_returns:
  assumes "\<And>name q s c b t. (name, False) \<in> set ds \<Longrightarrow> user_dylib_disk_path_resolve name rp dir = Ok q \<Longrightarrow>
      disk_path_mmap K q s = (Ok (c, b), t) \<Longrightarrow> fst (load c b q t) \<noteq> Diverge"
  shows "fst (user_dylibs_loop K load dir rp ds loaded s) \<noteq> Diverge"
  using assms
proof (induction ds arbitrary: loaded s)
  case (Cons d ds)
  obtain name cached where d: "d = (name, cached)" by fastforce
  have rest: "fst (user_dylibs_loop K load dir rp ds loaded s) \<noteq> Diverge" for loaded s
    by (rule Cons.IH) (rule Cons.prems [OF list.set_intros(2)]; assumption)
  have "fst (load c b q t) \<noteq> Diverge" if "\<not> cached" "user_dylib_disk_path_resolve name rp dir = Ok q"
    "disk_path_mmap K q s = (Ok (c, b), t)" for q c b t
    by (rule Cons.prems [OF _ that(2,3)]) (use that(1) d in simp)
  with rest show ?case
    by (auto simp: d io_bind_Diverge_iff path_resolve_returns mapping_returns)
qed simp

lemma macho_loader_returns:
  assumes "scroll_bounds E" "libraries_ranked E K cache dir rank"
  shows "length (c_data img) < 2 ^ 32 \<Longrightarrow> \<forall>q \<in> disk_dependencies E cache dir img. rank q < n \<Longrightarrow>
     fst (macho_loader E K (Suc n) cache img base dir dd s) \<noteq> Diverge"
proof (induction n arbitrary: img base dd s)
  case (0 img base dd s)
  have deps: "fst (user_dylibs_load_recursively K load deps dir (pi_rpath p) t) \<noteq> Diverge"
    if "macho_parser E img = Ok p" "dependencies_collect (overflow_checks E) p cache = Ok deps" for p deps load t
    unfolding user_dylibs_load_recursively_def io_bind_Diverge_iff
  proof (clarsimp simp: deref_returns)
    fix ds
    assume "fv_deref deps = Ok ds" "fst (user_dylibs_loop K load dir (pi_rpath p) ds [] t) = Diverge"
    moreover have "fst (user_dylibs_loop K load dir (pi_rpath p) ds [] t) \<noteq> Diverge"
      by (rule user_dylibs_loop_returns) (use 0(2) that \<open>fv_deref deps = Ok ds\<close> in \<open>auto simp: disk_dependencies_def\<close>)
    ultimately show False by simp
  qed
  show ?case
    using scroll_bounds.macho_parser_total [OF assms(1) 0(1)]
    by (auto simp: Let_def io_bind_Diverge_iff dependencies_collect_returns deref_returns deps image_steps_return
        simp del: macho_loader.simps(1) split: prod.split_asm)
next
  case (Suc n img base dd s)
  have deps: "fst (user_dylibs_load_recursively K (\<lambda>c b path. macho_loader E K (Suc n) cache c b dir (Some path)) deps dir (pi_rpath p) t) \<noteq> Diverge"
    if "macho_parser E img = Ok p" "dependencies_collect (overflow_checks E) p cache = Ok deps" for p deps t
    unfolding user_dylibs_load_recursively_def io_bind_Diverge_iff
  proof (clarsimp simp: deref_returns simp del: macho_loader.simps)
    fix ds
    assume ds: "fv_deref deps = Ok ds"
      and d: "fst (user_dylibs_loop K (\<lambda>c b path. macho_loader E K (Suc n) cache c b dir (Some path)) dir (pi_rpath p) ds [] t) = Diverge"
    have "fst (user_dylibs_loop K (\<lambda>c b path. macho_loader E K (Suc n) cache c b dir (Some path)) dir (pi_rpath p) ds [] t) \<noteq> Diverge"
    proof (rule user_dylibs_loop_returns)
      fix name q s c b t'
      assume a: "(name, False) \<in> set ds" "user_dylib_disk_path_resolve name (pi_rpath p) dir = Ok q"
        "disk_path_mmap K q s = (Ok (c, b), t')"
      then have "q \<in> disk_dependencies E cache dir img" using that ds by (auto simp: disk_dependencies_def)
      then have "rank q \<le> n" using Suc.prems(2) by (simp add: less_Suc_eq_le)
      moreover have "length (c_data c) < 2 ^ 32" "\<forall>q' \<in> disk_dependencies E cache dir c. rank q' < rank q"
        using assms(2) a(3) unfolding libraries_ranked_def by blast+
      ultimately show "fst (macho_loader E K (Suc n) cache c b dir (Some q) t') \<noteq> Diverge"
        by (intro Suc.IH) fastforce+
    qed
    with d show False by simp
  qed
  show ?case
    using scroll_bounds.macho_parser_total [OF assms(1) Suc.prems(1)] deps
    by (subst macho_loader.simps) (auto simp: Let_def io_bind_Diverge_iff dependencies_collect_returns deref_returns image_steps_return
        simp del: macho_loader.simps split: prod.split_asm)
qed

section \<open>A machine with one file\<close>

text \<open>It has one file, of fewer than 256 bytes, under every path, and grants all memory it is asked for.\<close>

definition file_machine :: "bytes \<Rightarrow> machine" where
  "file_machine contents = \<lparr>svc = (\<lambda>n args s. \<lparr>an_x0 = (if n = SYS_OPEN then 3 else if n = SYS_MMAP then 0x10000 else 0),
       an_carry = 0,
       an_out = (if n = SYS_FSTAT then replicate 96 0 @ of_nat (length contents) # replicate 47 0
         else if n = TRAP_KERNELRPC_MACH_VM_ALLOCATE then [0, 0, 0, 0, 2, 0, 0, 0] else []),
       an_mem = (if n = SYS_MMAP then (\<lambda>x. if unat (x - 0x10000) < length contents
         then contents ! unat (x - 0x10000) else pr_mem s x) else pr_mem s)\<rparr>),
     run_code = (\<lambda>_ _ s. pr_mem s), tlv_initialize = (\<lambda>_ s. pr_mem s), null_array = 0\<rparr>"

lemma file_machine_maps:
  assumes "contents \<noteq> []" "length contents < 256"
  shows "\<exists>t. disk_path_mmap (file_machine contents) q s = (Ok (with_bytes contents Little, 0x10000), t)"
proof -
  have sz: "field_at (replicate 96 0 @ of_nat (length contents) # replicate 47 0) 96 8 = (of_nat (length contents) :: u64)"
  proof -
    have "le_nat (replicate n 0) = 0" for n by (induction n) simp_all
    then show ?thesis using assms(2) by (simp add: field_at_def unat_of_nat take_bit_eq_mod)
  qed
  have nz: "(of_nat (length contents) :: u64) \<noteq> 0"
    using assms by (simp add: word_unat_eq_iff unat_of_nat take_bit_eq_mod)
  have eq: "raw_slice (\<lambda>x. if unat (x - 0x10000) < length contents then contents ! unat (x - 0x10000) else m x)
      0x10000 (of_nat (length contents)) = contents" for m
    using assms(2) by (intro nth_equalityI) (auto simp: raw_slice_def unat_of_nat take_bit_eq_mod)
  show ?thesis
    using sz nz eq
    by (simp add: disk_path_mmap_def libc_open_def libc_fstat_def mmap_file_def mmap_internal_def syscall_wrappers
        syscall_run io_bind_def io_try_def io_lift_def io_ok_def decode_ret_def Let_def file_machine_def after_svc_def
        mapped_non_null_def file_of_bytes_def const_defs)
qed

text \<open>What it takes for memory to be granted.\<close>

definition kernel_grants :: "machine \<Rightarrow> bool" where
  "kernel_grants K \<longleftrightarrow>
     (\<forall>s args. let a = svc K TRAP_KERNELRPC_MACH_VM_ALLOCATE args s in
        ucast (an_x0 a) = (0 :: i32) \<and> field_at (an_out a) 0 8 \<noteq> (0 :: u64)) \<and>
     (\<forall>s args. ucast (an_x0 (svc K TRAP_KERNELRPC_MACH_VM_PROTECT args s)) = (0 :: i32))"

theorem disk_path_mmap_exact_witness:
  "fst (disk_path_mmap (file_machine [7, 8]) [0x2F, 0] \<lparr>pr_mem = (\<lambda>_. 0), pr_trace = []\<rparr>) =
     Ok (with_bytes [7, 8] Little, 0x10000)"
proof -
  have zeros: "le_nat (replicate n 0) = 0" for n by (induction n) simp_all
  have mem: "raw_slice (\<lambda>x. if unat (x - 0x10000) < Suc (Suc 0) then [7, 8] ! unat (x - 0x10000) else m x) 0x10000 2 = [7, 8]" for m
    by (simp add: raw_slice_def upt_conv_Cons)
  show ?thesis
    unfolding disk_path_mmap_exact by (simp add: file_machine_def after_svc_def const_defs zeros mem Let_def)
qed

lemma file_machine_grants: "kernel_grants (file_machine contents)"
  by (simp add: kernel_grants_def file_machine_def const_defs field_at_def)

lemma grants_alloc:
  assumes "kernel_grants K"
  shows "\<exists>port vm. vm_alloc_task_self K sz s = (Ok (Inr vm),
     after_svc K TRAP_KERNELRPC_MACH_VM_ALLOCATE [W (ucast (port :: u32)), Out 8, W sz, W 1] (after_svc K TRAP_TASK_SELF [] s)) \<and> vm \<noteq> 0"
proof -
  have "ucast (an_x0 (svc K TRAP_KERNELRPC_MACH_VM_ALLOCATE args t)) = (0 :: i32)"
    "field_at (an_out (svc K TRAP_KERNELRPC_MACH_VM_ALLOCATE args t)) 0 8 \<noteq> (0 :: u64)" for args t
    using assms by (simp_all add: kernel_grants_def Let_def)
  then show ?thesis
    by (auto simp: vm_alloc_task_self_def task_self_internal_def vm_allocate_internal_def syscall_wrappers syscall_run
      io_bind_def VM_FLAGS_ANYWHERE_def decode_ret_def kr_def KERN_SUCCESS_def)
qed

lemma grants_protect:
  assumes "kernel_grants K"
  shows "fst (macho_segments_vm_protect K vm gs s) = Ok ()"
proof -
  have "ucast (an_x0 (svc K TRAP_KERNELRPC_MACH_VM_PROTECT args t)) = (0 :: i32)" for args t
    using assms by (simp add: kernel_grants_def)
  then have "fst (segment_protect K vm g b s) = Ok ()" for g b s
    by (auto simp: segment_protect_def vm_protect_def task_self_internal_def vm_protect_internal_def syscall_wrappers
      syscall_run io_bind_def io_try_def io_lift_def decode_ret_def kr_def KERN_SUCCESS_def)
  then show ?thesis
    by (induction gs arbitrary: s) (auto simp: io_bind_def split: prod.split res.split, (metis fst_conv res.distinct)+)
qed

section \<open>Properties\<close>

lemma io_try_Ok_iff: "io_try e m s = (Ok x, t) \<longleftrightarrow> m s = (Ok (Inr x), t)"
  by (auto simp: io_try_def io_bind_Ok_iff split: sum.split_asm)

lemma map_to_vm_cases:
  assumes "macho_segments_map_to_vm oc K skip base gs s = (Ok (vm, sz), s')"
  obtains lo hi port t where "segments_span oc gs (- 1, 0) = Ok (lo, hi)" "wsub oc hi lo = Ok sz" "vm \<noteq> 0"
    "t = after_svc K TRAP_KERNELRPC_MACH_VM_ALLOCATE [W (ucast (port :: u32)), Out 8, W sz, W 1]
      (after_svc K TRAP_TASK_SELF [] s)"
    "copy_loop skip base vm gs t = (Ok (), s')"
proof -
  from assms obtain lo hi t where a: "segments_span oc gs (- 1, 0) = Ok (lo, hi)" "wsub oc hi lo = Ok sz"
    "vm_alloc_task_self K sz s = (Ok (Inr vm), t)" "copy_loop skip base vm gs t = (Ok (), s')"
    by (auto simp: macho_segments_map_to_vm_def io_bind_Ok_iff io_try_Ok_iff)
  from vm_alloc_run [OF a(3)] a that show thesis by blast
qed

text \<open>The image in memory. When the segments are mapped, memory is what it was after the allocation,
  except that each byte some copied segment covers comes from the image's bytes at the segment's file
  offset; where segments overlap the last one counts. Nothing else is asked of the system than one
  region of the size computed.\<close>

theorem segments_mapped:
  assumes "macho_segments_map_to_vm oc K skip base gs s = (Ok (vm, sz), s')"
    and "sources_apart base vm (copied_segments skip gs)"
  shows "\<exists>port t. t = after_svc K TRAP_KERNELRPC_MACH_VM_ALLOCATE [W (ucast (port :: u32)), Out 8, W sz, W 1]
      (after_svc K TRAP_TASK_SELF [] s) \<and> pr_trace s' = pr_trace t \<and> vm \<noteq> 0 \<and>
    (\<forall>x. pr_mem s' x = (case filter (covers vm x) (copied_segments skip gs) of
        [] \<Rightarrow> pr_mem t x | hs \<Rightarrow> pr_mem t (source_of base vm x (last hs))))"
proof -
  from map_to_vm_cases [OF assms(1)] obtain port t where
    t: "t = after_svc K TRAP_KERNELRPC_MACH_VM_ALLOCATE [W (ucast (port :: u32)), Out 8, W sz, W 1]
      (after_svc K TRAP_TASK_SELF [] s)" "vm \<noteq> 0" and c: "copy_loop skip base vm gs t = (Ok (), s')" by metis
  have "s' = t\<lparr>pr_mem := laid_out base vm (copied_segments skip gs) (pr_mem t)\<rparr>"
    using c copy_loop_run [OF assms(2), of t] by simp
  then have "pr_trace s' = pr_trace t" "\<And>x. pr_mem s' x = (case filter (covers vm x) (copied_segments skip gs) of
        [] \<Rightarrow> pr_mem t x | hs \<Rightarrow> pr_mem t (source_of base vm x (last hs)))"
    by (simp_all add: laid_out_def)
  with t show ?thesis by blast
qed

text \<open>A page zero of 4 GiB, and one segment of 8 bytes behind it, found 16 bytes into the image.\<close>

definition sample_segments :: "segment list" where
  "sample_segments = [\<lparr>sm_file_offset = 0, sm_vm_addr = 0, sm_vm_size = 0x100000000, sm_prot = 0\<rparr>,
     \<lparr>sm_file_offset = 16, sm_vm_addr = 0x100000000, sm_vm_size = 8, sm_prot = 5\<rparr>]"

definition proc_start :: proc where
  "proc_start = \<lparr>pr_mem = (\<lambda>x. ucast x), pr_trace = []\<rparr>"

lemma sample_segments_map:
  "\<exists>s'. macho_segments_map_to_vm True (file_machine []) True 0x10000 sample_segments proc_start =
     (Ok (0x200000000, 0x100000008), s')"
  by (simp add: macho_segments_map_to_vm_def sample_segments_def wadd_def wsub_def io_try_def vm_alloc_task_self_def
      task_self_internal_def vm_allocate_internal_def syscall_wrappers syscall_run file_machine_def const_defs kr_def
      decode_ret_def field_at_def io_bind_def vm_copy_into_task_self_def word_less_nat_alt min_def max_def word_le_nat_alt
      unsigned_minus_1_eq_mask mask_eq_exp_minus_1)

theorem segments_mapped_witness:
  "\<exists>s'. macho_segments_map_to_vm True (file_machine []) True 0x10000 sample_segments proc_start =
     (Ok (0x200000000, 0x100000008), s') \<and> pr_mem s' 0x300000003 = 0x13"
proof -
  obtain s' where s': "macho_segments_map_to_vm True (file_machine []) True 0x10000 sample_segments proc_start =
     (Ok (0x200000000, 0x100000008), s')" using sample_segments_map by blast
  have c: "copied_segments True sample_segments = [\<lparr>sm_file_offset = 16, sm_vm_addr = 0x100000000, sm_vm_size = 8, sm_prot = 5\<rparr>]"
    by (simp add: copied_segments_def sample_segments_def)
  have "sources_apart 0x10000 0x200000000 (copied_segments True sample_segments)"
  proof -
    let ?g = "\<lparr>sm_file_offset = 16, sm_vm_addr = 0x100000000, sm_vm_size = 8, sm_prot = 5\<rparr> :: segment"
    have d: "\<not> unat (d + 0xFFFFFFFD00010010) < unat (8 :: u64)" if "unat d < unat (8 :: u64)" for d :: u64
      using that by unat_arith simp
    have e: "0x10000 + 16 + (x - (0x200000000 + 0x100000000)) - (0x200000000 + 0x100000000) =
        (x - (0x200000000 + 0x100000000)) + (0xFFFFFFFD00010010 :: u64)" for x by simp
    have "covers 0x200000000 x ?g \<Longrightarrow> \<not> covers 0x200000000 (source_of 0x10000 0x200000000 x ?g) ?g" for x
      using d [of "x - (0x200000000 + 0x100000000)"] by (simp only: covers_def source_of_def segment.simps e not_False_eq_True)
    then show ?thesis by (simp add: c sources_apart_def)
  qed
  from segments_mapped [OF s' this] s' show ?thesis
    by (auto simp: c covers_def source_of_def after_svc_def file_machine_def proc_start_def const_defs)
qed

lemma Min_image_0_iff:
  fixes f :: "'a \<Rightarrow> nat"
  assumes "finite A" "A \<noteq> {}"
  shows "Min (f ` A) = 0 \<longleftrightarrow> (\<exists>x \<in> A. f x = 0)"
  using assms by (metis (no_types, lifting) Min_in Min_le finite_imageI imageE imageI image_is_empty le_zero_eq)

text \<open>C21: the region. In builds with overflow checks a mapping that succeeds had segments, and the region
  asked for is exactly as long as the span of their addresses. It holds all the segments, which are
  placed at their own addresses from its start, exactly when one of them is at address zero.\<close>

theorem region_covers_segments:
  assumes "macho_segments_map_to_vm True K skip base gs s = (Ok (vm, sz), s')"
  shows "gs \<noteq> [] \<and>
    unat sz = Max ((\<lambda>g. unat (sm_vm_addr g) + unat (sm_vm_size g)) ` set gs) - Min ((\<lambda>g. unat (sm_vm_addr g)) ` set gs) \<and>
    ((\<forall>g \<in> set gs. unat (sm_vm_addr g) + unat (sm_vm_size g) \<le> unat sz) \<longleftrightarrow> (\<exists>g \<in> set gs. sm_vm_addr g = 0))"
proof -
  let ?a = "\<lambda>g. unat (sm_vm_addr g)" and ?e = "\<lambda>g. unat (sm_vm_addr g) + unat (sm_vm_size g)"
  from map_to_vm_cases [OF assms] obtain lo hi where
    span: "segments_span True gs (- 1, 0) = Ok (lo, hi)" and sub: "wsub True hi lo = Ok sz" by metis
  have m1: "unat (- 1 :: u64) = 2 ^ 64 - 1" by (simp add: unsigned_minus_1_eq_mask mask_eq_exp_minus_1)
  from segments_span_run [OF span] have
    lo: "unat lo = Min (insert (2 ^ 64 - 1) (?a ` set gs))" and hi: "unat hi = Max (insert 0 (?e ` set gs))"
    unfolding m1 by simp_all
  have sz: "unat lo \<le> unat hi" "unat sz = unat hi - unat lo"
    using sub by (auto simp: wsub_Ok_iff word_le_nat_alt unat_sub_fits)
  have ne: "gs \<noteq> []"
  proof
    assume "gs = []"
    with lo hi sz(1) show False by simp
  qed
  have le: "?a g \<le> 2 ^ 64 - 1" for g :: segment
    using unsigned_less [of "sm_vm_addr g", where ?'a = nat] by simp
  have lo': "unat lo = Min (?a ` set gs)"
    unfolding lo using ne le by (subst Min_insert) (auto simp: min_def Min_le_iff ex_in_conv intro!: antisym)
  have hi': "unat hi = Max (?e ` set gs)"
    unfolding hi using ne by simp
  have "(\<forall>g \<in> set gs. ?e g \<le> unat sz) \<longleftrightarrow> Max (?e ` set gs) \<le> unat sz"
    using ne by simp
  also have "\<dots> \<longleftrightarrow> Min (?a ` set gs) = 0"
    using sz unfolding lo' hi' by auto
  also have "\<dots> \<longleftrightarrow> (\<exists>g \<in> set gs. ?a g = 0)"
    using ne by (simp add: Min_image_0_iff)
  finally show ?thesis using ne sz lo' hi' by (simp add: unat_eq_0)
qed

theorem region_covers_segments_witness:
  "Max ((\<lambda>g. unat (sm_vm_addr g) + unat (sm_vm_size g)) ` set sample_segments) -
     Min ((\<lambda>g. unat (sm_vm_addr g)) ` set sample_segments) = 0x100000008"
proof -
  obtain s' where s': "macho_segments_map_to_vm True (file_machine []) True 0x10000 sample_segments proc_start =
     (Ok (0x200000000, 0x100000008), s')" using sample_segments_map by blast
  from region_covers_segments [OF s'] show ?thesis by simp
qed

text \<open>C24: bringing an image to life happens in this order: the thread locals (of an executable that has
  some), then for each segment its maximum and after it its current protection, and then the
  initializers, each once and in order. The kernel decides: as long as it grants the calls they go on, all of
  them granted means success, and the first it refuses is the last, with its error and before any initializer has
  run. There is no other way to fail.\<close>

theorem image_finalize_order:
  assumes "fv_deref (pi_segments p) = Ok gs" "image_finalize K vm p is_executable s = (r, s')"
  shows "\<exists>ports granted t. protected K vm (protect_order gs)
      (if is_executable \<and> pi_has_thread_locals p
       then snd (tlv_initialize_descriptors_export K (vm + PAGE_ZERO_SIZE) s) else s) ports granted t \<and>
    r = (if granted then Ok () else Err Vm_Protect_Failed) \<and>
    pr_trace s' = pr_trace s @
      (if is_executable \<and> pi_has_thread_locals p then [Tlv_Init (vm + PAGE_ZERO_SIZE)] else []) @
      concat (map2 (protect_events vm) (protect_order gs) ports) @
      (if granted then map (init_event K vm) (pi_init_functions p) else []) \<and>
    length ports \<le> 2 * length gs \<and> (r = Ok () \<and> length ports = 2 * length gs \<or> r = Err Vm_Protect_Failed \<and> ports \<noteq> [])"
  by (rule finalize_run [OF assms])

theorem image_finalize_order_witness:
  "\<exists>s' port. image_finalize byte_kernel 0x1000 (parsed_image_empty\<lparr>pi_has_thread_locals := True, pi_init_functions := [4],
       pi_segments := \<lparr>fv_len = 1, fv_array = [Some \<lparr>sm_file_offset = 0, sm_vm_addr = 8, sm_vm_size = 16, sm_prot = 5\<rparr>, None]\<rparr>\<rparr>)
     True proc_start = (Err Vm_Protect_Failed, s') \<and>
     pr_trace s' = [Tlv_Init 0x100001000, Svc TRAP_TASK_SELF [],
       Svc TRAP_KERNELRPC_MACH_VM_PROTECT [W (ucast (port :: u32)), W 0x1008, W 16, W 1, W 5]]"
proof -
  let ?g = "\<lparr>sm_file_offset = 0, sm_vm_addr = 8, sm_vm_size = 16, sm_prot = 5\<rparr>"
  let ?p = "parsed_image_empty\<lparr>pi_has_thread_locals := True, pi_init_functions := [4],
    pi_segments := \<lparr>fv_len = 1, fv_array = [Some ?g, None]\<rparr>\<rparr>"
  have seg: "fv_deref (pi_segments ?p) = Ok [?g]" by (simp add: fv_deref_def cell_slice_def)
  have no: "an_x0 (svc byte_kernel n args s) = 1" for n args s by (simp add: byte_kernel_def)
  obtain r s' where r: "image_finalize byte_kernel 0x1000 ?p True proc_start = (r, s')" by fastforce
  obtain ports granted t where fin: "protected byte_kernel 0x1000 (protect_order [?g])
      (snd (tlv_initialize_descriptors_export byte_kernel (0x1000 + PAGE_ZERO_SIZE) proc_start)) ports granted t"
    "r = (if granted then Ok () else Err Vm_Protect_Failed)"
    "pr_trace s' = pr_trace proc_start @ [Tlv_Init (0x1000 + PAGE_ZERO_SIZE)] @
      concat (map2 (protect_events 0x1000) (protect_order [?g]) ports) @ (if granted then map (init_event byte_kernel 0x1000) [4] else [])"
    using image_finalize_order [OF seg r] by auto
  have order: "protect_order [?g] = [(?g, True), (?g, False)]" by (simp add: protect_order_def)
  from fin(1) obtain port where "ports = [port]" "\<not> granted"
    unfolding order by (auto elim!: protected_ConsE simp: no)
  with r fin(2,3) show ?thesis
    unfolding order by (auto simp: protect_events_def PAGE_ZERO_SIZE_def proc_start_def)
qed

text \<open>C18: loading ends when no library needs itself. If every library on disk needs only libraries of a
  lower rank, the recursion over the libraries is over after one level more than the ranks of the
  image's own libraries: the load returns, and allowing for a deeper recursion changes nothing.\<close>

theorem loader_terminates:
  assumes "scroll_bounds E" "libraries_ranked E K cache dir rank" "length (c_data img) < 2 ^ 32"
    and "\<forall>q \<in> disk_dependencies E cache dir img. rank q < n"
  shows "fst (macho_loader E K (Suc n) cache img base dir dd s) \<noteq> Diverge \<and>
    macho_loader E K (Suc n + k) cache img base dir dd s = macho_loader E K (Suc n) cache img base dir dd s"
proof -
  have "fst (macho_loader E K (Suc n) cache img base dir dd s) \<noteq> Diverge"
    by (rule macho_loader_returns [OF assms])
  with macho_loader_mono [of E K "Suc n" cache img base dir dd k] show ?thesis
    unfolding io_le_def by blast
qed

text \<open>A library with no load commands.\<close>

definition sample_leaf :: container where
  "sample_leaf = with_bytes [0xCF,0xFA,0xED,0xFE, 0x0C,0,0,1, 0,0,0,0, 6,0,0,0, 0,0,0,0, 0,0,0,0, 0,0,0,0, 0,0,0,0] Little"

lemma sample_leaf_parse:
  "macho_parser (scroll_ref oc) sample_leaf = Ok (parsed_image_empty\<lparr>pi_is_dylib := True\<rparr>)"
  by (simp add: macho_parser_def sample_leaf_def deserialize_type_at_offset_def with_bytes_def scroll_ref_def
      p_mach_header_64_def parser_simps const_defs)

lemma overflow_ref: "overflow_checks (scroll_ref oc) = oc"
  by (simp add: scroll_ref_def)

lemma sample_leaf_dependencies: "disk_dependencies (scroll_ref oc) cache dir sample_leaf = {}"
proof -
  have "dependencies_collect oc (parsed_image_empty\<lparr>pi_is_dylib := True\<rparr>) cache = Ok (fv_new_array 32)"
    by (simp add: dependencies_collect_def fv_deref_eq [OF fv_new_array_inv] parsed_image_empty_def)
  then show ?thesis
    by (auto simp: disk_dependencies_def sample_leaf_parse fv_deref_eq [OF fv_new_array_inv] overflow_ref)
qed

lemma sample_program_needs:
  obtains p deps where "macho_parser (scroll_ref True) sample_program = Ok p"
    "dependencies_collect True p dsc_new = Ok deps" "fv_deref deps = Ok [([0x2F, 0x61], False)]"
    "user_dylib_disk_path_resolve [0x2F, 0x61] (pi_rpath p) dir = Ok [0x2F, 0x61, 0]"
proof -
  obtain p where p: "macho_parser (scroll_ref True) sample_program = Ok p"
    "fv_list (pi_libraries p) = [([0x2F, 0x61], 24)]"
    using sample_program_parse by blast
  have "fv_inv (pi_libraries p)" using macho_parser_tables [OF p(1)] by (simp add: tables_ok_def)
  then have libs: "fv_deref (pi_libraries p) = Ok [([0x2F, 0x61], 24)]" by (simp add: fv_deref_eq p(2))
  obtain deps :: "(bytes \<times> bool) fixed_vec" where d: "fv_push True ([0x2F, 0x61], False) (fv_new_array 32) = Ok deps"
    "fv_inv deps" "fv_list deps = [([0x2F, 0x61], False)]"
    using fv_push_eq [OF fv_new_array_inv, of 32 True "([0x2F, 0x61], False)"] by auto
  have "is_library_cached dsc_new [0x2F, 0x61] = False"
    by (simp add: is_library_cached_def library_find_by_install_path_def dsc_new_def)
  with d(1) have "dependencies_collect True p dsc_new = Ok deps"
    by (simp add: dependencies_collect_def libs fv_length_def fv_new_array_def fv_new_def)
  moreover have "user_dylib_disk_path_resolve [0x2F, 0x61] (pi_rpath p) dir = Ok [0x2F, 0x61, 0]"
  proof -
    have "strip_prefix [0x2F, 0x61] (lit ''@rpath/'') = None" "strip_prefix [0x2F, 0x61] (lit ''@loader_path/'') = None"
      "strip_prefix [0x2F, 0x61] (lit ''@executable_path/'') = None"
      by (simp_all add: strip_prefix_None_iff lit_def)
    then show ?thesis by (simp add: user_dylib_disk_path_resolve_def)
  qed
  ultimately show thesis using that p(1) d(2,3) by (simp add: fv_deref_eq)
qed

lemma sample_program_dependencies:
  "disk_dependencies (scroll_ref True) dsc_new dir sample_program = {[0x2F, 0x61, 0]}"
proof -
  obtain p deps where "macho_parser (scroll_ref True) sample_program = Ok p"
    "dependencies_collect True p dsc_new = Ok deps" "fv_deref deps = Ok [([0x2F, 0x61], False)]"
    "user_dylib_disk_path_resolve [0x2F, 0x61] (pi_rpath p) dir = Ok [0x2F, 0x61, 0]"
    by (rule sample_program_needs)
  then show ?thesis by (auto simp: disk_dependencies_def overflow_ref)
qed

theorem loader_terminates_witness:
  "fst (macho_loader (scroll_ref True) (file_machine (c_data sample_leaf)) 3 dsc_new sample_program 0 [0x2F] None proc_start) \<noteq> Diverge"
proof -
  let ?K = "file_machine (c_data sample_leaf)"
  have leaf: "\<exists>t. disk_path_mmap ?K q s = (Ok (sample_leaf, 0x10000), t)" for q s
    using file_machine_maps [of "c_data sample_leaf" q s] by (simp add: sample_leaf_def with_bytes_def)
  have "libraries_ranked (scroll_ref True) ?K dsc_new [0x2F] (\<lambda>_. 1)"
    unfolding libraries_ranked_def
  proof (intro allI impI)
    fix path s c b t
    assume "disk_path_mmap ?K path s = (Ok (c, b), t)"
    with leaf [of path s] have c: "c = sample_leaf" by auto
    show "length (c_data c) < 2 ^ 32 \<and> (\<forall>q \<in> disk_dependencies (scroll_ref True) dsc_new [0x2F] c. (1::nat) < 1)"
      unfolding c sample_leaf_dependencies by (simp add: sample_leaf_def with_bytes_def)
  qed
  moreover have "length (c_data sample_program) < 2 ^ 32" by (simp add: sample_program_def with_bytes_def)
  moreover have "\<forall>q \<in> disk_dependencies (scroll_ref True) dsc_new [0x2F] sample_program. (1::nat) < 2" by simp
  ultimately have "fst (macho_loader (scroll_ref True) ?K (Suc 2) dsc_new sample_program 0 [0x2F] None proc_start) \<noteq> Diverge"
    using loader_terminates [OF scroll_ref.scroll_bounds_axioms] by blast
  moreover have "Suc 2 = (3 :: nat)" by simp
  ultimately show ?thesis by (simp only: not_False_eq_True)
qed

text \<open>C23: a library that needs itself is loaded without end. If an image's first library that is not in the
  shared cache is found on disk under a path that gives the same image again, no depth of recursion
  is enough to load it.\<close>

theorem self_dependency_diverges:
  assumes "macho_parser E img = Ok p" "dependencies_collect (overflow_checks E) p cache = Ok deps"
    and "fv_deref deps = Ok ((name, False) # ds)" "user_dylib_disk_path_resolve name (pi_rpath p) dir = Ok path"
    and "\<forall>s. \<exists>b t. disk_path_mmap K path s = (Ok (img, b), t)"
  shows "fst (macho_loader E K fuel cache img base dir dd s) = Diverge"
proof (induction fuel arbitrary: base dd s)
  case (Suc fuel)
  from assms(5) obtain b t where m: "disk_path_mmap K path s = (Ok (img, b), t)" by blast
  obtain t' where l: "macho_loader E K fuel cache img b dir (Some path) t = (Diverge, t')"
    using Suc.IH [of b "Some path" t] by (metis prod.collapse)
  have "fst (user_dylibs_load_recursively K (\<lambda>c b path. macho_loader E K fuel cache c b dir (Some path)) deps dir (pi_rpath p) s) = Diverge"
    using m l by (simp add: user_dylibs_load_recursively_def assms(3,4) io_bind_def)
  then show ?case
    by (simp add: assms(1,2) Let_def io_bind_Diverge_iff)
qed simp

theorem self_dependency_diverges_witness:
  "fst (macho_loader (scroll_ref True) (file_machine (c_data sample_program)) 1000 dsc_new sample_program 0 [0x2F] None proc_start) = Diverge"
proof -
  obtain p deps where p: "macho_parser (scroll_ref True) sample_program = Ok p"
    "dependencies_collect (overflow_checks (scroll_ref True)) p dsc_new = Ok deps" "fv_deref deps = Ok [([0x2F, 0x61], False)]"
    "user_dylib_disk_path_resolve [0x2F, 0x61] (pi_rpath p) [0x2F] = Ok [0x2F, 0x61, 0]"
    unfolding overflow_ref by (rule sample_program_needs)
  have "\<exists>b t. disk_path_mmap (file_machine (c_data sample_program)) [0x2F, 0x61, 0] s = (Ok (sample_program, b), t)" for s
    using file_machine_maps [of "c_data sample_program" "[0x2F, 0x61, 0]" s] by (auto simp: sample_program_def with_bytes_def)
  with self_dependency_diverges [OF p] show ?thesis by blast
qed

lemma system_libraries_only:
  "(\<forall>(name, cached) \<in> set ds. cached) \<Longrightarrow>
     user_dylibs_loop K load dir rp ds loaded = io_ok (loaded @ map (\<lambda>(name, _). System name) ds)"
proof (induction ds arbitrary: loaded)
  case Nil
  then show ?case by simp
next
  case (Cons d ds)
  then show ?case by (cases d) simp
qed

lemma copy_loop_ok: "\<exists>m. copy_loop skip base vm gs s = (Ok (), s\<lparr>pr_mem := m\<rparr>)"
proof (induction gs arbitrary: s)
  case Nil
  then show ?case by (auto intro: exI [of _ "pr_mem s"])
next
  case (Cons g gs)
  have "\<exists>m. copy_loop skip base vm gs (s\<lparr>pr_mem := x\<rparr>) = (Ok (), s\<lparr>pr_mem := m\<rparr>)" for x
    using Cons [of "s\<lparr>pr_mem := x\<rparr>"] by simp
  with Cons [of s] show ?case by (auto simp: io_bind_def vm_copy_into_task_self_def)
qed

lemma rebases_apply:
  "\<forall>f \<in> set fs. \<exists>t. fx_kind f = Rebase t \<Longrightarrow> \<exists>m'. fixup_all_chained_fixups E dst pz symbols dylibs cache ib fs m = Ok m'"
proof (induction fs arbitrary: m)
  case (Cons f fs)
  then show ?case by (auto simp: fixup_all_chained_fixups.simps(2))
qed (simp add: fixup_all_chained_fixups.simps)

lemma finalize_granted:
  assumes "kernel_grants K" "fv_deref (pi_segments p) = Ok gs"
  obtains t where "image_finalize K vm p ex s = (Ok (), t)"
proof -
  obtain r t where fin: "image_finalize K vm p ex s = (r, t)" by fastforce
  have "fst (image_finalize K vm p ex s) = Ok ()"
    using grants_protect [OF assms(1), of vm gs] init_functions_run [of K vm "pi_init_functions p"]
    by (auto simp: image_finalize_def assms(2) macho_tlv_initialize_def tlv_initialize_descriptors_export_def
        io_bind_def split: prod.split res.split) (metis fst_conv res.distinct)+
  with fin that show thesis by simp
qed

text \<open>An executable starts. If the kernel grants memory and protections, an executable whose libraries
  are all in the shared cache, whose fixups are rebases and whose segments span a region is loaded
  without recursion: one region is allocated, then come the thread locals, the protections of every
  segment and the initializers, nothing else is asked of the system, and the address to jump to is
  that of the image's entry point behind the page zero.\<close>

theorem static_image_starts:
  assumes "macho_parser E img = Ok p" "dependencies_collect (overflow_checks E) p cache = Ok deps"
    and "fv_deref deps = Ok ds" "\<forall>(name, cached) \<in> set ds. cached" "\<forall>f \<in> set (pi_fixups p). \<exists>t. fx_kind f = Rebase t"
    and "fv_deref (pi_segments p) = Ok gs" "segments_span (overflow_checks E) gs (- 1, 0) = Ok (lo, hi)"
    and "wsub (overflow_checks E) hi lo = Ok sz" "kernel_grants K"
  shows "\<exists>vm s' port ports. macho_loader E K (Suc n) cache img base dir None s =
      (Ok (vm, vm + pi_entry_point p + PAGE_ZERO_SIZE), s') \<and> vm \<noteq> 0 \<and> length ports = 2 * length gs \<and>
    pr_trace s' = pr_trace s @ [Svc TRAP_TASK_SELF [],
        Svc TRAP_KERNELRPC_MACH_VM_ALLOCATE [W (ucast (port :: u32)), Out 8, W sz, W 1]] @
      (if pi_has_thread_locals p then [Tlv_Init (vm + PAGE_ZERO_SIZE)] else []) @
      concat (map2 (protect_events vm) (protect_order gs) ports) @ map (init_event K vm) (pi_init_functions p)"
proof -
  define libs where "libs = map (\<lambda>(name, _). System name) ds"
  obtain port vm where alloc: "vm_alloc_task_self K sz s = (Ok (Inr vm),
     after_svc K TRAP_KERNELRPC_MACH_VM_ALLOCATE [W (ucast (port :: u32)), Out 8, W sz, W 1] (after_svc K TRAP_TASK_SELF [] s))" (is "_ = (_, ?s1)")
      "vm \<noteq> 0" using grants_alloc [OF assms(9)] by metis
  obtain m where copy: "copy_loop True base vm gs ?s1 = (Ok (), ?s1\<lparr>pr_mem := m\<rparr>)" using copy_loop_ok by blast
  obtain m' where applied: "fixup_all_chained_fixups E vm PAGE_ZERO_SIZE (pi_symbols p) libs (Some cache) False (pi_fixups p) m = Ok m'"
    using rebases_apply [OF assms(5)] by blast
  let ?s2 = "?s1\<lparr>pr_mem := m'\<rparr>"
  obtain s' where fin: "image_finalize K vm p True ?s2 = (Ok (), s')"
    by (rule finalize_granted [OF assms(9,6)])
  have run: "macho_loader E K (Suc n) cache img base dir None s = (Ok (vm, vm + pi_entry_point p + PAGE_ZERO_SIZE), s')"
    using alloc(1) copy applied fin
    by (simp add: assms(1-3,6-8) user_dylibs_load_recursively_def system_libraries_only [OF assms(4)]
        macho_segments_map_to_vm_def io_bind_def io_try_def image_fixups_apply_def Let_def io_lift_def io_ok_def
        flip: libs_def)
  from finalize_run [OF assms(6) fin] obtain ports where ports: "length ports = 2 * length gs"
    "pr_trace s' = pr_trace ?s2 @ (if pi_has_thread_locals p then [Tlv_Init (vm + PAGE_ZERO_SIZE)] else []) @
      concat (map2 (protect_events vm) (protect_order gs) ports) @ map (init_event K vm) (pi_init_functions p)"
    by (auto split: if_split_asm)
  with run alloc(2) show ?thesis by (intro exI [of _ vm] exI [of _ s'] exI [of _ port] exI [of _ ports]) simp
qed

text \<open>An executable of one segment, \<open>__TEXT\<close>, of 64 bytes at address zero.\<close>

definition sample_static :: container where
  "sample_static = with_bytes ([0xCF,0xFA,0xED,0xFE, 0x0C,0,0,1, 0,0,0,0, 2,0,0,0, 1,0,0,0, 72,0,0,0, 0,0,0,0, 0,0,0,0,
     0x19,0,0,0, 72,0,0,0, 0x5F,0x5F,0x54,0x45,0x58,0x54,0,0, 0,0,0,0,0,0,0,0, 0,0,0,0,0,0,0,0, 64,0,0,0,0,0,0,0,
     0,0,0,0,0,0,0,0, 64,0,0,0,0,0,0,0, 5,0,0,0, 5,0,0,0, 0,0,0,0, 0,0,0,0]) Little"

lemma sample_static_parse:
  obtains p where "macho_parser (scroll_ref True) sample_static = Ok p" "pi_fixups p = []" "fv_list (pi_libraries p) = []"
    "fv_list (pi_segments p) = [\<lparr>sm_file_offset = 0, sm_vm_addr = 0, sm_vm_size = 64, sm_prot = 5\<rparr>]"
    "pi_entry_point p = 0" "pi_init_functions p = []" "\<not> pi_has_thread_locals p"
proof -
  obtain segs where segs: "fv_push True \<lparr>sm_file_offset = 0, sm_vm_addr = 0, sm_vm_size = 64, sm_prot = 5\<rparr> (fv_new_array 64) = Ok segs"
    "fv_list segs = [\<lparr>sm_file_offset = 0, sm_vm_addr = 0, sm_vm_size = 64, sm_prot = 5\<rparr>]"
    using fv_push_eq [OF fv_new_array_inv, of 64 True "\<lparr>sm_file_offset = 0, sm_vm_addr = 0, sm_vm_size = 64, sm_prot = 5\<rparr>"] by auto
  have rd: "deserialize_type_at_offset (pread_mach_header_64 (scroll_ref True)) sample_static 0 =
     Some \<lparr>mh_magic = MH_MAGIC_64, mh_cputype = 0x100000C, mh_cpusubtype = 0, mh_filetype = MH_EXECUTE,
       mh_ncmds = 1, mh_sizeofcmds = 72, mh_flags = 0, mh_reserved = 0\<rparr>"
    "deserialize_type_at_offset (pread_load_command (scroll_ref True)) sample_static 32 =
     Some \<lparr>lc_cmd = LC_SEGMENT_64, lc_cmdsize = 72\<rparr>"
    by (simp_all add: deserialize_type_at_offset_def with_bytes_def sample_static_def scroll_ref_def
      p_mach_header_64_def p_load_command_def parser_simps)
  obtain sg where sg: "deserialize_type_at_offset (pread_segment_command_64 (scroll_ref True)) sample_static 32 = Some sg"
    "sg_segname sg = [0x5F, 0x5F, 0x54, 0x45, 0x58, 0x54, 0, 0, 0, 0, 0, 0, 0, 0, 0, 0]" "sg_vmaddr sg = 0" "sg_vmsize sg = 64"
    "sg_fileoff sg = 0" "sg_initprot sg = 5" "sg_nsects sg = 0"
    by (simp add: deserialize_type_at_offset_def with_bytes_def sample_static_def scroll_ref_def
      p_segment_command_64_def parser_simps)
  have "macho_parser (scroll_ref True) sample_static = Ok (parsed_image_empty\<lparr>pi_is_dylib := False, pi_segments := segs\<rparr>)"
  proof -
    have "pi_segments parsed_image_empty = fv_new_array 64" "pi_init_functions parsed_image_empty = []"
      "\<not> pi_has_thread_locals parsed_image_empty" by (simp_all add: parsed_image_empty_def)
    then show ?thesis
      by (simp add: macho_parser_def rd parse_command_def parse_segment_def sg segs overflow_ref wadd_def)
  qed
  moreover have "fv_list (fv_new_array n) = []" for n by (simp add: fv_list_def fv_new_array_def fv_new_def)
  ultimately show thesis
    using that [of "parsed_image_empty\<lparr>pi_is_dylib := False, pi_segments := segs\<rparr>"] segs(2)
    by (simp add: parsed_image_empty_def)
qed

theorem static_image_starts_witness:
  "\<exists>vm s'. macho_loader (scroll_ref True) (file_machine []) 1 dsc_new sample_static 0x10000 [0x2F] None proc_start =
     (Ok (vm, vm + 0x100000000), s') \<and> length (pr_trace s') = 6"
proof -
  obtain p where p: "macho_parser (scroll_ref True) sample_static = Ok p" "pi_fixups p = []" "fv_list (pi_libraries p) = []"
    "fv_list (pi_segments p) = [\<lparr>sm_file_offset = 0, sm_vm_addr = 0, sm_vm_size = 64, sm_prot = 5\<rparr>]"
    "pi_entry_point p = 0" "pi_init_functions p = []" "\<not> pi_has_thread_locals p" by (rule sample_static_parse)
  have inv: "fv_inv (pi_libraries p)" "fv_inv (pi_segments p)" using macho_parser_tables [OF p(1)] by (simp_all add: tables_ok_def)
  have deps: "dependencies_collect (overflow_checks (scroll_ref True)) p dsc_new = Ok (fv_new_array 32)"
    by (simp add: dependencies_collect_def fv_deref_eq [OF inv(1)] p(3))
  have ds: "fv_deref (fv_new_array 32 :: (bytes \<times> bool) fixed_vec) = Ok []"
    by (subst fv_deref_eq [OF fv_new_array_inv]) (simp_all add: fv_list_def fv_new_array_def fv_new_def)
  let ?g = "\<lparr>sm_file_offset = 0, sm_vm_addr = 0, sm_vm_size = 64, sm_prot = 5\<rparr> :: segment"
  have cached: "\<forall>(name, cached) \<in> set ([] :: (bytes \<times> bool) list). cached" by simp
  have rebases: "\<forall>f \<in> set (pi_fixups p). \<exists>t. fx_kind f = Rebase t" by (simp add: p(2))
  have segs: "fv_deref (pi_segments p) = Ok [?g]" by (simp add: fv_deref_eq [OF inv(2)] p(4))
  have span: "segments_span (overflow_checks (scroll_ref True)) [?g] (- 1, 0) = Ok (0, 64)"
    "wsub (overflow_checks (scroll_ref True)) 64 (0 :: u64) = Ok 64"
    by (simp_all add: wadd_def wsub_def max_def word_le_nat_alt)
  obtain vm s' port ports where
    "macho_loader (scroll_ref True) (file_machine []) (Suc 0) dsc_new sample_static 0x10000 [0x2F] None proc_start =
      (Ok (vm, vm + pi_entry_point p + PAGE_ZERO_SIZE), s')" "length ports = 2"
    "pr_trace s' = pr_trace proc_start @ [Svc TRAP_TASK_SELF [],
        Svc TRAP_KERNELRPC_MACH_VM_ALLOCATE [W (ucast (port :: u32)), Out 8, W 64, W 1]] @
      concat (map2 (protect_events vm) (protect_order [?g]) ports)"
    using static_image_starts [OF p(1) deps ds cached rebases segs span file_machine_grants [of "[]"],
      where n = 0 and base = "0x10000" and dir = "[0x2F]" and s = proc_start] p(6,7)
    by (auto simp del: macho_loader.simps)
  moreover obtain p1 p2 where "ports = [p1, p2]"
    using \<open>length ports = 2\<close> by (auto simp: numeral_2_eq_2 length_Suc_conv)
  ultimately show ?thesis
    by (simp add: p(5) PAGE_ZERO_SIZE_def protect_order_def protect_events_def proc_start_def del: macho_loader.simps)
qed

end
