(* ===== verification/Entrypoint.thy ===== *)
theory Entrypoint
  imports Loader
begin

text \<open>
  \<open>src/src/entrypoint.rs\<close> and \<open>src/src/main.rs\<close>: from the first instruction after \<open>__dyld_start\<close> to the
  jump into the program. The linker rebases itself, picks the ARM64 image of the executable, attaches
  the shared cache, binds its own thread-local functions, loads the executable and jumps to it; on the
  way every failure ends in an exit. Containers are passed with the address of their bytes.
\<close>

section \<open>Constants and messages\<close>

definition DYLD_LIKELY_UNSLID_VM_ADDR :: u64 where
  "DYLD_LIKELY_UNSLID_VM_ADDR = 0x180000000"

definition LIBSYSTEM_PATH :: bytes where
  "LIBSYSTEM_PATH = lit ''/usr/lib/libSystem.B.dylib''"

definition Not_Valid_Arm64 :: error where
  "Not_Valid_Arm64 = ''Not a valid ARM64 Mach-O or fat binary''"

definition No_Inner_Header :: error where
  "No_Inner_Header = ''error: could not read `mach_header_64` from inner mach-o''"

section \<open>Paths\<close>

fun rfind :: "'a \<Rightarrow> 'a list \<Rightarrow> nat option" where
  "rfind c [] = None"
| "rfind c (x # xs) = (case rfind c xs of
     Some i \<Rightarrow> Some (Suc i)
   | None \<Rightarrow> if x = c then Some 0 else None)"

definition dir_of :: "bytes \<Rightarrow> bytes" where
  "dir_of path = (case rfind 0x2F path of
     Some i \<Rightarrow> if i = 0 then lit ''/'' else take i path
   | None \<Rightarrow> lit ''.'')"

partial_function (option) arg_len_loop :: "bool \<Rightarrow> mem \<Rightarrow> usize \<Rightarrow> usize \<Rightarrow> usize res option" where
  "arg_len_loop oc m arg0 len =
     (if m (arg0 + len) = 0 then Some (Ok len)
      else case wadd oc len 1 of
        Ok len \<Rightarrow> arg_len_loop oc m arg0 len
      | Err e \<Rightarrow> Some (Err e) | Panic p \<Rightarrow> Some (Panic p) | Diverge \<Rightarrow> None)"

definition argv0 :: "bool \<Rightarrow> mem \<Rightarrow> usize \<Rightarrow> bytes option res" where
  "argv0 oc m argv =
     (let arg0 = peek_u64 m argv in
      if arg0 = 0 then Ok None
      else rbind (case arg_len_loop oc m arg0 0 of None \<Rightarrow> Diverge | Some r \<Rightarrow> r) (\<lambda>len.
        let s = raw_slice m arg0 len in Ok (if utf8_valid s then Some s else None)))"

definition exe_dir :: "bool \<Rightarrow> mem \<Rightarrow> usize \<Rightarrow> bytes option res" where
  "exe_dir oc m argv = rbind (argv0 oc m argv) (\<lambda>r. Ok (map_option dir_of r))"

section \<open>Choosing the ARM64 image\<close>

text \<open>\<open>read_unaligned\<close> of a \<open>mach_magic\<close>: in the byte order of the machine, and undefined past the end of
  the bytes or on a value that is no magic.\<close>

definition read_magic :: "bytes \<Rightarrow> mach_magic res" where
  "read_magic bs =
     (if length bs < 4 then Panic Wild_Access
      else case p_mach_magic Little bs of None \<Rightarrow> Panic Invalid_Enum | Some (magic, _) \<Rightarrow> Ok magic)"

definition header_is_arm64 :: "mach_header_64 \<Rightarrow> bool" where
  "header_is_arm64 h \<longleftrightarrow> mh_magic h = MH_MAGIC_64 \<and> mh_cputype h = CPU_TYPE_ARM64"

definition is_arm64 :: "env \<Rightarrow> container \<Rightarrow> bool" where
  "is_arm64 E c = (case deserialize_type_at_offset (pread_mach_header_64 E) c 0 of
     None \<Rightarrow> False | Some h \<Rightarrow> header_is_arm64 h)"

fun arch_find :: "env \<Rightarrow> container \<Rightarrow> usize \<Rightarrow> nat list \<Rightarrow> (container \<times> usize) option res" where
  "arch_find E img base [] = Ok None"
| "arch_find E img base (index # js) =
     rbind (wmul (overflow_checks E) (of_nat index) (of_nat (size_of fat_arch_layout))) (\<lambda>k.
     rbind (wadd (overflow_checks E) (of_nat (size_of fat_header_layout)) k) (\<lambda>offset.
     case deserialize_type_at_offset (pread_fat_arch E) img offset of
       None \<Rightarrow> arch_find E img base js
     | Some fa \<Rightarrow>
         (case slice img (ucast (fa_offset fa)) (ucast (fa_size fa)) of
            None \<Rightarrow> arch_find E img base js
          | Some bs \<Rightarrow>
              rbind (read_magic bs) (\<lambda>magic.
              let c = with_bytes bs (macho_endian_from_magic magic) in
              if is_arm64 E c then Ok (Some (c, base + ucast (fa_offset fa))) else arch_find E img base js))))"

lemma arch_find_arm64: "arch_find E img base js = Ok (Some (c, b)) \<Longrightarrow> is_arm64 E c"
  by (induction js) (auto simp: res_simps Let_def split: option.split_asm if_split_asm)

text \<open>The recursion is entered only with an image that is ARM64 already.\<close>

function arm64_container_create :: "env \<Rightarrow> container \<Rightarrow> usize \<Rightarrow> (container \<times> usize) res" where
  "arm64_container_create E img base =
     rbind (unwrap (deserialize_type_at_offset (pread_mach_header_64 E) img 0)) (\<lambda>header.
     if header_is_arm64 header then Ok (img, base)
     else if mh_magic header \<noteq> FAT_MAGIC then Err Not_Valid_Arm64
     else
       rbind (unwrap (deserialize_type_at_offset (pread_fat_header E) img 0)) (\<lambda>fh.
       rbind (arch_find E img base [0..<unat (fh_nfat_arch fh)]) (\<lambda>r.
       case r of
         None \<Rightarrow> Err No_Inner_Header
       | Some (c, b) \<Rightarrow> arm64_container_create E c b)))"
  by pat_completeness auto
termination
  by (relation "measure (\<lambda>(E, img, base). if is_arm64 E img then 0 else 1)")
    (auto simp: is_arm64_def res_simps dest!: arch_find_arm64)

declare arm64_container_create.simps [simp del]

section \<open>Thread locals of the linker itself\<close>

definition bind_to_first :: "fixup \<Rightarrow> fixup" where
  "bind_to_first f = (case fx_kind f of
     Rebase _ \<Rightarrow> f
   | Bind name _ is_auth addend \<Rightarrow> f\<lparr>fx_kind := Bind name 1 is_auth addend\<rparr>)"

definition bind_symbols :: "fixup list \<Rightarrow> symbol list" where
  "bind_symbols fs = concat (map (\<lambda>f. case fx_kind f of
     Rebase _ \<Rightarrow> [] | Bind name _ _ _ \<Rightarrow> [make_undefined name 1 False]) fs)"

definition tls_functions_self_bind_hack ::
  "env \<Rightarrow> usize \<Rightarrow> fixup list \<Rightarrow> shared_cache \<Rightarrow> mem \<Rightarrow> mem res" where
  "tls_functions_self_bind_hack E self_base self_bind_fixups cache m =
     fixup_all_chained_fixups E self_base 0 (bind_symbols self_bind_fixups) [System LIBSYSTEM_PATH] (Some cache) False
       (map bind_to_first self_bind_fixups) m"

section \<open>The entry point\<close>

definition io_reads :: "(mem \<Rightarrow> 'a res) \<Rightarrow> 'a io" where
  "io_reads f s = (f (pr_mem s), s)"

definition io_writes :: "(mem \<Rightarrow> mem res) \<Rightarrow> unit io" where
  "io_writes f s = (case f (pr_mem s) of
     Ok m \<Rightarrow> (Ok (), s\<lparr>pr_mem := m\<rparr>) | Err e \<Rightarrow> (Err e, s) | Panic p \<Rightarrow> (Panic p, s) | Diverge \<Rightarrow> (Diverge, s))"

text \<open>\<open>println_err!\<close> and \<open>exit_error\<close>, and the same on the error of a step.\<close>

definition die :: "machine \<Rightarrow> bytes list \<Rightarrow> 'a io" where
  "die K ps = io_bind (println_err K ps) (\<lambda>_. exit_error K)"

definition or_die :: "machine \<Rightarrow> (error \<Rightarrow> bytes list) \<Rightarrow> 'a io \<Rightarrow> 'a io" where
  "or_die K msg m s = (case m s of
     (Err e, t) \<Rightarrow> die K (msg e) t
   | (Ok x, t) \<Rightarrow> (Ok x, t) | (Panic p, t) \<Rightarrow> (Panic p, t) | (Diverge, t) \<Rightarrow> (Diverge, t))"

definition dynld_entrypoint ::
  "env \<Rightarrow> machine \<Rightarrow> nat \<Rightarrow> fixup list \<Rightarrow> usize \<Rightarrow> usize \<Rightarrow> usize \<Rightarrow> usize \<Rightarrow> usize \<Rightarrow> usize \<Rightarrow> usize \<Rightarrow> unit io" where
  "dynld_entrypoint E K fuel self_bind_fixups dylinker_base executable_header executable_size argc argv envp apple =
     io_bind (io_reads (\<lambda>m. read_magic (raw_slice m executable_header 4))) (\<lambda>magic.
     io_bind (or_die K (\<lambda>err. [lit ''failed to create an arm64 container: '', lit err])
       (io_reads (\<lambda>m. arm64_container_create E
          (with_bytes (raw_slice m executable_header executable_size) (macho_endian_from_magic magic)) executable_header)))
       (\<lambda>(image, base).
     io_bind (dyld_shared_cache_base_address_get K) (\<lambda>(found, cache_base).
     io_bind (if found = 0 then die K [lit ''failed to find the dyld_shared_cache base address''] else io_ok ()) (\<lambda>_.
     io_bind (io_lift (wsub (overflow_checks E) cache_base DYLD_LIKELY_UNSLID_VM_ADDR)) (\<lambda>slide.
     io_bind (or_die K (\<lambda>err. [lit ''failed initializing dyld shared cache: '' @ [0x27], lit err, [0x27]])
       (io_reads (\<lambda>m. from_existing E m cache_base slide dsc_new))) (\<lambda>cache.
     io_bind (or_die K (\<lambda>err. [lit ''failed to bind TLS function to self: '' @ [0x27], lit err, [0x27]])
       (io_writes (tls_functions_self_bind_hack E dylinker_base self_bind_fixups cache))) (\<lambda>_.
     io_bind (io_reads (\<lambda>m. exe_dir (overflow_checks E) m argv)) (\<lambda>dir.
     io_bind (case dir of
         Some d \<Rightarrow> io_ok d
       | None \<Rightarrow> die K [lit ''failed to get the exeutable path of the program'']) (\<lambda>exec_dir.
     io_bind (or_die K (\<lambda>err. [lit ''dylinking error: '' @ [0x27], lit err, [0x27] @ lit '', giving up...''])
       (macho_loader E K fuel cache image base exec_dir None)) (\<lambda>(_, entrypoint).
     io_bind (entry_and_ret K entrypoint argc argv envp apple) (\<lambda>_.
     exit_error K)))))))))))"

section \<open>Start\<close>

record stack =
  sk_dylinker_header :: usize
  sk_executable_header :: usize
  sk_dylinker_size :: usize
  sk_executable_size :: usize
  sk_argc :: usize
  sk_argv :: usize
  sk_envp :: usize
  sk_apple :: usize

definition stack_read :: "mem \<Rightarrow> usize \<Rightarrow> stack" where
  "stack_read m info = \<lparr>sk_dylinker_header = peek_u64 m info, sk_executable_header = peek_u64 m (info + 8),
     sk_dylinker_size = peek_u64 m (info + 16), sk_executable_size = peek_u64 m (info + 24),
     sk_argc = peek_u64 m (info + 32), sk_argv = peek_u64 m (info + 40), sk_envp = peek_u64 m (info + 48),
     sk_apple = peek_u64 m (info + 56)\<rparr>"

definition is_bind :: "fixup \<Rightarrow> bool" where
  "is_bind f = (case fx_kind f of Rebase _ \<Rightarrow> False | Bind _ _ _ _ \<Rightarrow> True)"

definition rebase_self_and_extract_bind_fixups :: "env \<Rightarrow> machine \<Rightarrow> container \<Rightarrow> usize \<Rightarrow> fixup list io" where
  "rebase_self_and_extract_bind_fixups E K dylinker_container dylinker_base =
     (case chained_fixups_parse_all E dylinker_container of
        Ok fixups \<Rightarrow>
          io_bind (if fixups = [] then io_ok () else (\<lambda>s.
             case fixup_all_chained_fixups E dylinker_base 0 [] [] None True fixups (pr_mem s) of
               Ok m \<Rightarrow> (Ok (), s\<lparr>pr_mem := m\<rparr>)
             | Err _ \<Rightarrow> io_bind (libc_write K STDERR_FILENO (lit ''self rebase error, exiting ...'' @ [10])) (\<lambda>_. exit_error K) s
             | Panic p \<Rightarrow> (Panic p, s) | Diverge \<Rightarrow> (Diverge, s))) (\<lambda>_.
          io_ok (filter is_bind fixups))
      | Err error \<Rightarrow>
          io_bind (libc_write K STDERR_FILENO (lit error)) (\<lambda>_.
          io_bind (libc_write K STDERR_FILENO ([10] @ lit ''exiting ...'' @ [10])) (\<lambda>_. exit_error K))
      | Panic p \<Rightarrow> io_lift (Panic p) | Diverge \<Rightarrow> io_lift Diverge)"

text \<open>The second component is \<open>HAS_REBASED_SELF\<close> when \<open>start\<close> is left.\<close>

definition start :: "env \<Rightarrow> machine \<Rightarrow> nat \<Rightarrow> usize \<Rightarrow> proc \<Rightarrow> (unit res \<times> bool) \<times> proc" where
  "start E K fuel info s =
     (let k = stack_read (pr_mem s) info in
      case io_bind (io_reads (\<lambda>m. read_magic (raw_slice m (sk_dylinker_header k) 4))) (\<lambda>magic t.
        rebase_self_and_extract_bind_fixups E K
          (with_bytes (raw_slice (pr_mem t) (sk_dylinker_header k) (sk_dylinker_size k)) (macho_endian_from_magic magic))
          (sk_dylinker_header k) t) s of
        (Ok self_bind_fixups, t) \<Rightarrow>
          (case dynld_entrypoint E K fuel self_bind_fixups (sk_dylinker_header k) (sk_executable_header k)
             (sk_executable_size k) (sk_argc k) (sk_argv k) (sk_envp k) (sk_apple k) t of
             (r, u) \<Rightarrow> ((r, True), u))
      | (Err e, t) \<Rightarrow> ((Err e, False), t) | (Panic p, t) \<Rightarrow> ((Panic p, False), t) | (Diverge, t) \<Rightarrow> ((Diverge, False), t))"

text \<open>\<open>info\<close> is how a panic reads, in the pieces it is written in. A panic while the message is written enters the handler again, without a
  bound, hence the fuel; after the exit the process is killed by a null dereference.\<close>

fun panic_handler :: "machine \<Rightarrow> (panic \<Rightarrow> bytes list) \<Rightarrow> nat \<Rightarrow> bool \<Rightarrow> panic \<Rightarrow> unit io" where
  "panic_handler K info 0 has_rebased_self p s = (Diverge, s)"
| "panic_handler K info (Suc fuel) has_rebased_self p s =
     (case (if has_rebased_self then println_err K (lit ''panic: '' # info p)
            else io_bind (libc_write K STDERR_FILENO (lit ''panic'' @ [10])) (\<lambda>_. io_ok ())) s of
        (Ok _, t) \<Rightarrow> io_bind (libc_exit K EXIT_FAILURE) (\<lambda>_. io_lift (Panic Wild_Access)) t
      | (Panic q, t) \<Rightarrow> panic_handler K info fuel has_rebased_self q t
      | (Err e, t) \<Rightarrow> (Err e, t) | (Diverge, t) \<Rightarrow> (Diverge, t))"

definition process_run :: "env \<Rightarrow> machine \<Rightarrow> (panic \<Rightarrow> bytes list) \<Rightarrow> nat \<Rightarrow> nat \<Rightarrow> usize \<Rightarrow> unit io" where
  "process_run E K panic_text panic_fuel fuel info s = (case start E K fuel info s of
     ((Panic p, has_rebased_self), t) \<Rightarrow> panic_handler K panic_text panic_fuel has_rebased_self p t
   | ((r, _), t) \<Rightarrow> (r, t))"

text \<open>\<open>src/src/__dyld_start.s\<close>, where the kernel starts the process: the registers after its four instructions, with
  which \<open>start\<close> is branched to.\<close>

record entry_regs =
  er_sp :: usize
  er_x0 :: usize
  er_fp :: usize
  er_lr :: usize

definition dyld_start :: "entry_regs \<Rightarrow> entry_regs" where
  "dyld_start r = (let x0 = er_sp r in \<lparr>er_sp = x0 AND NOT 15, er_x0 = x0, er_fp = 0, er_lr = 0\<rparr>)"

definition process_start :: "env \<Rightarrow> machine \<Rightarrow> (panic \<Rightarrow> bytes list) \<Rightarrow> nat \<Rightarrow> nat \<Rightarrow> entry_regs \<Rightarrow> unit io" where
  "process_start E K panic_text panic_fuel fuel r = process_run E K panic_text panic_fuel fuel (er_x0 (dyld_start r))"

text \<open>\<open>start\<close> is given the stack the kernel left, and runs on one that is aligned and does not reach into it.\<close>

lemma dyld_start_stack:
  "er_x0 (dyld_start r) = er_sp r" "er_sp (dyld_start r) \<le> er_sp r"
  "unat (er_sp (dyld_start r)) mod 16 = 0" "er_lr (dyld_start r) = 0"
proof -
  have m: "(15 :: usize) = mask 4" by (simp add: mask_eq_exp_minus_1)
  have "take_bit 4 (er_sp r AND NOT 15) = 0" unfolding m by (auto intro!: bit_word_eqI simp: bit_simps)
  then have "take_bit 4 (unat (er_sp r AND NOT 15)) = 0" by (simp flip: unsigned_take_bit_eq)
  then show "unat (er_sp (dyld_start r)) mod 16 = 0" by (simp add: dyld_start_def Let_def take_bit_eq_mod)
  show "er_sp (dyld_start r) \<le> er_sp r" by (simp add: dyld_start_def Let_def word_and_le1 word_and_le2)
qed (simp_all add: dyld_start_def Let_def)

section \<open>Paths\<close>

lemma rfind_None_iff: "rfind c xs = None \<longleftrightarrow> c \<notin> set xs"
  by (induction xs) (auto split: option.split)

lemma rfind_Some_iff: "rfind c xs = Some i \<longleftrightarrow> (\<exists>ys zs. xs = ys @ c # zs \<and> c \<notin> set zs \<and> length ys = i)"
proof (induction xs arbitrary: i)
  case (Cons x xs)
  show ?case
  proof (cases "rfind c xs")
    case None
    then have "c \<notin> set xs" by (simp add: rfind_None_iff)
    with None show ?thesis by (auto simp: Cons_eq_append_conv)
  next
    case (Some j)
    with Cons.IH [of j] obtain ys zs where s: "xs = ys @ c # zs" "c \<notin> set zs" "length ys = j" by blast
    have "(\<exists>ys' zs'. x # xs = ys' @ c # zs' \<and> c \<notin> set zs' \<and> length ys' = i) \<longleftrightarrow> i = Suc j"
    proof
      assume "\<exists>ys' zs'. x # xs = ys' @ c # zs' \<and> c \<notin> set zs' \<and> length ys' = i"
      then obtain ys' zs' where t: "x # xs = ys' @ c # zs'" "c \<notin> set zs'" "length ys' = i" by blast
      then have "(x # ys) @ c # zs = ys' @ c # zs'" using s by simp
      then have "rev zs @ c # rev (x # ys) = rev zs' @ c # rev ys'"
        by (metis rev_append rev.simps(2) append_assoc append_Cons append_Nil)
      moreover have "takeWhile (\<lambda>y. y \<noteq> c) (a @ c # b) = a" if "c \<notin> set a" for a b
        using that by (induction a) auto
      ultimately have "rev zs = rev zs'" using s(2) t(2) by (metis set_rev)
      then have "zs = zs'" by simp
      with \<open>(x # ys) @ c # zs = ys' @ c # zs'\<close> have "x # ys = ys'" by simp
      with s(3) t(3) show "i = Suc j" by auto
    next
      assume "i = Suc j"
      with s show "\<exists>ys' zs'. x # xs = ys' @ c # zs' \<and> c \<notin> set zs' \<and> length ys' = i"
        by (intro exI [of _ "x # ys"] exI [of _ zs]) simp
    qed
    with Some show ?thesis by auto
  qed
qed simp

lemma dir_of_cases:
  "0x2F \<notin> set name \<Longrightarrow> dir_of (d @ 0x2F # name) = (if d = [] then [0x2F] else d)"
  "0x2F \<notin> set name \<Longrightarrow> dir_of name = [0x2E]"
proof -
  assume n: "0x2F \<notin> set name"
  then have "rfind 0x2F (d @ 0x2F # name) = Some (length d)" unfolding rfind_Some_iff by blast
  then show "dir_of (d @ 0x2F # name) = (if d = [] then [0x2F] else d)"
    by (simp add: dir_of_def lit_def)
  from n have "rfind 0x2F name = None" by (simp add: rfind_None_iff)
  then show "dir_of name = [0x2E]" by (simp add: dir_of_def lit_def)
qed

text \<open>A C string in memory.\<close>

definition holds_string :: "mem \<Rightarrow> usize \<Rightarrow> bytes \<Rightarrow> bool" where
  "holds_string m p s \<longleftrightarrow> 0 \<notin> set s \<and> length s < 2 ^ 64 \<and> raw_slice m p (of_nat (length s)) = s \<and> m (p + of_nat (length s)) = 0"

lemma arg_len_loop_string:
  assumes "holds_string m p s" "n \<le> length s"
  shows "arg_len_loop oc m p (of_nat n) = Some (Ok (of_nat (length s)))"
  using assms(2)
proof (induction "length s - n" arbitrary: n)
  case 0
  with assms(1) show ?case by (subst arg_len_loop.simps) (simp add: holds_string_def)
next
  case (Suc k)
  then have n: "n < length s" by simp
  have len: "length s < 2 ^ 64" "unat (of_nat (length s) :: usize) = length s"
  proof -
    show l: "length s < 2 ^ 64" using assms(1) by (simp only: holds_string_def)
    show "unat (of_nat (length s) :: usize) = length s" using l by (simp add: unat_of_nat take_bit_eq_mod)
  qed
  have "m (p + of_nat n) = s ! n"
  proof -
    have "raw_slice m p (of_nat (length s)) ! n = s ! n" using assms(1) by (simp only: holds_string_def)
    moreover have "raw_slice m p (of_nat (length s)) ! n = m (p + of_nat n)" using n len(2) by (simp add: raw_slice_def)
    ultimately show ?thesis by simp
  qed
  then have nz: "m (p + of_nat n) \<noteq> 0" using assms(1) nth_mem [OF n] by (metis holds_string_def)
  have "unat (of_nat n :: usize) = n" using n len(1) by (simp add: unat_of_nat take_bit_eq_mod)
  then have "wadd oc (of_nat n :: usize) 1 = Ok (of_nat (Suc n))"
    using n len(1) by (simp add: wadd_def add.commute [of 1])
  with nz have "arg_len_loop oc m p (of_nat n) = arg_len_loop oc m p (of_nat (Suc n))"
    by (subst arg_len_loop.simps) simp
  with Suc.hyps(1) [of "Suc n"] Suc.hyps(2) n show ?case by simp
qed

text \<open>C26: the directory of the executable. When the first argument is a C string in memory that is proper
  text, it is read whole, in both builds, and the directory is all up to its last slash, the root if
  that slash is its first character, and the current directory if there is none.\<close>

theorem exe_dir_exact:
  assumes "holds_string m (peek_u64 m argv) path" "peek_u64 m argv \<noteq> 0" "utf8_valid path"
  shows "(0x2F \<notin> set path \<longrightarrow> exe_dir oc m argv = Ok (Some [0x2E])) \<and>
    (\<forall>d name. path = d @ 0x2F # name \<and> 0x2F \<notin> set name \<longrightarrow>
       exe_dir oc m argv = Ok (Some (if d = [] then [0x2F] else d)))"
proof -
  have "arg_len_loop oc m (peek_u64 m argv) 0 = Some (Ok (of_nat (length path)))"
    using arg_len_loop_string [OF assms(1), of 0 oc] by simp
  with assms have "argv0 oc m argv = Ok (Some path)"
    by (simp add: argv0_def holds_string_def)
  then show ?thesis by (auto simp: exe_dir_def dir_of_cases)
qed

text \<open>The memory of a process called as \<open>/a/b\<close>.\<close>

definition sample_args :: mem where
  "sample_args = (\<lambda>x. if x = 0 then 16 else if x = 16 then 0x2F else if x = 17 then 0x61 else if x = 18 then 0x2F
     else if x = 19 then 0x62 else 0)"

theorem exe_dir_exact_witness: "exe_dir True sample_args 0 = Ok (Some [0x2F, 0x61])"
proof -
  have p: "peek_u64 sample_args 0 = 16"
    by (simp add: peek_u64_def raw_slice_def sample_args_def bytes_nat_def upt_rec)
  have "holds_string sample_args (peek_u64 sample_args 0) ([0x2F, 0x61] @ 0x2F # [0x62])"
    unfolding p by (simp add: holds_string_def raw_slice_def sample_args_def upt_rec)
  moreover have "peek_u64 sample_args 0 \<noteq> 0" by (simp add: p)
  moreover have "utf8_valid ([0x2F, 0x61] @ 0x2F # [0x62])" by (simp add: utf8_valid_ascii)
  ultimately have "exe_dir True sample_args 0 = Ok (Some (if [0x2F, 0x61 :: u8] = [] then [0x2F] else [0x2F, 0x61]))"
    by (rule exe_dir_exact [THEN conjunct2, rule_format, OF _ _ _ conjI [OF refl]]) simp
  then show ?thesis by simp
qed

section \<open>The ARM64 image\<close>









section \<open>Binding the linker's own functions\<close>

lemma bind_to_first_kinds:
  "fx_offset (bind_to_first f) = fx_offset f"
  "fx_kind f = Bind name k a d \<Longrightarrow> fx_kind (bind_to_first f) = Bind name 1 a d"
  by (simp_all add: bind_to_first_def split: fixup_kind.split)

text \<open>What libSystem has for a name.\<close>

definition libsystem_symbol :: "env \<Rightarrow> shared_cache \<Rightarrow> fixed_string \<Rightarrow> u64 res" where
  "libsystem_symbol E cache name =
     rbind (fs_as_str name) (\<lambda>str. rbind (symbol_resolve E cache LIBSYSTEM_PATH str) (ok_or Cache_Symbol_Missing))"

text \<open>Looking up the symbols of the binds \<open>fs\<close> in libSystem one after the other ends with the failure \<open>x\<close>.\<close>

definition first_unbound :: "env \<Rightarrow> shared_cache \<Rightarrow> fixup list \<Rightarrow> error + panic \<Rightarrow> bool" where
  "first_unbound E cache fs x \<longleftrightarrow> (\<exists>gs f hs name k a d. fs = gs @ f # hs \<and>
     (\<forall>g \<in> set gs. \<exists>name k a d v. fx_kind g = Bind name k a d \<and> libsystem_symbol E cache name = Ok v) \<and>
     fx_kind f = Bind name k a d \<and> failure (libsystem_symbol E cache name) = Some x)"

lemma self_bind_value:
  assumes "fx_kind f = Bind name k a d"
  shows "fixup_value E self_base 0 (bind_symbols fs) [System LIBSYSTEM_PATH] (Some cache) False (bind_to_first f) =
      rbind (libsystem_symbol E cache name) (\<lambda>v. Ok (Some v))"
  using bind_to_first_kinds(2) [OF assms] by (simp add: fixup_value_def bind_target_def libsystem_symbol_def)

lemma self_bind_failure:
  assumes binds: "\<forall>f \<in> set fs. \<exists>name k a d. fx_kind f = Bind name k a d"
    and run: "failure (tls_functions_self_bind_hack E self_base fs cache m) = Some x"
  shows "first_unbound E cache fs x"
proof -
  let ?ptr = "fixup_value E self_base 0 (bind_symbols fs) [System LIBSYSTEM_PATH] (Some cache) False"
  from fixups_first_failure [OF run [unfolded tls_functions_self_bind_hack_def]] obtain gs f hs where
    "map bind_to_first fs = gs @ f # hs" "\<forall>g \<in> set gs. \<exists>v. ?ptr g = Ok v" "failure (?ptr f) = Some x" by blast
  then obtain gs' f' hs' where split: "fs = gs' @ f' # hs'" "\<forall>g \<in> set gs'. \<exists>v. ?ptr (bind_to_first g) = Ok v"
    "failure (?ptr (bind_to_first f')) = Some x" by (auto simp: map_eq_append_conv map_eq_Cons_conv)
  from binds split(1) obtain name k a d where f': "fx_kind f' = Bind name k a d" by force
  with split(3) have "failure (libsystem_symbol E cache name) = Some x"
    by (auto simp: self_bind_value [OF f'] failure_rbind)
  moreover have "\<exists>name k a d v. fx_kind g = Bind name k a d \<and> libsystem_symbol E cache name = Ok v" if "g \<in> set gs'" for g
  proof -
    from binds split(1) that obtain name k a d where g: "fx_kind g = Bind name k a d" by force
    from split(2) that obtain v where "?ptr (bind_to_first g) = Ok v" by blast
    with g show ?thesis unfolding self_bind_value [OF g] by (auto simp: rbind_Ok_iff)
  qed
  ultimately show ?thesis using split(1) f' unfolding first_unbound_def by blast
qed

text \<open>C25: the linker's own thread-local functions. When its binds have locations of their own, binding them
  succeeds exactly when libSystem exports every one of the symbols, whatever library the bind named: then each
  location holds the address of its own symbol, and nothing outside the locations is written. It fails only for a
  symbol that libSystem does not give, the first of them, and with what the lookup of that symbol ends in.\<close>

theorem self_binds_from_libsystem:
  assumes "\<forall>f \<in> set fs. \<exists>name k a d. fx_kind f = Bind name k a d"
    and "sorted_wrt (\<lambda>f g. separate (self_base + fx_offset f) (self_base + fx_offset g)) fs"
  shows "case tls_functions_self_bind_hack E self_base fs cache m of
      Ok m' \<Rightarrow> (\<forall>f \<in> set fs. \<forall>name k a d. fx_kind f = Bind name k a d \<longrightarrow>
          (\<exists>str v. fs_as_str name = Ok str \<and> symbol_resolve E cache LIBSYSTEM_PATH str = Ok (Some v) \<and>
             peek_u64 m' (self_base + fx_offset f) = v)) \<and>
        (\<forall>x. (\<forall>f \<in> set fs. 8 \<le> unat (x - (self_base + fx_offset f))) \<longrightarrow> m' x = m x)
    | Err e \<Rightarrow> first_unbound E cache fs (Inl e) | Panic p \<Rightarrow> first_unbound E cache fs (Inr p) | Diverge \<Rightarrow> False"
proof -
  let ?fs = "map bind_to_first fs"
  let ?run = "tls_functions_self_bind_hack E self_base fs cache m"
  have addr: "fixup_addr self_base 0 (bind_to_first f) = self_base + fx_offset f" for f
    by (simp add: fixup_addr_def bind_to_first_kinds)
  have sep: "sorted_wrt (\<lambda>f g. separate (fixup_addr self_base 0 f) (fixup_addr self_base 0 g)) ?fs"
    using assms(2) by (simp add: sorted_wrt_map addr)
  show ?thesis
  proof (cases ?run)
    case (Ok m')
    then have "fixup_all_chained_fixups E self_base 0 (bind_symbols fs) [System LIBSYSTEM_PATH] (Some cache) False ?fs m = Ok m'"
      by (simp add: tls_functions_self_bind_hack_def)
    note w = fixups_written [OF sep this]
    have "\<exists>str v. fs_as_str name = Ok str \<and> symbol_resolve E cache LIBSYSTEM_PATH str = Ok (Some v) \<and>
             peek_u64 m' (self_base + fx_offset f) = v" if f: "f \<in> set fs" "fx_kind f = Bind name k a d" for f name k a d
    proof -
      have "bind_to_first f \<in> set ?fs" using f(1) by simp
      from bspec [OF conjunct1 [OF w] this] show ?thesis
        unfolding addr self_bind_value [OF f(2)] libsystem_symbol_def by (auto simp: res_simps split: res.split_asm option.split_asm)
    qed
    with w Ok show ?thesis by (auto simp: addr)
  next
    case Diverge
    then show ?thesis using fixups_return by (simp add: tls_functions_self_bind_hack_def)
  qed (use self_bind_failure [OF assms(1), of E self_base cache m] in auto)
qed

section \<open>The end of the process\<close>

text \<open>A step that neither returns nor hands an error on.\<close>

definition ends :: "'a io \<Rightarrow> bool" where
  "ends m \<longleftrightarrow> (\<forall>s. (\<exists>p. fst (m s) = Panic p) \<or> fst (m s) = Diverge)"

definition no_error :: "'a io \<Rightarrow> bool" where
  "no_error m \<longleftrightarrow> (\<forall>s e. fst (m s) \<noteq> Err e)"

lemma no_error_rules:
  "no_error (io_ok x)" "(\<And>e. r \<noteq> Err e) \<Longrightarrow> no_error (io_lift r)"
  by (simp_all add: no_error_def)

lemma ends_no_error: "ends m \<Longrightarrow> no_error m"
  unfolding ends_def no_error_def
proof (intro allI)
  fix s e
  assume "\<forall>s. (\<exists>p. fst (m s) = Panic p) \<or> fst (m s) = Diverge"
  then have "(\<exists>p. fst (m s) = Panic p) \<or> fst (m s) = Diverge" by blast
  then show "fst (m s) \<noteq> Err e" by auto
qed

lemma no_error_bind:
  assumes "no_error m" "\<And>x. no_error (f x)"
  shows "no_error (io_bind m f)"
  unfolding no_error_def
proof (intro allI)
  fix s e
  have "fst (m s) \<noteq> Err e'" for e' using assms(1) by (simp add: no_error_def)
  with assms(2) show "fst (io_bind m f s) \<noteq> Err e"
    by (cases "m s") (auto simp: io_bind_def no_error_def split: res.split)
qed

lemma ends_bind:
  assumes "no_error m" "\<And>x. ends (f x)"
  shows "ends (io_bind m f)"
  unfolding ends_def
proof
  fix s
  have "fst (m s) \<noteq> Err e'" for e' using assms(1) by (simp add: no_error_def)
  with assms(2) show "(\<exists>p. fst (io_bind m f s) = Panic p) \<or> fst (io_bind m f s) = Diverge"
    by (cases "m s") (auto simp: io_bind_def ends_def split: res.split)
qed

lemma syscalls_no_error:
  "no_error (syscall_ret K n args)" "no_error (libc_write K fd b)" "no_error (libc_exit K x)"
  by (auto simp: no_error_def libc_write_def libc_exit_def syscall_wrappers syscall_run)

lemma println_no_error: "no_error (println_err K ps)"
proof -
  have all: "no_error (write_all K fd b)" for fd b
    unfolding no_error_def by (metis prod.collapse write_all_trace)
  have "no_error (write_pieces K fd ps)" for fd ps
  proof (induction ps)
    case (Cons p ps)
    then show ?case by (auto intro!: no_error_bind all no_error_rules split: sum.split)
  qed (simp add: no_error_def)
  then have "no_error (print_to K fd ps)" for fd ps
    unfolding print_to_def by (intro no_error_bind no_error_rules) (auto split: sum.split)
  then show ?thesis
    unfolding println_err_def by (intro no_error_bind)
qed

lemma exit_ends: "ends (exit_error K)" "ends (die K ps)"
proof -
  have "ends (io_lift (Panic p))" for p by (simp add: ends_def)
  then show e: "ends (exit_error K)"
    unfolding exit_error_def syscall1_def by (intro ends_bind syscalls_no_error)
  show "ends (die K ps)"
    unfolding die_def by (intro ends_bind println_no_error e)
qed

lemma or_die_no_error: "no_error (or_die K msg m)"
proof -
  have d: "fst (die K ps s) \<noteq> Err e" for ps s e using ends_no_error [OF exit_ends(2)] unfolding no_error_def by blast
  then show ?thesis
    by (auto simp: no_error_def or_die_def split: prod.split res.split)
qed

lemma arg_len_loop_no_error: "arg_len_loop oc m p n = Some r \<Longrightarrow> r \<noteq> Err e"
  by (erule arg_len_loop.raw_induct [where P = "\<lambda>_ _ _ _ r. r \<noteq> Err e", rotated])
    (auto simp: wadd_def split: if_split_asm)

lemma split_prod_ends: "(\<And>x y. ends (f x y)) \<Longrightarrow> ends (case p of (x, y) \<Rightarrow> f x y)"
  by (cases p) simp

lemma dynld_entrypoint_ends: "ends (dynld_entrypoint E K fuel fs db h sz argc argv envp apple)"
proof -
  have magic: "no_error (io_reads (\<lambda>m. read_magic (g m)))" for g
    by (auto simp: no_error_def io_reads_def read_magic_def split: option.split)
  have dir: "no_error (io_reads (\<lambda>m. exe_dir oc m argv))" for oc
    by (auto simp: no_error_def io_reads_def exe_dir_def argv0_def Let_def res_simps dest: arg_len_loop_no_error split: option.split_asm)
  have die: "fst (die K ps s) = Err e \<Longrightarrow> False" for ps s e
    using ends_no_error [OF exit_ends(2)] unfolding no_error_def by blast
  show ?thesis
    unfolding dynld_entrypoint_def
    by (intro ends_bind magic dir or_die_no_error exit_ends split_prod_ends)
      (auto simp: no_error_def io_lift_def io_ok_def entry_and_ret_def wsub_def dyld_shared_cache_base_address_get_def
        syscall_run io_bind_def intro: die split: option.split)
qed

lemma start_ends: "case start E K fuel info s of ((r, flag), t) \<Rightarrow> (\<exists>p. r = Panic p) \<or> r = Diverge"
proof -
  have rebase: "no_error (rebase_self_and_extract_bind_fixups E K c b)" for c b
  proof (cases "chained_fixups_parse_all E c")
    case (Ok fs)
    have "no_error (\<lambda>s. case fixup_all_chained_fixups E b 0 [] [] None True fs (pr_mem s) of
               Ok m \<Rightarrow> (Ok (), s\<lparr>pr_mem := m\<rparr>)
             | Err _ \<Rightarrow> io_bind (libc_write K STDERR_FILENO (lit ''self rebase error, exiting ...'' @ [10])) (\<lambda>_. exit_error K) s
             | Panic p \<Rightarrow> (Panic p, s) | Diverge \<Rightarrow> (Diverge, s))"
    proof -
      have "no_error (io_bind (libc_write K fd x) (\<lambda>_. exit_error K :: unit io))" for fd x
        by (intro no_error_bind syscalls_no_error ends_no_error exit_ends)
      then have "fst (io_bind (libc_write K fd x) (\<lambda>_. exit_error K :: unit io) t) \<noteq> Err e" for fd x t e
        by (simp add: no_error_def)
      then show ?thesis by (simp add: no_error_def split: res.split)
    qed
    with Ok show ?thesis
      by (cases "fs = []") (simp add: rebase_self_and_extract_bind_fixups_def no_error_def,
        auto simp: rebase_self_and_extract_bind_fixups_def intro!: no_error_bind no_error_rules)
  next
    case (Err e)
    show ?thesis
      unfolding rebase_self_and_extract_bind_fixups_def Err res.case
      by (intro no_error_bind syscalls_no_error ends_no_error [OF exit_ends(1)])
  qed (auto simp: rebase_self_and_extract_bind_fixups_def no_error_def)
  let ?k = "stack_read (pr_mem s) info"
  let ?first = "io_bind (io_reads (\<lambda>m. read_magic (raw_slice m (sk_dylinker_header ?k) 4))) (\<lambda>magic t.
        rebase_self_and_extract_bind_fixups E K
          (with_bytes (raw_slice (pr_mem t) (sk_dylinker_header ?k) (sk_dylinker_size ?k)) (macho_endian_from_magic magic))
          (sk_dylinker_header ?k) t)"
  have "no_error ?first"
  proof (rule no_error_bind)
    show "no_error (io_reads (\<lambda>m. read_magic (raw_slice m (sk_dylinker_header ?k) 4)))"
      by (auto simp: no_error_def io_reads_def read_magic_def split: option.split)
  next
    fix magic
    show "no_error (\<lambda>t. rebase_self_and_extract_bind_fixups E K
          (with_bytes (raw_slice (pr_mem t) (sk_dylinker_header ?k) (sk_dylinker_size ?k)) (macho_endian_from_magic magic))
          (sk_dylinker_header ?k) t)"
      using rebase by (simp add: no_error_def)
  qed
  then have first: "fst (?first s) \<noteq> Err e" for e by (simp add: no_error_def)
  show ?thesis
  proof (cases "?first s")
    case (Pair r t)
    show ?thesis
    proof (cases r)
      case (Ok fs)
      let ?go = "dynld_entrypoint E K fuel fs (sk_dylinker_header ?k) (sk_executable_header ?k) (sk_executable_size ?k)
        (sk_argc ?k) (sk_argv ?k) (sk_envp ?k) (sk_apple ?k)"
      have "(\<exists>p. fst (?go t) = Panic p) \<or> fst (?go t) = Diverge"
        using dynld_entrypoint_ends unfolding ends_def by blast
      with Pair Ok show ?thesis by (auto simp: start_def Let_def split: prod.split)
    next
      case (Err e)
      with first [of e] Pair show ?thesis by simp
    qed (use Pair in \<open>simp_all add: start_def Let_def\<close>)
  qed
qed

lemma panic_handler_exits:
  "case panic_handler K info n flag p s of (r, t) \<Rightarrow>
     r = Diverge \<or> r = Panic Wild_Access \<and> pr_trace t \<noteq> [] \<and> last (pr_trace t) = Svc SYS_EXIT [W 0]"
proof (induction n arbitrary: p s)
  case (Suc n)
  let ?say = "if flag then println_err K (lit ''panic: '' # info p)
    else io_bind (libc_write K STDERR_FILENO (lit ''panic'' @ [10])) (\<lambda>_. io_ok ())"
  have say: "fst (?say s) \<noteq> Err e" for e
  proof -
    have "no_error (println_err K ps)" "no_error (io_bind (libc_write K fd x) (\<lambda>_. io_ok ()))" for ps fd x
      by (intro println_no_error no_error_bind syscalls_no_error no_error_rules)+
    then show ?thesis by (simp add: no_error_def)
  qed
  have exit: "io_bind (libc_exit K EXIT_FAILURE) (\<lambda>_. io_lift (Panic Wild_Access)) t =
      (Panic Wild_Access, after_svc K SYS_EXIT [W 0] t)" for t
    by (simp add: libc_exit_def syscall1_def syscall_run io_bind_def EXIT_FAILURE_def)
  obtain r t where st: "?say s = (r, t)" by fastforce
  show ?case
  proof (cases r)
    case (Err e)
    with say [of e] st show ?thesis by simp
  qed (use st Suc in \<open>simp_all add: exit\<close>)
qed simp

text \<open>C19: the end of the process. However the linker is left, it has asked for an exit with status 0 last,
  also after a failure: \<open>start\<close> never returns, every error is turned into a message and a panic or an
  exit, and every panic reaches the handler, which exits. The only other outcome is
  that it runs on, loading libraries that need themselves or failing to report a panic. The code that
  is jumped to is taken to come back.\<close>

theorem process_ends_in_exit:
  "case process_run E K panic_text panic_fuel fuel info s of (r, t) \<Rightarrow>
     r = Diverge \<or> r = Panic Wild_Access \<and> pr_trace t \<noteq> [] \<and> last (pr_trace t) = Svc SYS_EXIT [W 0]"
proof -
  obtain r flag t where st: "start E K fuel info s = ((r, flag), t)" by (metis prod.collapse)
  with start_ends [of E K fuel info s] consider p where "r = Panic p" | "r = Diverge" by auto
  then show ?thesis
  proof cases
    case 1
    with st panic_handler_exits show ?thesis by (simp add: process_run_def)
  next
    case 2
    with st show ?thesis by (simp add: process_run_def)
  qed
qed

end
