(* ===== verification/Image_Types.thy ===== *)
theory Image_Types
  imports Entrypoint
begin

text \<open>
  What holds of every image the loader's parser (\<open>macho_parser\<close> in \<open>src/src/loader.rs\<close>) has accepted: the
  fixed-size tables and strings in it are initialised up to their length, and the names in it are
  proper text. The reads of names in \<open>src/src/fixups.rs\<close> rest on it.
\<close>

definition name_ok :: "fixed_string \<Rightarrow> bool" where
  "name_ok f \<longleftrightarrow> (\<exists>s. fs_as_str f = Ok s \<and> length s \<le> 128 \<and> 0 \<notin> set s \<and> utf8_valid s)"

definition fixup_ok :: "fixup \<Rightarrow> bool" where
  "fixup_ok f \<longleftrightarrow> (\<forall>name k a d. fx_kind f = Bind name k a d \<longrightarrow> name_ok name)"

definition image_ok :: "parsed_image \<Rightarrow> bool" where
  "image_ok p \<longleftrightarrow> (\<forall>y \<in> set (pi_symbols p). name_ok (sy_name y)) \<and> (\<forall>f \<in> set (pi_fixups p). fixup_ok f)"

lemma name_made:
  assumes "deserialize_string_at_offset c off = Ok s" "fs_try_from_str oc SYMBOL_NAME_LEN s = Ok (Some f)"
  shows "name_ok f"
proof -
  have s: "0 \<notin> set s \<and> utf8_valid s"
    using assms(1) by (auto simp: string_at_Ok_iff)
  have n: "SYMBOL_NAME_LEN = 128" by (simp add: SYMBOL_NAME_LEN_def)
  have "fv_inv (fs_vec (fs_new 128))" by (simp add: fs_new_def fv_new_array_inv)
  from fs_try_push_str_eq [OF this, of s oc] assms(2) have
    "length s \<le> 128" "fv_inv (fs_vec f)" "fv_list (fs_vec f) = s"
    by (auto simp: fs_try_from_str_def fs_new_def fv_new_array_inv n split: if_split_asm)
  with s show ?thesis by (auto simp: name_ok_def fs_as_str_def fv_deref_eq)
qed

section \<open>Fixups\<close>

lemma import_names: "import_at E c k it = Ok (l, f) \<Longrightarrow> name_ok f"
  by (cases it) (auto simp: import_at_def import_symbol_parse_def rbind_Ok_iff unwrap_Ok_iff dest: name_made)

lemma fixup_made:
  "fixup_ok (fixup_rebase off t)" "name_ok s \<Longrightarrow> fixup_ok (fixup_bind off s k a i)"
  "fixup_ok \<lparr>fx_offset = off, fx_kind = Rebase t\<rparr>" "name_ok s \<Longrightarrow> fixup_ok \<lparr>fx_offset = off, fx_kind = Bind s k i a\<rparr>"
  by (simp_all add: fixup_ok_def fixup_rebase_def fixup_bind_def)

lemma parse_one_names: "fixup_parse_one E c pf v off it = Ok (n, f) \<Longrightarrow> fixup_ok f"
proof -
  have a: "fixup_64_parse_one E c v off it = Ok (n, f) \<Longrightarrow> fixup_ok f"
    "fixup_arm64e_parse_one E c v off it = Ok (n, f) \<Longrightarrow> fixup_ok f"
    by (auto simp: fixup_64_parse_one_def fixup_arm64e_parse_one_def Let_def rbind_Ok_iff fixup_made
        dest: import_names split: if_split_asm)
  then have "fixup_arm64e_userland24_parse_one E c v off it = Ok (n, f) \<Longrightarrow> fixup_ok f"
    by (auto simp: fixup_arm64e_userland24_parse_one_def Let_def rbind_Ok_iff fixup_made dest: import_names split: if_split_asm)
  with a show "fixup_parse_one E c pf v off it = Ok (n, f) \<Longrightarrow> fixup_ok f"
    by (auto simp: fixup_parse_one_def split: if_split_asm)
qed

definition names_kept :: "fixup list \<Rightarrow> fixup list res \<Rightarrow> bool" where
  "names_kept fs r \<longleftrightarrow> (\<forall>gs. r = Ok gs \<longrightarrow> (\<forall>f \<in> set fs. fixup_ok f) \<longrightarrow> (\<forall>f \<in> set gs. fixup_ok f))"

lemma names_keptD: "names_kept fs r \<Longrightarrow> r = Ok gs \<Longrightarrow> \<forall>f \<in> set fs. fixup_ok f \<Longrightarrow> \<forall>f \<in> set gs. fixup_ok f"
  by (simp add: names_kept_def)

lemma chain_step_names: "chain_step E c pf it off = Ok (f, nxt) \<Longrightarrow> fixup_ok f"
  by (auto simp: chain_step_def rbind_Ok_iff dest: parse_one_names split: if_split_asm)

lemma chain_names: "names_kept fs (chain_parse E c pf it off fs)"
proof -
  have "chain_loop E c pf it off fs = Some r \<Longrightarrow> names_kept fs r" for r
  proof (erule chain_loop.raw_induct [where P = "\<lambda>_ _ _ _ _ fs r. names_kept fs r", rotated])
    fix loop :: "env \<Rightarrow> container \<Rightarrow> dyld_chained_ptr_format_variants \<Rightarrow> import_table \<Rightarrow> usize \<Rightarrow> fixup list \<Rightarrow> fixup list res option"
      and E c pf it off fs r
    assume IH: "\<And>E c pf it off fs r. loop E c pf it off fs = Some r \<Longrightarrow> names_kept fs r"
      and body: "(case chain_step E c pf it off of
        Ok (fixup, None) \<Rightarrow> Some (Ok (fs @ [fixup]))
      | Ok (fixup, Some off) \<Rightarrow> loop E c pf it off (fs @ [fixup])
      | Err e \<Rightarrow> Some (Err e) | Panic p \<Rightarrow> Some (Panic p) | Diverge \<Rightarrow> None) = Some r"
    show "names_kept fs r"
    proof (cases "chain_step E c pf it off")
      case (Ok st)
      obtain f nxt where st: "st = (f, nxt)" by fastforce
      have "fixup_ok f" using chain_step_names Ok st by blast
      with body Ok st IH [of E c pf it _ "fs @ [f]" r] show ?thesis
        by (auto simp: names_kept_def split: option.split_asm)
    qed (use body in \<open>auto simp: names_kept_def\<close>)
  qed
  then show ?thesis by (auto simp: chain_parse_def names_kept_def split: option.split)
qed

lemma pages_names: "names_kept fs (pages_loop E c it seg ss ps fs)"
proof (induction ps arbitrary: fs)
  case (Cons p ps)
  show ?case
    unfolding names_kept_def
  proof (intro allI impI)
    fix gs
    assume "pages_loop E c it seg ss (p # ps) fs = Ok gs" and ok: "\<forall>f \<in> set fs. fixup_ok f"
    then obtain off hs where h: "chain_parse E c (ss_pointer_format ss) it off fs = Ok hs" "pages_loop E c it seg ss ps hs = Ok gs"
      by (auto simp: rbind_Ok_iff)
    from names_keptD [OF Cons h(2) names_keptD [OF chain_names h(1) ok]] show "\<forall>f \<in> set gs. fixup_ok f" .
  qed
qed (simp add: names_kept_def)

lemma segments_names: "names_kept fs (segments_loop E c it starts si fs)"
proof (induction si arbitrary: fs)
  case (Cons p ps)
  show ?case
    unfolding names_kept_def
  proof (intro allI impI)
    fix gs
    assume "segments_loop E c it starts (p # ps) fs = Ok gs" and ok: "\<forall>f \<in> set fs. fixup_ok f"
    then consider "segments_loop E c it starts ps fs = Ok gs"
      | seg ss hs where "pages_loop E c it seg ss [0..<unat (ss_page_count ss)] fs = Ok hs" "segments_loop E c it starts ps hs = Ok gs"
      by (auto simp: rbind_Ok_iff split: if_split_asm)
    then show "\<forall>f \<in> set gs. fixup_ok f"
    proof cases
      case 1
      from names_keptD [OF Cons this ok] show ?thesis .
    next
      case 2
      from names_keptD [OF Cons 2(2) names_keptD [OF pages_names 2(1) ok]] show ?thesis .
    qed
  qed
qed (simp add: names_kept_def)

lemma all_fixups_ok: "chained_fixups_parse_all E c = Ok fs \<Longrightarrow> \<forall>f \<in> set fs. fixup_ok f"
  using segments_names [of "[]"]
  by (auto simp: chained_fixups_parse_all_def rbind_Ok_iff names_kept_def split: option.split_asm)

section \<open>Symbols\<close>

lemma symbol_name_ok: "read_symbol_name E img stroff k e = Ok f \<Longrightarrow> name_ok f"
  by (auto simp: read_symbol_name_def rbind_Ok_iff ok_or_Ok_iff dest: name_made)

lemma made_names:
  "sy_name (make_undefined f l w) = f" "sy_name (make_regular_local f v s cold thumb) = f"
  "sy_name (make_regular_export f v s cold thumb) = f" "sy_name (make_weak_def_export f v s cold thumb) = f"
  by (simp_all add: make_undefined_def make_regular_local_def make_regular_export_def make_weak_def_export_def)

definition symbols_ok :: "symbol list \<Rightarrow> bool" where
  "symbols_ok ys \<longleftrightarrow> (\<forall>y \<in> set ys. name_ok (sy_name y))"

lemma classified_ok:
  "classify_defined_symbol E img stroff entry ys = Ok zs \<Longrightarrow> symbols_ok ys \<Longrightarrow> symbols_ok zs"
  "classify_undefined_symbol E img stroff entry ys = Ok zs \<Longrightarrow> symbols_ok ys \<Longrightarrow> symbols_ok zs"
  by (auto simp: classify_defined_symbol_def classify_undefined_symbol_def defined_symbol_make_def symbols_ok_def
      rbind_Ok_iff made_names dest!: symbol_name_ok split: res.split_asm if_split_asm)

lemma symtab_ok: "symtab_loop E img stroff n off ys = Ok zs \<Longrightarrow> symbols_ok ys \<Longrightarrow> symbols_ok zs"
proof (induction n arbitrary: off ys)
  case (Suc n)
  then show ?case by (auto simp: rbind_Ok_iff dest: classified_ok split: if_split_asm)
qed simp

section \<open>The image\<close>

lemma parse_command_ok: "parse_command E img cmd off p = Ok q \<Longrightarrow> image_ok p \<Longrightarrow> image_ok q"
proof -
  assume run: "parse_command E img cmd off p = Ok q" and ok: "image_ok p"
  from ok have "symbols_ok (pi_symbols p)" by (simp add: image_ok_def symbols_ok_def)
  then have "parse_symtab E img off (pi_symbols p) = Ok ys \<Longrightarrow> symbols_ok ys" for ys
    by (auto simp: parse_symtab_def rbind_Ok_iff dest: symtab_ok)
  then show "image_ok q"
    using run ok unfolding parse_command_def
    by (auto simp: image_ok_def symbols_ok_def rbind_Ok_iff parse_segment_def dest: all_fixups_ok split: if_split_asm)
qed

lemma commands_ok: "commands_loop E img n off p = Ok q \<Longrightarrow> image_ok p \<Longrightarrow> image_ok q"
proof (induction n arbitrary: off p)
  case (Suc n)
  then show ?case by (auto simp: rbind_Ok_iff dest: parse_command_ok)
qed simp

lemma macho_parser_ok: "macho_parser E img = Ok p \<Longrightarrow> image_ok p"
  by (auto simp: macho_parser_def rbind_Ok_iff parsed_image_empty_def image_ok_def dest!: commands_ok split: if_split_asm)

lemma symbol_search:
  assumes "\<forall>y \<in> set ss. name_ok (sy_name y)" "name_ok name"
  shows "case find_map (\<lambda>y. rbind (array_string_cmp y name) (\<lambda>b. Ok (if b then Some y else None))) ss of
      Ok (Some y) \<Rightarrow> \<exists>ys zs. ss = ys @ y # zs \<and> fs_as_str (sy_name y) = fs_as_str name \<and>
        (\<forall>z \<in> set ys. fs_as_str (sy_name z) \<noteq> fs_as_str name)
    | Ok None \<Rightarrow> \<forall>y \<in> set ss. fs_as_str (sy_name y) \<noteq> fs_as_str name
    | _ \<Rightarrow> False"
  using assms(1)
proof (induction ss)
  case (Cons y ss)
  from Cons.prems assms(2) obtain a b where ab: "fs_as_str (sy_name y) = Ok a" "fs_as_str name = Ok b"
    by (auto simp: name_ok_def)
  let ?f = "\<lambda>y. rbind (array_string_cmp y name) (\<lambda>b. Ok (if b then Some y else None))"
  show ?case
  proof (cases "a = b")
    case True
    have "y # ss = [] @ y # ss" by simp
    with True ab show ?thesis by (simp add: array_string_cmp_def) fastforce
  next
    case False
    with ab have eq: "find_map ?f (y # ss) = find_map ?f ss" by (simp add: array_string_cmp_def)
    have ne: "fs_as_str (sy_name y) \<noteq> fs_as_str name" using ab False by simp
    from Cons consider "find_map ?f ss = Ok None" "\<forall>y \<in> set ss. fs_as_str (sy_name y) \<noteq> fs_as_str name"
      | z ys zs where "find_map ?f ss = Ok (Some z)" "ss = ys @ z # zs" "fs_as_str (sy_name z) = fs_as_str name"
        "\<forall>z \<in> set ys. fs_as_str (sy_name z) \<noteq> fs_as_str name"
      by (auto split: res.split_asm option.split_asm)
    then show ?thesis
    proof cases
      case 1
      with ne show ?thesis unfolding eq by simp
    next
      case 2
      then have "y # ss = (y # ys) @ z # zs" "\<forall>z \<in> set (y # ys). fs_as_str (sy_name z) \<noteq> fs_as_str name"
        using ne by simp_all
      with 2 show ?thesis unfolding eq by (simp only: res.case option.case) blast
    qed
  qed
qed simp

text \<open>C22: parsed images are well formed. The tables of segments and libraries of an accepted image are
  initialised and hold at most 64 entries, and every name in it, of a symbol or of a bind, is a string
  of at most 128 bytes of proper text without a NUL. So the search for a weak symbol among the image's
  own symbols reads no uninitialised memory and cannot panic: it finds the first symbol of the bind's
  name or says that there is none.\<close>

theorem parsed_image_well_formed:
  assumes "macho_parser E img = Ok p"
  shows "tables_ok p \<and> (\<forall>y \<in> set (pi_symbols p). name_ok (sy_name y)) \<and>
    (\<forall>f \<in> set (pi_fixups p). \<forall>name k a d. fx_kind f = Bind name k a d \<longrightarrow> name_ok name \<and>
      (case fixup_dylib_weak_symbol m dst off pz (pi_symbols p) name of
         Ok m' \<Rightarrow> \<exists>y ys zs. pi_symbols p = ys @ y # zs \<and> fs_as_str (sy_name y) = fs_as_str name \<and>
           (\<forall>z \<in> set ys. fs_as_str (sy_name z) \<noteq> fs_as_str name) \<and>
           m' = poke_u64 m (dst + off + pz) (dst + sy_impl_offset y)
       | Err e \<Rightarrow> e = Weak_Symbol_Missing \<and> (\<forall>y \<in> set (pi_symbols p). fs_as_str (sy_name y) \<noteq> fs_as_str name)
       | Panic q \<Rightarrow> False | Diverge \<Rightarrow> False))"
proof -
  have ok: "image_ok p" using macho_parser_ok [OF assms] .
  have "case fixup_dylib_weak_symbol m dst off pz (pi_symbols p) name of
         Ok m' \<Rightarrow> \<exists>y ys zs. pi_symbols p = ys @ y # zs \<and> fs_as_str (sy_name y) = fs_as_str name \<and>
           (\<forall>z \<in> set ys. fs_as_str (sy_name z) \<noteq> fs_as_str name) \<and>
           m' = poke_u64 m (dst + off + pz) (dst + sy_impl_offset y)
       | Err e \<Rightarrow> e = Weak_Symbol_Missing \<and> (\<forall>y \<in> set (pi_symbols p). fs_as_str (sy_name y) \<noteq> fs_as_str name)
       | Panic q \<Rightarrow> False | Diverge \<Rightarrow> False" if "name_ok name" for name
    using symbol_search [OF _ that, of "pi_symbols p"] ok
    by (auto simp: fixup_dylib_weak_symbol_def image_ok_def Let_def split: res.split_asm option.split_asm)
  with ok macho_parser_tables [OF assms] show ?thesis
    by (auto simp: image_ok_def fixup_ok_def)
qed

theorem parsed_image_well_formed_witness:
  "\<exists>p. macho_parser (scroll_ref True) sample_program = Ok p \<and> tables_ok p"
proof -
  obtain p where p: "macho_parser (scroll_ref True) sample_program = Ok p"
    using sample_program_parse by blast
  from parsed_image_well_formed [OF p] p show ?thesis by blast
qed

end
