(* ===== verification/Macho_Flags.thy ===== *)
theory Macho_Flags
  imports Macho_Bindings
begin

text \<open>
  The rest of \<open>src/src/bindings_macho.rs\<close>: what the file declares and no other part of the linker reads.
  Header flags, section types and attributes, segment and section names, symbol constants, the commands
  and structures of other tools, and the pointer words of the kernel-cache, segmented and shared-cache
  fixup formats. The lemmas show that the declarations are consistent with one another: flags are
  different single bits, the type and the attributes of a section share no bit, and the accessors of a
  pointer word lose none.
\<close>

unbundle bit_operations_syntax

section \<open>Header flags\<close>

datatype (plugins only: code) macho_flags_variants =
    MH_NOUNDEFS
  | MH_INCRLINK
  | MH_DYLDLINK
  | MH_BINDATLOAD
  | MH_PREBOUND
  | MH_SPLIT_SEGS
  | MH_LAZY_INIT
  | MH_TWOLEVEL
  | MH_FORCE_FLAT
  | MH_NOMULTIDEFS
  | MH_NOFIXPREBINDING
  | MH_PREBINDABLE
  | MH_ALLMODSBOUND
  | MH_SUBSECTIONS_VIA_SYMBOLS
  | MH_CANONICAL
  | MH_WEAK_DEFINES
  | MH_BINDS_TO_WEAK
  | MH_ALLOW_STACK_EXECUTION
  | MH_ROOT_SAFE
  | MH_SETUID_SAFE
  | MH_NO_REEXPORTED_DYLIBS
  | MH_PIE
  | MH_DEAD_STRIPPABLE_DYLIB
  | MH_HAS_TLV_DESCRIPTORS
  | MH_NO_HEAP_EXECUTION
  | MH_APP_EXTENSION_SAFE
  | MH_NLIST_OUTOFSYNC_WITH_DYLDINFO
  | MH_SIM_SUPPORT
  | MH_DYLIB_IN_CACHE

primrec macho_flags_variants_repr :: "macho_flags_variants \<Rightarrow> u32" where
    "macho_flags_variants_repr MH_NOUNDEFS = 0x1"
  | "macho_flags_variants_repr MH_INCRLINK = 0x2"
  | "macho_flags_variants_repr MH_DYLDLINK = 0x4"
  | "macho_flags_variants_repr MH_BINDATLOAD = 0x8"
  | "macho_flags_variants_repr MH_PREBOUND = 0x10"
  | "macho_flags_variants_repr MH_SPLIT_SEGS = 0x20"
  | "macho_flags_variants_repr MH_LAZY_INIT = 0x40"
  | "macho_flags_variants_repr MH_TWOLEVEL = 0x80"
  | "macho_flags_variants_repr MH_FORCE_FLAT = 0x100"
  | "macho_flags_variants_repr MH_NOMULTIDEFS = 0x200"
  | "macho_flags_variants_repr MH_NOFIXPREBINDING = 0x400"
  | "macho_flags_variants_repr MH_PREBINDABLE = 0x800"
  | "macho_flags_variants_repr MH_ALLMODSBOUND = 0x1000"
  | "macho_flags_variants_repr MH_SUBSECTIONS_VIA_SYMBOLS = 0x2000"
  | "macho_flags_variants_repr MH_CANONICAL = 0x4000"
  | "macho_flags_variants_repr MH_WEAK_DEFINES = 0x8000"
  | "macho_flags_variants_repr MH_BINDS_TO_WEAK = 0x10000"
  | "macho_flags_variants_repr MH_ALLOW_STACK_EXECUTION = 0x20000"
  | "macho_flags_variants_repr MH_ROOT_SAFE = 0x40000"
  | "macho_flags_variants_repr MH_SETUID_SAFE = 0x80000"
  | "macho_flags_variants_repr MH_NO_REEXPORTED_DYLIBS = 0x100000"
  | "macho_flags_variants_repr MH_PIE = 0x200000"
  | "macho_flags_variants_repr MH_DEAD_STRIPPABLE_DYLIB = 0x400000"
  | "macho_flags_variants_repr MH_HAS_TLV_DESCRIPTORS = 0x800000"
  | "macho_flags_variants_repr MH_NO_HEAP_EXECUTION = 0x1000000"
  | "macho_flags_variants_repr MH_APP_EXTENSION_SAFE = 0x2000000"
  | "macho_flags_variants_repr MH_NLIST_OUTOFSYNC_WITH_DYLDINFO = 0x4000000"
  | "macho_flags_variants_repr MH_SIM_SUPPORT = 0x8000000"
  | "macho_flags_variants_repr MH_DYLIB_IN_CACHE = 0x80000000"

definition macho_flags_variants_all :: "macho_flags_variants list" where
  "macho_flags_variants_all = [MH_NOUNDEFS, MH_INCRLINK, MH_DYLDLINK, MH_BINDATLOAD, MH_PREBOUND,
    MH_SPLIT_SEGS, MH_LAZY_INIT, MH_TWOLEVEL, MH_FORCE_FLAT, MH_NOMULTIDEFS,
    MH_NOFIXPREBINDING, MH_PREBINDABLE, MH_ALLMODSBOUND, MH_SUBSECTIONS_VIA_SYMBOLS, MH_CANONICAL,
    MH_WEAK_DEFINES, MH_BINDS_TO_WEAK, MH_ALLOW_STACK_EXECUTION, MH_ROOT_SAFE, MH_SETUID_SAFE,
    MH_NO_REEXPORTED_DYLIBS, MH_PIE, MH_DEAD_STRIPPABLE_DYLIB, MH_HAS_TLV_DESCRIPTORS, MH_NO_HEAP_EXECUTION,
    MH_APP_EXTENSION_SAFE, MH_NLIST_OUTOFSYNC_WITH_DYLDINFO, MH_SIM_SUPPORT, MH_DYLIB_IN_CACHE]"

section \<open>Section types and attributes\<close>

definition SECTION_ATTRIBUTES :: u32 where
  [const_defs]: "SECTION_ATTRIBUTES = 0xffffff00"

definition S_REGULAR :: u32 where
  [const_defs]: "S_REGULAR = 0x0"

definition S_ZEROFILL :: u32 where
  [const_defs]: "S_ZEROFILL = 0x1"

definition S_CSTRING_LITERALS :: u32 where
  [const_defs]: "S_CSTRING_LITERALS = 0x2"

definition S_4BYTE_LITERALS :: u32 where
  [const_defs]: "S_4BYTE_LITERALS = 0x3"

definition S_8BYTE_LITERALS :: u32 where
  [const_defs]: "S_8BYTE_LITERALS = 0x4"

definition S_LITERAL_POINTERS :: u32 where
  [const_defs]: "S_LITERAL_POINTERS = 0x5"

definition S_NON_LAZY_SYMBOL_POINTERS :: u32 where
  [const_defs]: "S_NON_LAZY_SYMBOL_POINTERS = 0x6"

definition S_LAZY_SYMBOL_POINTERS :: u32 where
  [const_defs]: "S_LAZY_SYMBOL_POINTERS = 0x7"

definition S_SYMBOL_STUBS :: u32 where
  [const_defs]: "S_SYMBOL_STUBS = 0x8"

definition S_MOD_INIT_FUNC_POINTERS :: u32 where
  [const_defs]: "S_MOD_INIT_FUNC_POINTERS = 0x9"

definition S_MOD_TERM_FUNC_POINTERS :: u32 where
  [const_defs]: "S_MOD_TERM_FUNC_POINTERS = 0xa"

definition S_COALESCED :: u32 where
  [const_defs]: "S_COALESCED = 0xb"

definition S_GB_ZEROFILL :: u32 where
  [const_defs]: "S_GB_ZEROFILL = 0xc"

definition S_INTERPOSING :: u32 where
  [const_defs]: "S_INTERPOSING = 0xd"

definition S_16BYTE_LITERALS :: u32 where
  [const_defs]: "S_16BYTE_LITERALS = 0xe"

definition S_DTRACE_DOF :: u32 where
  [const_defs]: "S_DTRACE_DOF = 0xf"

definition S_LAZY_DYLIB_SYMBOL_POINTERS :: u32 where
  [const_defs]: "S_LAZY_DYLIB_SYMBOL_POINTERS = 0x10"

definition S_THREAD_LOCAL_REGULAR :: u32 where
  [const_defs]: "S_THREAD_LOCAL_REGULAR = 0x11"

definition S_THREAD_LOCAL_ZEROFILL :: u32 where
  [const_defs]: "S_THREAD_LOCAL_ZEROFILL = 0x12"

definition S_THREAD_LOCAL_VARIABLE_POINTERS :: u32 where
  [const_defs]: "S_THREAD_LOCAL_VARIABLE_POINTERS = 0x14"

definition S_THREAD_LOCAL_INIT_FUNCTION_POINTERS :: u32 where
  [const_defs]: "S_THREAD_LOCAL_INIT_FUNCTION_POINTERS = 0x15"

definition SECTION_ATTRIBUTES_USR :: u32 where
  [const_defs]: "SECTION_ATTRIBUTES_USR = 0xff000000"

definition S_ATTR_PURE_INSTRUCTIONS :: u32 where
  [const_defs]: "S_ATTR_PURE_INSTRUCTIONS = 0x80000000"

definition S_ATTR_NO_TOC :: u32 where
  [const_defs]: "S_ATTR_NO_TOC = 0x40000000"

definition S_ATTR_STRIP_STATIC_SYMS :: u32 where
  [const_defs]: "S_ATTR_STRIP_STATIC_SYMS = 0x20000000"

definition S_ATTR_NO_DEAD_STRIP :: u32 where
  [const_defs]: "S_ATTR_NO_DEAD_STRIP = 0x10000000"

definition S_ATTR_LIVE_SUPPORT :: u32 where
  [const_defs]: "S_ATTR_LIVE_SUPPORT = 0x08000000"

definition S_ATTR_SELF_MODIFYING_CODE :: u32 where
  [const_defs]: "S_ATTR_SELF_MODIFYING_CODE = 0x04000000"

definition S_ATTR_DEBUG :: u32 where
  [const_defs]: "S_ATTR_DEBUG = 0x02000000"

definition SECTION_ATTRIBUTES_SYS :: u32 where
  [const_defs]: "SECTION_ATTRIBUTES_SYS = 0x00ffff00"

definition S_ATTR_SOME_INSTRUCTIONS :: u32 where
  [const_defs]: "S_ATTR_SOME_INSTRUCTIONS = 0x00000400"

definition S_ATTR_EXT_RELOC :: u32 where
  [const_defs]: "S_ATTR_EXT_RELOC = 0x00000200"

definition S_ATTR_LOC_RELOC :: u32 where
  [const_defs]: "S_ATTR_LOC_RELOC = 0x00000100"

section \<open>Segment and section names\<close>

definition SEG_PAGEZERO :: bytes where
  [const_defs]: "SEG_PAGEZERO = lit ''__PAGEZERO''"

definition SECT_TEXT :: bytes where
  [const_defs]: "SECT_TEXT = lit ''__text''"

definition SECT_FVMLIB_INIT0 :: bytes where
  [const_defs]: "SECT_FVMLIB_INIT0 = lit ''__fvmlib_init0''"

definition SECT_FVMLIB_INIT1 :: bytes where
  [const_defs]: "SECT_FVMLIB_INIT1 = lit ''__fvmlib_init1''"

definition SECT_DATA :: bytes where
  [const_defs]: "SECT_DATA = lit ''__data''"

definition SECT_BSS :: bytes where
  [const_defs]: "SECT_BSS = lit ''__bss''"

definition SECT_COMMON :: bytes where
  [const_defs]: "SECT_COMMON = lit ''__common''"

definition SEG_OBJC :: bytes where
  [const_defs]: "SEG_OBJC = lit ''__OBJC''"

definition SECT_OBJC_SYMBOLS :: bytes where
  [const_defs]: "SECT_OBJC_SYMBOLS = lit ''__symbol_table''"

definition SECT_OBJC_MODULES :: bytes where
  [const_defs]: "SECT_OBJC_MODULES = lit ''__module_info''"

definition SECT_OBJC_STRINGS :: bytes where
  [const_defs]: "SECT_OBJC_STRINGS = lit ''__selector_strs''"

definition SECT_OBJC_REFS :: bytes where
  [const_defs]: "SECT_OBJC_REFS = lit ''__selector_refs''"

definition SEG_ICON :: bytes where
  [const_defs]: "SEG_ICON = lit ''__ICON''"

definition SECT_ICON_HEADER :: bytes where
  [const_defs]: "SECT_ICON_HEADER = lit ''__header''"

definition SECT_ICON_TIFF :: bytes where
  [const_defs]: "SECT_ICON_TIFF = lit ''__tiff''"

definition SEG_LINKEDIT :: bytes where
  [const_defs]: "SEG_LINKEDIT = lit ''__LINKEDIT''"

definition SEG_UNIXSTACK :: bytes where
  [const_defs]: "SEG_UNIXSTACK = lit ''__UNIXSTACK''"

definition SEG_IMPORT :: bytes where
  [const_defs]: "SEG_IMPORT = lit ''__IMPORT''"

section \<open>Symbol table constants\<close>

definition STRIDX_NULL :: u32 where
  [const_defs]: "STRIDX_NULL = 0"

definition NO_SECT :: u8 where
  [const_defs]: "NO_SECT = 0"

definition MAX_SECT :: u8 where
  [const_defs]: "MAX_SECT = 255"

definition N_NO_DEAD_STRIP :: u16 where
  [const_defs]: "N_NO_DEAD_STRIP = 0x0020"

definition N_DESC_DISCARDED :: u16 where
  [const_defs]: "N_DESC_DISCARDED = 0x0020"

definition N_REF_TO_WEAK :: u16 where
  [const_defs]: "N_REF_TO_WEAK = 0x0080"
section \<open>Types and structures\<close>

type_synonym integer_t = i32
type_synonym cpu_type_t = integer_t
type_synonym cpu_subtype_t = integer_t
type_synonym vm_prot_t = u32

datatype (plugins only: code) c_void = Void_Variant1 | Void_Variant2

text \<open>A thunk is the address of its code.\<close>

type_synonym tlv_thunk = usize

record tlv_descriptor =
  td_thunk :: "tlv_thunk option"
  td_key :: u64
  td_offset :: u64

definition tlv_descriptor_layout :: layout where
  "tlv_descriptor_layout = [f_u64, f_u64, f_u64]"

record dysymtab_command =
  ds_cmd :: load_command_variants
  ds_cmdsize :: u32
  ds_ilocalsym :: u32
  ds_nlocalsym :: u32
  ds_iextdefsym :: u32
  ds_nextdefsym :: u32
  ds_iundefsym :: u32
  ds_nundefsym :: u32
  ds_tocoff :: u32
  ds_ntoc :: u32
  ds_modtaboff :: u32
  ds_nmodtab :: u32
  ds_extrefsymoff :: u32
  ds_nextrefsyms :: u32
  ds_indirectsymoff :: u32
  ds_nindirectsyms :: u32
  ds_extreloff :: u32
  ds_nextrel :: u32
  ds_locreloff :: u32
  ds_nlocrel :: u32

definition dysymtab_command_layout :: layout where
  "dysymtab_command_layout = replicate 20 f_u32"

record uuid_command =
  uu_cmd :: load_command_variants
  uu_cmdsize :: u32
  uu_uuid :: "u8 list"  \<comment> \<open>16 bytes\<close>

definition uuid_command_layout :: layout where
  "uuid_command_layout = [f_u32, f_u32, f_bytes 16]"

record dyld_chained_starts_offsets =
  so_pointer_format :: u32
  so_starts_count :: u32
  so_chain_starts :: "u32 list"  \<comment> \<open>one entry in the declaration\<close>

definition dyld_chained_starts_offsets_layout :: layout where
  "dyld_chained_starts_offsets_layout = [f_u32, f_u32, f_u32]"

section \<open>Pointer words\<close>

definition dyld_chained_ptr_arm64e_segmented_rebase_target_seg_offset :: "u64 \<Rightarrow> u32" where
  "dyld_chained_ptr_arm64e_segmented_rebase_target_seg_offset v = ucast (v AND 0x0FFFFFFF)"

definition dyld_chained_ptr_arm64e_segmented_rebase_target_seg_index :: "u64 \<Rightarrow> u8" where
  "dyld_chained_ptr_arm64e_segmented_rebase_target_seg_index v = ucast (drop_bit 28 v AND 0xF)"

definition dyld_chained_ptr_arm64e_segmented_rebase_next :: "u64 \<Rightarrow> u16" where
  "dyld_chained_ptr_arm64e_segmented_rebase_next v = ucast (drop_bit 51 v AND 0xFFF)"

definition dyld_chained_ptr_arm64e_auth_segmented_rebase_target_seg_offset :: "u64 \<Rightarrow> u32" where
  "dyld_chained_ptr_arm64e_auth_segmented_rebase_target_seg_offset v = ucast (v AND 0x0FFFFFFF)"

definition dyld_chained_ptr_arm64e_auth_segmented_rebase_target_seg_index :: "u64 \<Rightarrow> u8" where
  "dyld_chained_ptr_arm64e_auth_segmented_rebase_target_seg_index v = ucast (drop_bit 28 v AND 0xF)"

definition dyld_chained_ptr_arm64e_auth_segmented_rebase_diversity :: "u64 \<Rightarrow> u16" where
  "dyld_chained_ptr_arm64e_auth_segmented_rebase_diversity v = ucast (drop_bit 32 v AND 0xFFFF)"

definition dyld_chained_ptr_arm64e_auth_segmented_rebase_addr_div :: "u64 \<Rightarrow> bool" where
  "dyld_chained_ptr_arm64e_auth_segmented_rebase_addr_div v = (v AND push_bit 48 1 \<noteq> 0)"

definition dyld_chained_ptr_arm64e_auth_segmented_rebase_key :: "u64 \<Rightarrow> u8" where
  "dyld_chained_ptr_arm64e_auth_segmented_rebase_key v = ucast (drop_bit 49 v AND 0x3)"

definition dyld_chained_ptr_arm64e_auth_segmented_rebase_next :: "u64 \<Rightarrow> u16" where
  "dyld_chained_ptr_arm64e_auth_segmented_rebase_next v = ucast (drop_bit 51 v AND 0xFFF)"

definition dyld_chained_ptr_64_kernel_cache_rebase_target :: "u64 \<Rightarrow> u32" where
  "dyld_chained_ptr_64_kernel_cache_rebase_target v = ucast (v AND 0x3FFFFFFF)"

definition dyld_chained_ptr_64_kernel_cache_rebase_cache_level :: "u64 \<Rightarrow> u8" where
  "dyld_chained_ptr_64_kernel_cache_rebase_cache_level v = ucast (drop_bit 30 v AND 0x3)"

definition dyld_chained_ptr_64_kernel_cache_rebase_diversity :: "u64 \<Rightarrow> u16" where
  "dyld_chained_ptr_64_kernel_cache_rebase_diversity v = ucast (drop_bit 32 v AND 0xFFFF)"

definition dyld_chained_ptr_64_kernel_cache_rebase_addr_div :: "u64 \<Rightarrow> bool" where
  "dyld_chained_ptr_64_kernel_cache_rebase_addr_div v = (v AND push_bit 48 1 \<noteq> 0)"

definition dyld_chained_ptr_64_kernel_cache_rebase_key :: "u64 \<Rightarrow> u8" where
  "dyld_chained_ptr_64_kernel_cache_rebase_key v = ucast (drop_bit 49 v AND 0x3)"

definition dyld_chained_ptr_64_kernel_cache_rebase_next :: "u64 \<Rightarrow> u16" where
  "dyld_chained_ptr_64_kernel_cache_rebase_next v = ucast (drop_bit 51 v AND 0xFFF)"

definition dyld_chained_ptr_64_kernel_cache_rebase_is_auth :: "u64 \<Rightarrow> bool" where
  "dyld_chained_ptr_64_kernel_cache_rebase_is_auth v = (v AND push_bit 63 1 \<noteq> 0)"

definition dyld_chained_ptr_arm64e_shared_cache_rebase_runtime_offset :: "u64 \<Rightarrow> u64" where
  "dyld_chained_ptr_arm64e_shared_cache_rebase_runtime_offset v = v AND 0x00000003FFFFFFFF"

definition dyld_chained_ptr_arm64e_shared_cache_rebase_high8 :: "u64 \<Rightarrow> u8" where
  "dyld_chained_ptr_arm64e_shared_cache_rebase_high8 v = ucast (drop_bit 34 v AND 0xFF)"

definition dyld_chained_ptr_arm64e_shared_cache_rebase_next :: "u64 \<Rightarrow> u16" where
  "dyld_chained_ptr_arm64e_shared_cache_rebase_next v = ucast (drop_bit 52 v AND 0x7FF)"

section \<open>The flags of a header\<close>

lemma macho_flags_variants_all_complete: "f \<in> set macho_flags_variants_all"
  by (cases f) (simp_all add: macho_flags_variants_all_def)

text \<open>Bit 31 and the bits below 28, one flag each.\<close>

lemma macho_flags_bits:
  "map macho_flags_variants_repr macho_flags_variants_all = map (\<lambda>n. push_bit n 1) ([0..<28] @ [31])"
  by (simp add: macho_flags_variants_all_def upt_rec)

lemma macho_flags_single_bit: "\<exists>n < 32. macho_flags_variants_repr f = push_bit n 1"
proof -
  have "macho_flags_variants_repr f \<in> set (map macho_flags_variants_repr macho_flags_variants_all)"
    using macho_flags_variants_all_complete by simp
  then have "macho_flags_variants_repr f \<in> (\<lambda>n. push_bit n 1) ` set ([0..<28] @ [31])"
    unfolding macho_flags_bits by (simp only: set_map)
  then obtain n where "n \<in> set ([0..<28] @ [31])" "macho_flags_variants_repr f = push_bit n 1" by (rule imageE)
  then show ?thesis by (intro exI [of _ n]) auto
qed

lemma push_bit_1_inject: "push_bit m 1 = (push_bit n 1 :: u32) \<longleftrightarrow> m = n" if "m < 32" "n < 32"
proof
  assume "push_bit m 1 = (push_bit n 1 :: u32)"
  then have "bit (push_bit m 1 :: u32) m = bit (push_bit n 1 :: u32) m" by simp
  with that show "m = n" by (auto simp: bit_simps)
qed simp

lemma macho_flags_distinct: "distinct (map macho_flags_variants_repr macho_flags_variants_all)"
  unfolding macho_flags_bits distinct_map
proof
  have "inj_on (\<lambda>n. push_bit n 1 :: u32) {..<32}" by (rule inj_onI) (simp add: push_bit_1_inject del: push_bit_of_1)
  then show "inj_on (\<lambda>n. push_bit n 1 :: u32) (set ([0..<28] @ [31]))" by (rule inj_on_subset) auto
qed simp

lemma macho_flags_disjoint:
  assumes "f \<noteq> g"
  shows "macho_flags_variants_repr f AND macho_flags_variants_repr g = 0"
proof -
  obtain m n where m: "macho_flags_variants_repr f = push_bit m 1" "m < 32"
    and n: "macho_flags_variants_repr g = push_bit n 1" "n < 32"
    using macho_flags_single_bit [of f] macho_flags_single_bit [of g] by blast
  have "inj_on macho_flags_variants_repr (set macho_flags_variants_all)"
    using macho_flags_distinct by (simp add: distinct_map)
  then have "macho_flags_variants_repr f \<noteq> macho_flags_variants_repr g"
    using assms macho_flags_variants_all_complete by (auto simp: inj_on_def)
  with m n have "m \<noteq> n" by auto
  with m(1) n(1) show ?thesis by (auto intro!: bit_word_eqI simp: bit_simps)
qed

section \<open>The flags of a section\<close>

definition section_types :: "u32 list" where
  "section_types = [S_REGULAR, S_ZEROFILL, S_CSTRING_LITERALS, S_4BYTE_LITERALS, S_8BYTE_LITERALS, S_LITERAL_POINTERS,
    S_NON_LAZY_SYMBOL_POINTERS, S_LAZY_SYMBOL_POINTERS, S_SYMBOL_STUBS, S_MOD_INIT_FUNC_POINTERS,
    S_MOD_TERM_FUNC_POINTERS, S_COALESCED, S_GB_ZEROFILL, S_INTERPOSING, S_16BYTE_LITERALS, S_DTRACE_DOF,
    S_LAZY_DYLIB_SYMBOL_POINTERS, S_THREAD_LOCAL_REGULAR, S_THREAD_LOCAL_ZEROFILL, S_THREAD_LOCAL_VARIABLES,
    S_THREAD_LOCAL_VARIABLE_POINTERS, S_THREAD_LOCAL_INIT_FUNCTION_POINTERS, S_INIT_FUNC_OFFSETS]"

definition section_attributes :: "u32 list" where
  "section_attributes = [S_ATTR_PURE_INSTRUCTIONS, S_ATTR_NO_TOC, S_ATTR_STRIP_STATIC_SYMS, S_ATTR_NO_DEAD_STRIP,
    S_ATTR_LIVE_SUPPORT, S_ATTR_SELF_MODIFYING_CODE, S_ATTR_DEBUG, S_ATTR_SOME_INSTRUCTIONS, S_ATTR_EXT_RELOC,
    S_ATTR_LOC_RELOC]"

text \<open>The types are numbered without a gap, and fit the mask that reads them.\<close>

lemma section_types_consecutive: "section_types = map of_nat [0..<23]"
  by (simp add: section_types_def const_defs upt_rec)

lemma section_type_masked:
  assumes "t \<in> set section_types" "a \<in> set section_attributes"
  shows "(t OR a) AND SECTION_TYPE = t"
proof -
  have ff: "w AND 0xff = take_bit 8 w" for w :: u32 by (simp add: take_bit_eq_mask mask_eq_exp_minus_1)
  have "take_bit 8 t = t"
    using assms(1) by (auto simp: section_types_def const_defs take_bit_eq_mod)
  moreover have "take_bit 8 a = 0"
    using assms(2) by (auto simp: section_attributes_def const_defs take_bit_eq_mod)
  ultimately show ?thesis by (simp add: SECTION_TYPE_def ff)
qed

text \<open>A flags word is its type, its system attributes and its user attributes.\<close>

lemma section_flags_parts:
  "(w AND SECTION_TYPE) OR (w AND SECTION_ATTRIBUTES_SYS) OR (w AND SECTION_ATTRIBUTES_USR) = w"
  "SECTION_TYPE AND SECTION_ATTRIBUTES = 0"
  "SECTION_ATTRIBUTES_SYS OR SECTION_ATTRIBUTES_USR = SECTION_ATTRIBUTES"
proof -
  have "SECTION_TYPE OR SECTION_ATTRIBUTES_SYS OR SECTION_ATTRIBUTES_USR = - 1" by (simp add: const_defs)
  then show "(w AND SECTION_TYPE) OR (w AND SECTION_ATTRIBUTES_SYS) OR (w AND SECTION_ATTRIBUTES_USR) = w"
    by (simp flip: bit.conj_disj_distrib)
qed (simp_all add: const_defs)

section \<open>The fields of a pointer word\<close>

lemma and_masks_rest:
  "v AND 0xF = take_bit 4 v" "v AND 0x0FFFFFFF = take_bit 28 v" "v AND 0x3FFFFFFF = take_bit 30 v"
  "v AND 0x00000003FFFFFFFF = take_bit 34 v"
  for v :: u64
  by (simp_all add: take_bit_eq_mask mask_eq_exp_minus_1)

lemma segmented_rebase_reassemble:
  "ucast (dyld_chained_ptr_arm64e_segmented_rebase_target_seg_offset v)
     OR push_bit 28 (ucast (dyld_chained_ptr_arm64e_segmented_rebase_target_seg_index v))
     OR push_bit 32 (take_bit 19 (drop_bit 32 v))
     OR push_bit 51 (ucast (dyld_chained_ptr_arm64e_segmented_rebase_next v))
     OR push_bit 63 (drop_bit 63 v) = v"
  using split_low [of 28 v] split_field [of 28 4 v] split_field [of 32 19 v] split_field [of 51 12 v]
  unfolding dyld_chained_ptr_arm64e_segmented_rebase_target_seg_offset_def
    dyld_chained_ptr_arm64e_segmented_rebase_target_seg_index_def dyld_chained_ptr_arm64e_segmented_rebase_next_def
  by (simp add: reassemble and_masks_rest)

lemma auth_segmented_rebase_reassemble:
  "ucast (dyld_chained_ptr_arm64e_auth_segmented_rebase_target_seg_offset v)
     OR push_bit 28 (ucast (dyld_chained_ptr_arm64e_auth_segmented_rebase_target_seg_index v))
     OR push_bit 32 (ucast (dyld_chained_ptr_arm64e_auth_segmented_rebase_diversity v))
     OR push_bit 48 (of_bool (dyld_chained_ptr_arm64e_auth_segmented_rebase_addr_div v))
     OR push_bit 49 (ucast (dyld_chained_ptr_arm64e_auth_segmented_rebase_key v))
     OR push_bit 51 (ucast (dyld_chained_ptr_arm64e_auth_segmented_rebase_next v))
     OR push_bit 63 (drop_bit 63 v) = v"
  using split_low [of 28 v] split_field [of 28 4 v] split_field [of 32 16 v] split_bit [of 48 v] split_field [of 49 2 v]
    split_field [of 51 12 v]
  unfolding dyld_chained_ptr_arm64e_auth_segmented_rebase_target_seg_offset_def
    dyld_chained_ptr_arm64e_auth_segmented_rebase_target_seg_index_def dyld_chained_ptr_arm64e_auth_segmented_rebase_diversity_def
    dyld_chained_ptr_arm64e_auth_segmented_rebase_addr_div_def dyld_chained_ptr_arm64e_auth_segmented_rebase_key_def
    dyld_chained_ptr_arm64e_auth_segmented_rebase_next_def and_single_bit
  by (simp add: reassemble and_masks_rest)

lemma kernel_cache_rebase_reassemble:
  "ucast (dyld_chained_ptr_64_kernel_cache_rebase_target v)
     OR push_bit 30 (ucast (dyld_chained_ptr_64_kernel_cache_rebase_cache_level v))
     OR push_bit 32 (ucast (dyld_chained_ptr_64_kernel_cache_rebase_diversity v))
     OR push_bit 48 (of_bool (dyld_chained_ptr_64_kernel_cache_rebase_addr_div v))
     OR push_bit 49 (ucast (dyld_chained_ptr_64_kernel_cache_rebase_key v))
     OR push_bit 51 (ucast (dyld_chained_ptr_64_kernel_cache_rebase_next v))
     OR push_bit 63 (of_bool (dyld_chained_ptr_64_kernel_cache_rebase_is_auth v)) = v"
proof -
  have "push_bit 63 (of_bool (bit v 63)) = push_bit 63 (drop_bit 63 v)"
    using split_bit [of 63 v] by (simp add: drop_bit_eq_div)
  then show ?thesis
    using split_low [of 30 v] split_field [of 30 2 v] split_field [of 32 16 v] split_bit [of 48 v] split_field [of 49 2 v]
      split_field [of 51 12 v]
    unfolding dyld_chained_ptr_64_kernel_cache_rebase_target_def dyld_chained_ptr_64_kernel_cache_rebase_cache_level_def
      dyld_chained_ptr_64_kernel_cache_rebase_diversity_def dyld_chained_ptr_64_kernel_cache_rebase_addr_div_def
      dyld_chained_ptr_64_kernel_cache_rebase_key_def dyld_chained_ptr_64_kernel_cache_rebase_next_def
      dyld_chained_ptr_64_kernel_cache_rebase_is_auth_def and_single_bit
    by (simp add: reassemble and_masks_rest)
qed

lemma shared_cache_rebase_reassemble:
  "dyld_chained_ptr_arm64e_shared_cache_rebase_runtime_offset v
     OR push_bit 34 (ucast (dyld_chained_ptr_arm64e_shared_cache_rebase_high8 v))
     OR push_bit 42 (take_bit 10 (drop_bit 42 v))
     OR push_bit 52 (ucast (dyld_chained_ptr_arm64e_shared_cache_rebase_next v))
     OR push_bit 63 (drop_bit 63 v) = v"
  using split_low [of 34 v] split_field [of 34 8 v] split_field [of 42 10 v] split_field [of 52 11 v]
  unfolding dyld_chained_ptr_arm64e_shared_cache_rebase_runtime_offset_def
    dyld_chained_ptr_arm64e_shared_cache_rebase_high8_def dyld_chained_ptr_arm64e_shared_cache_rebase_next_def
  by (simp add: reassemble and_masks_rest)

end
