(* ===== verification/Ptrauth.thy ===== *)
theory Ptrauth
  imports Rust_Prelude
begin

text \<open>
  \<open>src/src/ptrauth.rs\<close>: the naked functions that sign and authenticate pointers. Each is two machine
  instructions; they are run here on the registers they name, under the C calling convention (arguments
  in \<open>x0\<close> and \<open>x1\<close>, the result in \<open>x0\<close>). What the signing unit of the CPU computes is a parameter. The
  module is not part of the build (its line in \<open>main.rs\<close> is a comment); the lemmas at the end are the tests
  that the file holds as a comment.
\<close>

unbundle bit_operations_syntax

section \<open>The signing unit\<close>

datatype pac_key = IA | IB | DA | DB

text \<open>Authentication of a pointer that was not signed so either faults, here \<open>None\<close>, or gives some other pointer.\<close>

record pac_unit =
  pu_sign :: "pac_key \<Rightarrow> u64 \<Rightarrow> u64 \<Rightarrow> u64"
  pu_auth :: "pac_key \<Rightarrow> u64 \<Rightarrow> u64 \<Rightarrow> u64 option"
  pu_generic :: "u64 \<Rightarrow> u64 \<Rightarrow> u64"

section \<open>Instructions\<close>

datatype reg = X0 | X1

type_synonym regs = "reg \<Rightarrow> u64"

text \<open>\<open>pacia d, n\<close> is \<open>Pac IA d n\<close>, \<open>paciza d\<close> is \<open>Pacz IA d\<close>, and so on for the other keys.\<close>

datatype instr =
    Pac pac_key reg reg
  | Aut pac_key reg reg
  | Pacz pac_key reg
  | Autz pac_key reg
  | Pacga reg reg reg
  | Ret

fun instr_exec :: "pac_unit \<Rightarrow> instr \<Rightarrow> regs \<Rightarrow> regs option" where
  "instr_exec U (Pac k d n) r = Some (r(d := pu_sign U k (r d) (r n)))"
| "instr_exec U (Aut k d n) r = map_option (\<lambda>p. r(d := p)) (pu_auth U k (r d) (r n))"
| "instr_exec U (Pacz k d) r = Some (r(d := pu_sign U k (r d) 0))"
| "instr_exec U (Autz k d) r = map_option (\<lambda>p. r(d := p)) (pu_auth U k (r d) 0)"
| "instr_exec U (Pacga d n m) r = Some (r(d := pu_generic U (r n) (r m)))"
| "instr_exec U Ret r = Some r"

text \<open>The body of a naked function; without a \<open>Ret\<close> it would run into what follows, so it has no result.\<close>

fun naked_asm :: "pac_unit \<Rightarrow> instr list \<Rightarrow> regs \<Rightarrow> u64 option" where
  "naked_asm U [] r = None"
| "naked_asm U (Ret # is') r = Some (r X0)"
| "naked_asm U (i # is') r = Option.bind (instr_exec U i r) (naked_asm U is')"

text \<open>A call with two arguments, and one with one: \<open>x1\<close> is then whatever the caller left there.\<close>

definition call2 :: "pac_unit \<Rightarrow> instr list \<Rightarrow> u64 \<Rightarrow> u64 \<Rightarrow> u64 option" where
  "call2 U code a b = naked_asm U code (\<lambda>r. case r of X0 \<Rightarrow> a | X1 \<Rightarrow> b)"

definition call1 :: "pac_unit \<Rightarrow> instr list \<Rightarrow> u64 \<Rightarrow> u64 \<Rightarrow> u64 option" where
  "call1 U code left_in_x1 a = naked_asm U code (\<lambda>r. case r of X0 \<Rightarrow> a | X1 \<Rightarrow> left_in_x1)"

section \<open>The functions\<close>

definition pacia :: "pac_unit \<Rightarrow> u64 \<Rightarrow> u64 \<Rightarrow> u64 option" where
  "pacia U p context = call2 U [Pac IA X0 X1, Ret] p context"

definition autia :: "pac_unit \<Rightarrow> u64 \<Rightarrow> u64 \<Rightarrow> u64 option" where
  "autia U p context = call2 U [Aut IA X0 X1, Ret] p context"

definition pacib :: "pac_unit \<Rightarrow> u64 \<Rightarrow> u64 \<Rightarrow> u64 option" where
  "pacib U p context = call2 U [Pac IB X0 X1, Ret] p context"

definition autib :: "pac_unit \<Rightarrow> u64 \<Rightarrow> u64 \<Rightarrow> u64 option" where
  "autib U p context = call2 U [Aut IB X0 X1, Ret] p context"

definition pacda :: "pac_unit \<Rightarrow> u64 \<Rightarrow> u64 \<Rightarrow> u64 option" where
  "pacda U p context = call2 U [Pac DA X0 X1, Ret] p context"

definition autda :: "pac_unit \<Rightarrow> u64 \<Rightarrow> u64 \<Rightarrow> u64 option" where
  "autda U p context = call2 U [Aut DA X0 X1, Ret] p context"

definition pacdb :: "pac_unit \<Rightarrow> u64 \<Rightarrow> u64 \<Rightarrow> u64 option" where
  "pacdb U p context = call2 U [Pac DB X0 X1, Ret] p context"

definition autdb :: "pac_unit \<Rightarrow> u64 \<Rightarrow> u64 \<Rightarrow> u64 option" where
  "autdb U p context = call2 U [Aut DB X0 X1, Ret] p context"

definition paciza :: "pac_unit \<Rightarrow> u64 \<Rightarrow> u64 \<Rightarrow> u64 option" where
  "paciza U left_in_x1 p = call1 U [Pacz IA X0, Ret] left_in_x1 p"

definition autiza :: "pac_unit \<Rightarrow> u64 \<Rightarrow> u64 \<Rightarrow> u64 option" where
  "autiza U left_in_x1 p = call1 U [Autz IA X0, Ret] left_in_x1 p"

definition pacizb :: "pac_unit \<Rightarrow> u64 \<Rightarrow> u64 \<Rightarrow> u64 option" where
  "pacizb U left_in_x1 p = call1 U [Pacz IB X0, Ret] left_in_x1 p"

definition autizb :: "pac_unit \<Rightarrow> u64 \<Rightarrow> u64 \<Rightarrow> u64 option" where
  "autizb U left_in_x1 p = call1 U [Autz IB X0, Ret] left_in_x1 p"

definition pacdza :: "pac_unit \<Rightarrow> u64 \<Rightarrow> u64 \<Rightarrow> u64 option" where
  "pacdza U left_in_x1 p = call1 U [Pacz DA X0, Ret] left_in_x1 p"

definition autdza :: "pac_unit \<Rightarrow> u64 \<Rightarrow> u64 \<Rightarrow> u64 option" where
  "autdza U left_in_x1 p = call1 U [Autz DA X0, Ret] left_in_x1 p"

definition pacdzb :: "pac_unit \<Rightarrow> u64 \<Rightarrow> u64 \<Rightarrow> u64 option" where
  "pacdzb U left_in_x1 p = call1 U [Pacz DB X0, Ret] left_in_x1 p"

definition autdzb :: "pac_unit \<Rightarrow> u64 \<Rightarrow> u64 \<Rightarrow> u64 option" where
  "autdzb U left_in_x1 p = call1 U [Autz DB X0, Ret] left_in_x1 p"

definition pacga :: "pac_unit \<Rightarrow> u64 \<Rightarrow> u64 \<Rightarrow> u64 option" where
  "pacga U p context = call2 U [Pacga X0 X0 X1, Ret] p context"

section \<open>What the functions return\<close>

lemmas sign_defs = pacia_def pacib_def pacda_def pacdb_def paciza_def pacizb_def pacdza_def pacdzb_def
lemmas auth_defs = autia_def autib_def autda_def autdb_def autiza_def autizb_def autdza_def autdzb_def

lemma sign_returns:
  "pacia U p c = Some (pu_sign U IA p c)" "pacib U p c = Some (pu_sign U IB p c)"
  "pacda U p c = Some (pu_sign U DA p c)" "pacdb U p c = Some (pu_sign U DB p c)"
  "paciza U j p = Some (pu_sign U IA p 0)" "pacizb U j p = Some (pu_sign U IB p 0)"
  "pacdza U j p = Some (pu_sign U DA p 0)" "pacdzb U j p = Some (pu_sign U DB p 0)"
  by (simp_all add: sign_defs call1_def call2_def)

lemma auth_returns:
  "autia U p c = pu_auth U IA p c" "autib U p c = pu_auth U IB p c"
  "autda U p c = pu_auth U DA p c" "autdb U p c = pu_auth U DB p c"
  "autiza U j p = pu_auth U IA p 0" "autizb U j p = pu_auth U IB p 0"
  "autdza U j p = pu_auth U DA p 0" "autdzb U j p = pu_auth U DB p 0"
  by (simp_all add: auth_defs call1_def call2_def map_option_case split: option.split)

text \<open>What is left in \<open>x1\<close> plays no part in the functions of one argument.\<close>

lemma zero_forms:
  "paciza U j = (\<lambda>p. pacia U p 0)" "pacizb U j = (\<lambda>p. pacib U p 0)"
  "pacdza U j = (\<lambda>p. pacda U p 0)" "pacdzb U j = (\<lambda>p. pacdb U p 0)"
  "autiza U j = (\<lambda>p. autia U p 0)" "autizb U j = (\<lambda>p. autib U p 0)"
  "autdza U j = (\<lambda>p. autda U p 0)" "autdzb U j = (\<lambda>p. autdb U p 0)"
  by (simp_all add: sign_returns auth_returns fun_eq_iff)

lemma pacga_returns: "pacga U p c = Some (pu_generic U p c)"
  by (simp add: pacga_def call2_def)

section \<open>Signing and authenticating\<close>

text \<open>The manual of the architecture: a signed canonical pointer authenticates under the same key and modifier.\<close>

definition authenticates :: "(u64 \<Rightarrow> bool) \<Rightarrow> pac_unit \<Rightarrow> bool" where
  "authenticates canonical U \<longleftrightarrow> (\<forall>k p c. canonical p \<longrightarrow> pu_auth U k (pu_sign U k p c) c = Some p)"

lemma signed_pointer_authenticates:
  assumes "authenticates canonical U" "canonical p"
  shows "Option.bind (pacia U p c) (\<lambda>q. autia U q c) = Some p" "Option.bind (pacib U p c) (\<lambda>q. autib U q c) = Some p"
    "Option.bind (pacda U p c) (\<lambda>q. autda U q c) = Some p" "Option.bind (pacdb U p c) (\<lambda>q. autdb U q c) = Some p"
    "Option.bind (paciza U i p) (autiza U j) = Some p" "Option.bind (pacizb U i p) (autizb U j) = Some p"
    "Option.bind (pacdza U i p) (autdza U j) = Some p" "Option.bind (pacdzb U i p) (autdzb U j) = Some p"
  using assms by (simp_all add: authenticates_def sign_returns auth_returns)

text \<open>
  A signing unit for user pointers of 48 bits: the code in the upper bits depends on the key, the pointer
  and the modifier; authentication recomputes it and faults when it differs.
\<close>

definition user_pointer :: "u64 \<Rightarrow> bool" where
  "user_pointer p \<longleftrightarrow> take_bit 48 p = p"

definition key_word :: "pac_key \<Rightarrow> u64" where
  "key_word k = (case k of IA \<Rightarrow> 0x11 | IB \<Rightarrow> 0x22 | DA \<Rightarrow> 0x44 | DB \<Rightarrow> 0x88)"

definition code_of :: "pac_key \<Rightarrow> u64 \<Rightarrow> u64 \<Rightarrow> u64" where
  "code_of k p c = drop_bit 32 p XOR p XOR drop_bit 48 c XOR c XOR key_word k"

definition unit_ref :: pac_unit where
  "unit_ref =
     (let sgn = \<lambda>k p c. take_bit 48 p OR push_bit 48 (code_of k p c) in
      \<lparr>pu_sign = sgn,
       pu_auth = (\<lambda>k q c. let p = take_bit 48 q in if sgn k p c = q then Some p else None),
       pu_generic = (\<lambda>p c. push_bit 32 (code_of IA p c))\<rparr>)"

text \<open>The pointer below its code.\<close>

lemma pointer_part: "user_pointer p \<Longrightarrow> take_bit 48 (take_bit 48 p OR push_bit 48 w) = p"
proof -
  have "take_bit 48 (take_bit 48 p OR push_bit 48 w) = take_bit 48 p"
    by (rule bit_word_eqI) (auto simp: bit_simps)
  then show "user_pointer p \<Longrightarrow> ?thesis" by (simp only: user_pointer_def)
qed

lemma xor_left_cancel: "a XOR b = a XOR c \<longleftrightarrow> b = c" for a :: u64
proof
  assume "a XOR b = a XOR c"
  then have "a XOR (a XOR b) = a XOR (a XOR c)" by simp
  then show "b = c" by (simp flip: xor.assoc)
qed simp

lemma unit_ref_authenticates: "authenticates user_pointer unit_ref"
  unfolding authenticates_def
proof (intro allI impI)
  fix k p c assume "user_pointer p"
  then show "pu_auth unit_ref k (pu_sign unit_ref k p c) c = Some p"
    using pointer_part by (simp only: unit_ref_def Let_def pac_unit.simps if_True simp_thms)
qed

text \<open>The pointer and the modifier of the tests.\<close>

lemma tests:
  "Option.bind (pacia unit_ref 0x123456789abc 0xdeadbeefcafef00d) (\<lambda>q. autia unit_ref q 0xdeadbeefcafef00d) = Some 0x123456789abc"
  "Option.bind (pacdzb unit_ref 0 0x123456789abc) (autdzb unit_ref 1) = Some 0x123456789abc"
proof -
  have p: "user_pointer 0x123456789abc" by (simp add: user_pointer_def take_bit_eq_mod)
  note runs = signed_pointer_authenticates [OF unit_ref_authenticates p]
  show "Option.bind (pacia unit_ref 0x123456789abc 0xdeadbeefcafef00d) (\<lambda>q. autia unit_ref q 0xdeadbeefcafef00d) = Some 0x123456789abc"
    by (rule runs(1))
  show "Option.bind (pacdzb unit_ref 0 0x123456789abc) (autdzb unit_ref 1) = Some 0x123456789abc"
    by (rule runs(8))
qed

text \<open>A pointer signed with one key does not authenticate with another on this unit.\<close>

lemma other_key_faults:
  assumes "k \<noteq> k'" "user_pointer p"
  shows "pu_auth unit_ref k' (pu_sign unit_ref k p c) c = None"
proof -
  have codes: "take_bit 16 (code_of k p c) \<noteq> take_bit 16 (code_of k' p c)"
  proof
    assume "take_bit 16 (code_of k p c) = take_bit 16 (code_of k' p c)"
    then have "take_bit 16 (key_word k) = take_bit 16 (key_word k')"
      by (simp add: code_of_def xor_left_cancel)
    with assms(1) show False by (cases k; cases k'; simp add: key_word_def take_bit_eq_mod)
  qed
  have "take_bit 48 p OR push_bit 48 (code_of k' p c) \<noteq> take_bit 48 p OR push_bit 48 (code_of k p c)"
  proof
    assume "take_bit 48 p OR push_bit 48 (code_of k' p c) = take_bit 48 p OR push_bit 48 (code_of k p c)"
    then have "drop_bit 48 (take_bit 48 p OR push_bit 48 (code_of k' p c)) = drop_bit 48 (take_bit 48 p OR push_bit 48 (code_of k p c))"
      by simp
    moreover have "drop_bit 48 (take_bit 48 p OR push_bit 48 w) = take_bit 16 w" for w
      by (rule bit_word_eqI) (auto simp: bit_simps)
    ultimately show False using codes by simp
  qed
  then show ?thesis using pointer_part [OF assms(2)] by (simp only: unit_ref_def Let_def pac_unit.simps if_False)
qed

end
