(* ===== verification/Dyld_Infos.thy ===== *)
theory Dyld_Infos
  imports Macho_Bindings
begin

text \<open>
  \<open>src/src/dsc.rs\<close>: the record of what the dynamic linker of the system knows about a process, with the
  layout that \<open>repr(C)\<close> gives it and its default value. The file also declares two C functions; the one
  the linker calls is \<open>dyld_shared_cache_base_address_get\<close> in \<open>Process\<close>.
\<close>

record user64_dyld_all_image_infos =
  ai_version :: u32
  ai_infoArrayCount :: u32
  ai_infoArray :: u64
  ai_notification :: u64
  ai_processDetachedFromSharedRegion :: u8
  ai_libSystemInitialized :: u8
  ai_dyldImageLoadAddress :: u64
  ai_jitInfo :: u64
  ai_dyldVersion :: u64
  ai_errorMessage :: u64
  ai_terminationFlags :: u64
  ai_coreSymbolicationShmPage :: u64
  ai_systemOrderFlag :: u64
  ai_uuidArrayCount :: u64
  ai_uuidArray :: u64
  ai_dyldAllImageInfosAddress :: u64
  ai_initialImageCount :: u64
  ai_errorKind :: u64
  ai_errorClientOfDylibPath :: u64
  ai_errorTargetDylibPath :: u64
  ai_errorSymbol :: u64
  ai_sharedCacheSlide :: u64
  ai_sharedCacheUUID :: "u8 list"  \<comment> \<open>16 elements\<close>
  ai_sharedCacheBaseAddress :: u64
  ai_timestamp :: u64
  ai_dyldPath :: u64
  ai_notifyMachPorts :: "u32 list"  \<comment> \<open>8 elements\<close>
  ai_reserved :: "u64 list"  \<comment> \<open>9 elements\<close>
  ai_compact_dyld_image_info_addr :: u64
  ai_compact_dyld_image_info_size :: u64
  ai_platform :: u32
  ai_aotInfoArrayCount :: u32
  ai_aotInfoArray :: u64
  ai_aotTimestamp :: u64

definition user64_dyld_all_image_infos_layout :: layout where
  "user64_dyld_all_image_infos_layout =
    [f_u32, f_u32, f_u64, f_u64, f_u8, f_u8, f_u64, f_u64, f_u64, f_u64,
     f_u64, f_u64, f_u64, f_u64, f_u64, f_u64, f_u64, f_u64, f_u64, f_u64,
     f_u64, f_u64, (16, 1), f_u64, f_u64, f_u64, (32, 4), (72, 8), f_u64, f_u64,
     f_u32, f_u32, f_u64, f_u64]"

definition user64_dyld_all_image_infos_default :: user64_dyld_all_image_infos where
  "user64_dyld_all_image_infos_default =
    \<lparr>ai_version = 0, ai_infoArrayCount = 0, ai_infoArray = 0,
     ai_notification = 0, ai_processDetachedFromSharedRegion = 0, ai_libSystemInitialized = 0,
     ai_dyldImageLoadAddress = 0, ai_jitInfo = 0, ai_dyldVersion = 0,
     ai_errorMessage = 0, ai_terminationFlags = 0, ai_coreSymbolicationShmPage = 0,
     ai_systemOrderFlag = 0, ai_uuidArrayCount = 0, ai_uuidArray = 0,
     ai_dyldAllImageInfosAddress = 0, ai_initialImageCount = 0, ai_errorKind = 0,
     ai_errorClientOfDylibPath = 0, ai_errorTargetDylibPath = 0, ai_errorSymbol = 0,
     ai_sharedCacheSlide = 0, ai_sharedCacheUUID = replicate 16 0, ai_sharedCacheBaseAddress = 0,
     ai_timestamp = 0, ai_dyldPath = 0, ai_notifyMachPorts = replicate 8 0,
     ai_reserved = replicate 9 0, ai_compact_dyld_image_info_addr = 0, ai_compact_dyld_image_info_size = 0,
     ai_platform = 0, ai_aotInfoArrayCount = 0, ai_aotInfoArray = 0,
     ai_aotTimestamp = 0\<rparr>"

text \<open>The record is 344 bytes long; the base of the shared cache is at offset 176 and the padding after the
  two flags is six bytes. The lengths of the arrays are part of the types of the declaration.\<close>

definition infos_arrays_ok :: "user64_dyld_all_image_infos \<Rightarrow> bool" where
  "infos_arrays_ok i \<longleftrightarrow> length (ai_sharedCacheUUID i) = 16 \<and> length (ai_notifyMachPorts i) = 8 \<and> length (ai_reserved i) = 9"

lemma infos_layout:
  "size_of user64_dyld_all_image_infos_layout = 344" "packed_size user64_dyld_all_image_infos_layout = 338"
  "fields_end 0 (take 23 user64_dyld_all_image_infos_layout) = 176"
  by (simp_all add: user64_dyld_all_image_infos_layout_def size_of_def packed_size_def round_up_def)

lemma infos_default_ok: "infos_arrays_ok user64_dyld_all_image_infos_default"
  by (simp add: infos_arrays_ok_def user64_dyld_all_image_infos_default_def)

end
