(* ===== verification/Vec_Views.thy ===== *)
theory Vec_Views
  imports Fixed_Vec
begin

text \<open>
  The parts of \<open>src/src/array.rs\<close> that give access to a vector without changing its length: the three
  kinds of array a vector can be over, with the contract of the trait \<open>UninitArray\<close> as a locale, the
  borrowed slices and iterators, and \<open>into_inner_slice\<close>. A pointer to the first element is the cells it
  points to; a mutable one comes with the array that results when those cells are overwritten.
\<close>

section \<open>Arrays\<close>

type_synonym 'a array_vec = "'a fixed_vec"
type_synonym array_string = fixed_string

text \<open>\<open>[MaybeUninit<T>; N]\<close>, \<open>[MaybeUninit<T>]\<close> and \<open>&mut A\<close>.\<close>

datatype 'a uninit_array =
    Inline_Array "'a cells"
  | Slice_Array "'a cells"
  | Borrowed "'a uninit_array"

primrec ua_len :: "'a uninit_array \<Rightarrow> usize" where
  "ua_len (Inline_Array c) = of_nat (length c)"
| "ua_len (Slice_Array c) = of_nat (length c)"
| "ua_len (Borrowed a) = ua_len a"

primrec ua_as_ptr :: "'a uninit_array \<Rightarrow> 'a cells" where
  "ua_as_ptr (Inline_Array c) = c"
| "ua_as_ptr (Slice_Array c) = c"
| "ua_as_ptr (Borrowed a) = ua_as_ptr a"

primrec ua_as_mut_ptr :: "'a uninit_array \<Rightarrow> 'a cells \<times> ('a cells \<Rightarrow> 'a uninit_array)" where
  "ua_as_mut_ptr (Inline_Array c) = (c, Inline_Array)"
| "ua_as_mut_ptr (Slice_Array c) = (c, Slice_Array)"
| "ua_as_mut_ptr (Borrowed a) = (case ua_as_mut_ptr a of (c, put) \<Rightarrow> (c, \<lambda>d. Borrowed (put d)))"

text \<open>The functions of the trait must be coherent with one another: up to \<open>len\<close> elements can be accessed
  and modified through the pointers, and the length cannot change.\<close>

locale uninit_array =
  fixes wf :: "'b \<Rightarrow> bool"
    and len :: "'b \<Rightarrow> usize"
    and as_ptr :: "'b \<Rightarrow> 'a cells"
    and as_mut_ptr :: "'b \<Rightarrow> 'a cells \<times> ('a cells \<Rightarrow> 'b)"
  assumes len_cells: "wf a \<Longrightarrow> unat (len a) \<le> length (as_ptr a)"
    and same_cells: "fst (as_mut_ptr a) = as_ptr a"
    and put_cells: "wf a \<Longrightarrow> length c = length (as_ptr a) \<Longrightarrow>
      wf (snd (as_mut_ptr a) c) \<and> as_ptr (snd (as_mut_ptr a) c) = c \<and> len (snd (as_mut_ptr a) c) = len a"
begin

lemma read_in_bounds: "wf a \<Longrightarrow> i < len a \<Longrightarrow> cell_read (as_ptr a) i \<noteq> Panic Wild_Access"
  using len_cells [of a] by (auto simp: cell_read_def word_less_nat_alt split: option.split)

lemma write_then_read:
  assumes "wf a" "i < len a"
  obtains c b where "cell_write (fst (as_mut_ptr a)) i x = Ok c" "b = snd (as_mut_ptr a) c" "wf b" "len b = len a"
    "cell_read (as_ptr b) i = Ok x" "\<And>j. j \<noteq> i \<Longrightarrow> cell_read (as_ptr b) j = cell_read (as_ptr a) j"
proof -
  have i: "unat i < length (as_ptr a)" using len_cells [OF assms(1)] assms(2) by (simp add: word_less_nat_alt)
  let ?c = "(as_ptr a)[unat i := Some x]"
  have w: "cell_write (fst (as_mut_ptr a)) i x = Ok ?c" using i by (simp add: cell_write_def same_cells)
  have b: "wf (snd (as_mut_ptr a) ?c)" "as_ptr (snd (as_mut_ptr a) ?c) = ?c" "len (snd (as_mut_ptr a) ?c) = len a"
    using put_cells [OF assms(1), of ?c] by auto
  have r: "cell_read ?c i = Ok x" "j \<noteq> i \<Longrightarrow> cell_read ?c j = cell_read (as_ptr a) j" for j
    using i by (simp_all add: cell_read_def word_unat_eq_iff)
  show thesis using that [OF w refl b(1,3)] r b(2) by simp
qed

end

fun ua_wf :: "'a uninit_array \<Rightarrow> bool" where
  "ua_wf a \<longleftrightarrow> length (ua_as_ptr a) < 2 ^ 64"

interpretation ua: uninit_array ua_wf ua_len ua_as_ptr ua_as_mut_ptr
proof
  show "fst (ua_as_mut_ptr a) = ua_as_ptr a" for a :: "'a uninit_array"
    by (induction a) (auto split: prod.split)
  have len: "ua_len a = of_nat (length (ua_as_ptr a))" for a :: "'a uninit_array"
    by (induction a) simp_all
  show "ua_wf a \<Longrightarrow> unat (ua_len a) \<le> length (ua_as_ptr a)" for a :: "'a uninit_array"
    by (simp add: len unat_of_nat_fits)
  have put: "ua_as_ptr (snd (ua_as_mut_ptr a) c) = c" for a :: "'a uninit_array" and c
    by (induction a arbitrary: c) (auto split: prod.split)
  show "ua_wf a \<Longrightarrow> length c = length (ua_as_ptr a) \<Longrightarrow>
      ua_wf (snd (ua_as_mut_ptr a) c) \<and> ua_as_ptr (snd (ua_as_mut_ptr a) c) = c \<and>
      ua_len (snd (ua_as_mut_ptr a) c) = ua_len a" for a :: "'a uninit_array" and c
    by (simp add: len put)
qed

text \<open>A vector can borrow its array, through any number of references, and sees the same elements.\<close>

lemma borrowed_transparent:
  "ua_len ((Borrowed ^^ n) a) = ua_len a" "ua_as_ptr ((Borrowed ^^ n) a) = ua_as_ptr a"
  by (induction n) simp_all

section \<open>Borrowing the contents\<close>

text \<open>The slice, and the vector after the slice was overwritten.\<close>

definition fv_deref_mut :: "'a fixed_vec \<Rightarrow> ('a list \<times> ('a list \<Rightarrow> 'a fixed_vec)) res" where
  "fv_deref_mut v =
     rbind (cell_slice (fv_array v) 0 (ucast (fv_len v))) (\<lambda>xs.
     Ok (xs, \<lambda>ys. v\<lparr>fv_array := map Some ys @ drop (length ys) (fv_array v)\<rparr>))"

text \<open>The elements that iterating over a reference yields, and the vector after a client changed each
  element it was given by \<open>f\<close>.\<close>

definition fv_iter :: "'a fixed_vec \<Rightarrow> 'a list res" where
  "fv_iter v = fv_deref v"

definition fv_iter_mut :: "('a \<Rightarrow> 'a) \<Rightarrow> 'a fixed_vec \<Rightarrow> 'a fixed_vec res" where
  "fv_iter_mut f v = rbind (fv_deref_mut v) (\<lambda>(xs, put). Ok (put (map f xs)))"

definition fs_deref :: "fixed_string \<Rightarrow> bytes res" where
  "fs_deref s = fs_as_str s"

lemma fv_deref_mut_eq:
  assumes "fv_inv v"
  obtains put where "fv_deref_mut v = Ok (fv_list v, put)"
    "\<And>ys. length ys = length (fv_list v) \<Longrightarrow> fv_inv (put ys) \<and> fv_list (put ys) = ys \<and> fv_cap (put ys) = fv_cap v"
proof -
  let ?put = "\<lambda>ys. v\<lparr>fv_array := map Some ys @ drop (length ys) (fv_array v)\<rparr>"
  have run: "fv_deref_mut v = Ok (fv_list v, ?put)"
    using fv_deref_eq [OF assms] by (simp add: fv_deref_mut_def fv_deref_def)
  have "fv_inv (?put ys) \<and> fv_list (?put ys) = ys \<and> fv_cap (?put ys) = fv_cap v"
    if "length ys = length (fv_list v)" for ys
  proof -
    have n: "length ys = unat (fv_len v)" "unat (fv_len v) \<le> length (fv_array v)"
      using that assms by (simp_all add: length_fv_list) (simp add: fv_inv_def)
    then show ?thesis using assms by (auto simp: fv_inv_def fv_list_def fv_cap_def o_def)
  qed
  with run show thesis by (rule that)
qed

text \<open>Iterating by reference visits the elements in order; by mutable reference it changes each of them
  and nothing else.\<close>

lemma fv_iter_eq: "fv_inv v \<Longrightarrow> fv_iter v = Ok (fv_list v)"
  by (simp add: fv_iter_def fv_deref_eq)

lemma fv_iter_mut_eq:
  assumes "fv_inv v"
  shows "\<exists>w. fv_iter_mut f v = Ok w \<and> fv_inv w \<and> fv_list w = map f (fv_list v) \<and> fv_cap w = fv_cap v"
proof -
  obtain put where "fv_deref_mut v = Ok (fv_list v, put)"
    "\<And>ys. length ys = length (fv_list v) \<Longrightarrow> fv_inv (put ys) \<and> fv_list (put ys) = ys \<and> fv_cap (put ys) = fv_cap v"
    by (rule fv_deref_mut_eq [OF assms]) blast
  then show ?thesis by (simp add: fv_iter_mut_def)
qed

section \<open>Taking the array out\<close>

definition fv_into_inner_slice :: "'a fixed_vec \<Rightarrow> 'a list res" where
  "fv_into_inner_slice v = (let slice = fv_into_inner v in cell_slice slice 0 (of_nat (length slice)))"

lemma into_inner_slice_eq:
  assumes "fv_inv v"
  shows "fv_into_inner_slice v = (if None \<in> set (fv_array v) then Panic Uninit_Read else Ok (map the (fv_array v)))"
proof -
  have "unat (of_nat (length (fv_array v)) :: usize) = length (fv_array v)"
    using assms by (intro unat_of_nat_fits) (simp add: fv_inv_def)
  then show ?thesis by (simp add: fv_into_inner_slice_def fv_into_inner_def cell_slice_def Let_def)
qed

lemma push_next_cell:
  assumes "fv_array v = map Some ys @ replicate (Suc m) None" "unat (fv_len v) = length ys" "length ys + Suc m < 2 ^ 32"
  shows "\<exists>w. fv_push oc x v = Ok w \<and> fv_array w = map Some (ys @ [x]) @ replicate m None \<and> unat (fv_len w) = length (ys @ [x])"
proof -
  have "length (fv_array v) = length ys + Suc m" using assms(1) by simp
  moreover have "unat (of_nat (length ys + Suc m) :: usize) = length ys + Suc m"
    using assms(3) by (intro unat_of_nat_fits) simp
  ultimately have cap: "unat (fv_capacity v) = length ys + Suc m" by (simp only: fv_capacity_def)
  have len: "unat (fv_length v) = length ys" using assms(2) by (simp add: fv_length_def)
  have "unat (fv_capacity v - fv_length v) = Suc m" using cap len by (subst unat_sub_fits) auto
  then have "fv_is_full oc v = Ok False"
    using cap len by (auto simp: fv_is_full_def fv_remaining_capacity_def)
  moreover have "cell_write (fv_array v) (ucast (fv_len v)) x = Ok (map Some (ys @ [x]) @ replicate m None)"
    using assms(1,2) by (simp add: cell_write_def list_update_append)
  moreover have "unat (fv_len v + 1) = Suc (length ys)" using assms(2,3) by (simp add: unat_add_fits)
  moreover have "wadd oc (fv_len v) 1 = Ok (fv_len v + 1)" using assms(2,3) by simp
  ultimately show ?thesis by (simp add: fv_push_def fv_try_push_def)
qed

lemma extend_next_cells:
  "fv_array v = map Some ys @ replicate (length xs + m) None \<Longrightarrow> unat (fv_len v) = length ys \<Longrightarrow>
     length ys + length xs + m < 2 ^ 32 \<Longrightarrow>
     \<exists>w. fv_extend oc xs v = Ok w \<and> fv_array w = map Some (ys @ xs) @ replicate m None \<and> unat (fv_len w) = length (ys @ xs)"
proof (induction xs arbitrary: v ys)
  case Nil
  then show ?case by simp
next
  case (Cons x xs)
  then obtain w where w: "fv_push oc x v = Ok w" "fv_array w = map Some (ys @ [x]) @ replicate (length xs + m) None"
    "unat (fv_len w) = length (ys @ [x])"
    using push_next_cell [of v ys "length xs + m" oc x] by auto
  with Cons.IH [of w "ys @ [x]"] Cons.prems show ?case by auto
qed

text \<open>\<open>into_inner_slice\<close> hands the whole array out as elements, not the ones that were written: on a vector
  that is not full it reads cells that were never initialised.\<close>

lemma into_inner_slice_uninit:
  assumes "n < 2 ^ 32" "length xs \<le> n"
  shows "rbind (fv_extend oc xs (fv_new_array n)) fv_into_inner_slice =
    (if length xs < n then Panic Uninit_Read else Ok xs)"
proof -
  obtain w where w: "fv_extend oc xs (fv_new_array n) = Ok w" "fv_array w = map Some xs @ replicate (n - length xs) None"
    "unat (fv_len w) = length xs"
    using extend_next_cells [of "fv_new_array n" "[]" xs "n - length xs" oc] assms
    by (auto simp: fv_new_array_def fv_new_def)
  then have "fv_inv w" using assms by (auto simp: fv_inv_def)
  with w show ?thesis by (auto simp: into_inner_slice_eq o_def)
qed

end
