(* ===== verification/Global_Alloc.thy ===== *)
theory Global_Alloc
  imports Process Allocator
begin

text \<open>
  The global allocator of the program, \<open>ALLOC\<close> in \<open>src/src/main.rs\<close>: the allocator of \<open>allocator.rs\<close> over the
  virtual memory of the process (\<open>VM\<close>, \<open>mach.rs\<close>). \<open>Allocator\<close> proves the allocator correct for every answer
  of the virtual memory system to the one request an allocation may make; here the requests are the Mach
  traps of the process, and the lemmas show that the two agree, so that what is proved there holds for
  the calls of \<open>GlobalAlloc\<close>.
\<close>

section \<open>Calls\<close>

definition VM_alloc :: "machine \<Rightarrow> usize \<Rightarrow> (i32 + usize) io" where
  "VM_alloc K sz = vm_alloc_task_self K sz"

definition VM_dealloc :: "machine \<Rightarrow> usize \<Rightarrow> usize \<Rightarrow> (i32 + unit) io" where
  "VM_dealloc K ptr sz = vm_dealloc_task_self K ptr sz"

definition alloc_impl_io :: "bool \<Rightarrow> machine \<Rightarrow> layout_req \<Rightarrow> alloc_state \<Rightarrow> (usize \<times> alloc_state) io" where
  "alloc_impl_io oc K l st =
     io_bind (io_lift (al_normalize oc l)) (\<lambda>(sz, align).
     if LARGE_THRESHOLD \<le> sz then
       io_bind (VM_alloc K sz) (\<lambda>r. io_ok (case r of Inr p \<Rightarrow> p | Inl _ \<Rightarrow> 0, st))
     else
       io_bind (io_lift (take_from_free_list oc sz align st)) (\<lambda>(p, st).
       case p of Some a \<Rightarrow> io_ok (a, st)
       | None \<Rightarrow>
       io_bind (io_lift (bump_alloc oc sz align st)) (\<lambda>(p, st).
       case p of Some a \<Rightarrow> io_ok (a, st)
       | None \<Rightarrow>
       io_bind (io_lift (wadd oc sz align)) (\<lambda>need.
       let chunk_size = max CHUNK_SIZE need in
       io_bind (VM_alloc K chunk_size) (\<lambda>r.
       case r of Inl _ \<Rightarrow> io_ok (0, st)
       | Inr base \<Rightarrow>
           io_bind (io_lift (bump_alloc oc sz align
                    (st\<lparr>al_chunk := Some \<lparr>ck_base = base, ck_size = chunk_size, ck_offset = 0\<rparr>\<rparr>)))
             (\<lambda>(p, st). io_ok (ptr_of p, st)))))))"

definition dealloc_impl_io :: "bool \<Rightarrow> machine \<Rightarrow> usize \<Rightarrow> layout_req \<Rightarrow> alloc_state \<Rightarrow> alloc_state io" where
  "dealloc_impl_io oc K ptr l st =
     (case non_null ptr of
        None \<Rightarrow> io_ok st
      | Some nn \<Rightarrow>
          io_bind (io_lift (al_normalize oc l)) (\<lambda>(sz, _).
          if LARGE_THRESHOLD \<le> sz then io_bind (VM_dealloc K nn sz) (\<lambda>_. io_ok st)
          else io_ok (st\<lparr>al_mem := node_write (al_mem st) nn \<lparr>fn_next = al_free st, fn_size = sz\<rparr>,
                         al_free := Some nn\<rparr>)))"

definition global_alloc :: "bool \<Rightarrow> machine \<Rightarrow> layout_req \<Rightarrow> alloc_state \<Rightarrow> (usize \<times> alloc_state) io" where
  "global_alloc oc K l st = alloc_impl_io oc K l st"

definition global_dealloc :: "bool \<Rightarrow> machine \<Rightarrow> usize \<Rightarrow> layout_req \<Rightarrow> alloc_state \<Rightarrow> alloc_state io" where
  "global_dealloc oc K ptr l st = dealloc_impl_io oc K ptr l st"

section \<open>Agreement with the allocator over an abstract virtual memory\<close>

text \<open>What the kernel would answer in a state.\<close>

definition vm_answer :: "machine \<Rightarrow> proc \<Rightarrow> vm" where
  "vm_answer K s sz = (case fst (vm_alloc_task_self K sz s) of Ok (Inr p) \<Rightarrow> Some p | _ \<Rightarrow> None)"

text \<open>The trace of one allocation: nothing, or the request for one region.\<close>

definition region_request :: "usize \<Rightarrow> event list \<Rightarrow> bool" where
  "region_request sz es \<longleftrightarrow> (\<exists>port :: u32. es = [Svc TRAP_TASK_SELF [],
     Svc TRAP_KERNELRPC_MACH_VM_ALLOCATE [W (ucast port), Out 8, W sz, W 1]])"

lemma VM_alloc_run:
  obtains x t where "VM_alloc K sz s = (Ok x, t)" "vm_answer K s sz = (case x of Inr p \<Rightarrow> Some p | Inl _ \<Rightarrow> None)"
    "\<exists>es. pr_trace t = pr_trace s @ es \<and> region_request sz es" "\<And>p. x = Inr p \<Longrightarrow> p \<noteq> 0"
proof -
  obtain r t where rt: "vm_alloc_task_self K sz s = (r, t)" by fastforce
  from vm_alloc_run [OF rt] obtain port x where x:
    "t = after_svc K TRAP_KERNELRPC_MACH_VM_ALLOCATE [W (ucast (port :: u32)), Out 8, W sz, W 1]
       (after_svc K TRAP_TASK_SELF [] s)" "r = Ok x" "\<And>p. x = Inr p \<Longrightarrow> p \<noteq> 0" by blast
  show thesis
  proof (rule that)
    show "VM_alloc K sz s = (Ok x, t)" using rt x(2) by (simp add: VM_alloc_def)
    show "vm_answer K s sz = (case x of Inr p \<Rightarrow> Some p | Inl _ \<Rightarrow> None)"
      using rt x(2) by (simp add: vm_answer_def split: sum.split)
    show "\<exists>es. pr_trace t = pr_trace s @ es \<and> region_request sz es" by (auto simp: x(1) region_request_def)
  qed (rule x(3))
qed

text \<open>An allocation ends in \<open>r\<close> after asking for at most one region.\<close>

definition asks_once :: "proc \<Rightarrow> 'a res \<Rightarrow> 'a res \<times> proc \<Rightarrow> bool" where
  "asks_once s r out \<longleftrightarrow> fst out = r \<and>
     (snd out = s \<or> (\<exists>sz es. pr_trace (snd out) = pr_trace s @ es \<and> region_request sz es))"

lemma asks_once_pure: "asks_once s r (io_lift r s)"
  by (simp add: asks_once_def)

lemma asks_once_lift:
  "(\<And>x. m = Ok x \<Longrightarrow> asks_once s (f x) (g x s)) \<Longrightarrow> asks_once s (rbind m f) (io_bind (io_lift m) g s)"
  by (cases m) (simp_all add: asks_once_def)

lemma asks_once_vm:
  assumes "\<And>x t. VM_alloc K sz s = (Ok x, t) \<Longrightarrow> vm_answer K s sz = (case x of Inr p \<Rightarrow> Some p | Inl _ \<Rightarrow> None) \<Longrightarrow>
    g x t = (r, t)"
  shows "asks_once s r (io_bind (VM_alloc K sz) g s)"
proof -
  obtain x t where a: "VM_alloc K sz s = (Ok x, t)" "vm_answer K s sz = (case x of Inr p \<Rightarrow> Some p | Inl _ \<Rightarrow> None)"
    "\<exists>es. pr_trace t = pr_trace s @ es \<and> region_request sz es" by (rule VM_alloc_run) blast
  from assms [OF a(1,2)] a(1,3) show ?thesis by (auto simp: io_bind_def asks_once_def)
qed

lemma alloc_impl_io_asks_once: "asks_once s (alloc_impl oc (vm_answer K s) l st) (alloc_impl_io oc K l st s)"
proof -
  have large: "asks_once s (Ok (ptr_of (vm_answer K s sz), st))
      (io_bind (VM_alloc K sz) (\<lambda>r. io_ok (case r of Inr p \<Rightarrow> p | Inl _ \<Rightarrow> 0, st)) s)" for sz st
    by (rule asks_once_vm) (simp add: ptr_of_def split: sum.split)
  have chunk: "asks_once s
      (case vm_answer K s cs of None \<Rightarrow> Ok (0, st)
       | Some base \<Rightarrow> rbind (bump_alloc oc sz align (st\<lparr>al_chunk := Some \<lparr>ck_base = base, ck_size = cs, ck_offset = 0\<rparr>\<rparr>))
           (\<lambda>(p, st). Ok (ptr_of p, st)))
      (io_bind (VM_alloc K cs) (\<lambda>r. case r of Inl _ \<Rightarrow> io_ok (0, st)
       | Inr base \<Rightarrow> io_bind (io_lift (bump_alloc oc sz align
           (st\<lparr>al_chunk := Some \<lparr>ck_base = base, ck_size = cs, ck_offset = 0\<rparr>\<rparr>))) (\<lambda>(p, st). io_ok (ptr_of p, st))) s)"
    for sz align cs st
  proof (rule asks_once_vm)
    fix x t
    assume v: "vm_answer K s cs = (case x of Inr p \<Rightarrow> Some p | Inl _ \<Rightarrow> None)"
    have "io_bind (io_lift m) (\<lambda>(p, st). io_ok (ptr_of p, st)) t = (rbind m (\<lambda>(p, st). Ok (ptr_of p, st)), t)"
      for m :: "(usize option \<times> alloc_state) res"
      by (cases m) (auto split: prod.split)
    with v show "(case x of Inl _ \<Rightarrow> io_ok (0, st)
       | Inr base \<Rightarrow> io_bind (io_lift (bump_alloc oc sz align
           (st\<lparr>al_chunk := Some \<lparr>ck_base = base, ck_size = cs, ck_offset = 0\<rparr>\<rparr>))) (\<lambda>(p, st). io_ok (ptr_of p, st))) t =
      (case vm_answer K s cs of None \<Rightarrow> Ok (0, st)
       | Some base \<Rightarrow> rbind (bump_alloc oc sz align (st\<lparr>al_chunk := Some \<lparr>ck_base = base, ck_size = cs, ck_offset = 0\<rparr>\<rparr>))
           (\<lambda>(p, st). Ok (ptr_of p, st)), t)"
      by (cases x) simp_all
  qed
  have ok: "asks_once s (Ok x) (Ok x, s)" for x :: "usize \<times> alloc_state" by (simp add: asks_once_def)
  show ?thesis
    unfolding alloc_impl_def alloc_impl_io_def Let_def
    by (intro asks_once_lift)
      (auto intro!: asks_once_lift large chunk ok split: prod.split option.split)
qed

text \<open>The region that a deallocation gives back, as the trace records it.\<close>

definition region_return :: "(usize \<times> usize) option \<Rightarrow> event list \<Rightarrow> bool" where
  "region_return back es \<longleftrightarrow> (case back of
     None \<Rightarrow> es = []
   | Some (p, sz) \<Rightarrow> \<exists>port :: u32. es = [Svc TRAP_TASK_SELF [],
       Svc TRAP_KERNELRPC_MACH_VM_DEALLOCATE [W (ucast port), W p, W sz]])"

text \<open>C4: the global allocator. On the virtual memory of the process an allocation returns what the allocator
  returns when the kernel's answer is the one it gives in that state, and asks for at most one region; a
  deallocation leaves the state the allocator leaves, whatever the kernel answers, and gives back exactly
  the region the allocator says, or nothing. No other call is made.\<close>

theorem global_alloc_refines:
  "(case global_alloc oc K l st s of (r, s') \<Rightarrow> r = alloc_impl oc (vm_answer K s) l st \<and>
     (s' = s \<or> (\<exists>sz es. pr_trace s' = pr_trace s @ es \<and> region_request sz es))) \<and>
   (case dealloc_impl oc p l st of
      Ok (back, st') \<Rightarrow> \<exists>s' es. global_dealloc oc K p l st s = (Ok st', s') \<and> pr_trace s' = pr_trace s @ es \<and>
        region_return back es \<and> (case back of None \<Rightarrow> s' = s | Some _ \<Rightarrow> True)
    | Panic q \<Rightarrow> global_dealloc oc K p l st s = (Panic q, s)
    | Err e \<Rightarrow> global_dealloc oc K p l st s = (Err e, s) | Diverge \<Rightarrow> global_dealloc oc K p l st s = (Diverge, s))"
proof
  show "case global_alloc oc K l st s of (r, s') \<Rightarrow> r = alloc_impl oc (vm_answer K s) l st \<and>
     (s' = s \<or> (\<exists>sz es. pr_trace s' = pr_trace s @ es \<and> region_request sz es))"
    using alloc_impl_io_asks_once [of s oc K l st] by (auto simp: asks_once_def global_alloc_def split: prod.split)
  have give: "\<exists>x t (port :: u32). VM_dealloc K a sz s = (Ok x, t) \<and> pr_trace t = pr_trace s @
      [Svc TRAP_TASK_SELF [], Svc TRAP_KERNELRPC_MACH_VM_DEALLOCATE [W (ucast port), W a, W sz]]" for a sz
    by (auto simp: VM_dealloc_def vm_dealloc_task_self_def task_self_internal_def vm_deallocate_internal_def
        syscall_wrappers syscall_run io_bind_def)
  show "case dealloc_impl oc p l st of
      Ok (back, st') \<Rightarrow> \<exists>s' es. global_dealloc oc K p l st s = (Ok st', s') \<and> pr_trace s' = pr_trace s @ es \<and>
        region_return back es \<and> (case back of None \<Rightarrow> s' = s | Some _ \<Rightarrow> True)
    | Panic q \<Rightarrow> global_dealloc oc K p l st s = (Panic q, s)
    | Err e \<Rightarrow> global_dealloc oc K p l st s = (Err e, s) | Diverge \<Rightarrow> global_dealloc oc K p l st s = (Diverge, s)"
  proof (cases "non_null p")
    case None
    then show ?thesis by (simp add: dealloc_impl_def global_dealloc_def dealloc_impl_io_def region_return_def)
  next
    case (Some a)
    show ?thesis
    proof (cases "al_normalize oc l")
      case (Ok n)
      obtain sz align where n: "n = (sz, align)" by fastforce
      show ?thesis
        using give [of a sz] Some Ok n
        by (auto simp: dealloc_impl_def global_dealloc_def dealloc_impl_io_def region_return_def io_bind_def io_ok_def io_lift_def)
    qed (use Some in \<open>simp_all add: dealloc_impl_def global_dealloc_def dealloc_impl_io_def\<close>)
  qed
qed

end
