(* ===== verification/Link_Order.thy ===== *)
theory Link_Order
  imports Entrypoint Global_Alloc
begin

text \<open>
  What a whole run asks of the system, in order. The specification is a grammar of traces (\<open>linked\<close>): the
  libraries an image needs come first, each mapped from its file and linked in turn, in the order of the
  load commands; then the region of the image, its thread locals, its protections, its initializers. The
  loader is shown to follow it, and the process to follow it up to the jump into the program unless it
  reports an error.
\<close>

section \<open>Traces\<close>

fun writes_out :: "event \<Rightarrow> bool" where
  "writes_out (Svc n args) \<longleftrightarrow> n = SYS_WRITE"
| "writes_out (Run p args) \<longleftrightarrow> False"
| "writes_out (Tlv_Init p) \<longleftrightarrow> False"

fun exits :: "event \<Rightarrow> bool" where
  "exits (Svc n args) \<longleftrightarrow> n = SYS_EXIT"
| "exits (Run p args) \<longleftrightarrow> False"
| "exits (Tlv_Init p) \<longleftrightarrow> False"

definition plain :: "event \<Rightarrow> bool" where
  "plain e \<longleftrightarrow> \<not> writes_out e \<and> \<not> exits e"

text \<open>A step that neither writes nor exits, whatever its outcome; when it succeeds, its result and the trace
  it leaves are related by \<open>Q\<close>.\<close>

definition leaves :: "('a \<Rightarrow> event list \<Rightarrow> bool) \<Rightarrow> 'a io \<Rightarrow> bool" where
  "leaves Q m \<longleftrightarrow> (\<forall>s. \<exists>es. pr_trace (snd (m s)) = pr_trace s @ es \<and> list_all plain es \<and>
     (\<forall>x. fst (m s) = Ok x \<longrightarrow> Q x es))"

lemma leavesI:
  "(\<And>s r t. m s = (r, t) \<Longrightarrow> \<exists>es. pr_trace t = pr_trace s @ es \<and> list_all plain es \<and> (\<forall>x. r = Ok x \<longrightarrow> Q x es)) \<Longrightarrow> leaves Q m"
  unfolding leaves_def by (metis prod.collapse)

lemma leavesD:
  assumes "leaves Q m" "m s = (r, t)"
  obtains es where "pr_trace t = pr_trace s @ es" "list_all plain es" "\<And>x. r = Ok x \<Longrightarrow> Q x es"
proof -
  have "\<exists>es. pr_trace (snd (m s)) = pr_trace s @ es \<and> list_all plain es \<and> (\<forall>x. fst (m s) = Ok x \<longrightarrow> Q x es)"
    using assms(1) unfolding leaves_def by blast
  with assms(2) that show thesis by auto
qed

lemma leaves_mono: "leaves P m \<Longrightarrow> (\<And>x es. P x es \<Longrightarrow> Q x es) \<Longrightarrow> leaves Q m"
  unfolding leaves_def by blast

lemma leaves_ok: "Q x [] \<Longrightarrow> leaves Q (io_ok x)"
  by (simp add: leaves_def)

lemma leaves_lift: "(\<And>x. r = Ok x \<Longrightarrow> Q x []) \<Longrightarrow> leaves Q (io_lift r)"
  by (simp add: leaves_def)

lemma leaves_lift_iff [simp]:
  "leaves Q (Pair r) \<longleftrightarrow> (\<forall>x. r = Ok x \<longrightarrow> Q x [])" "leaves Q (io_lift r) \<longleftrightarrow> (\<forall>x. r = Ok x \<longrightarrow> Q x [])"
  by (simp_all add: leaves_def)

lemma leaves_bind:
  assumes m: "leaves P m" and f: "\<And>x es. P x es \<Longrightarrow> leaves (\<lambda>y es'. Q y (es @ es')) (f x)"
  shows "leaves Q (io_bind m f)"
proof (rule leavesI)
  fix s r t
  assume run: "io_bind m f s = (r, t)"
  obtain r1 s1 where m1: "m s = (r1, s1)" by fastforce
  obtain es where es: "pr_trace s1 = pr_trace s @ es" "list_all plain es" "\<And>x. r1 = Ok x \<Longrightarrow> P x es"
    using leavesD [OF m m1] by blast
  show "\<exists>es. pr_trace t = pr_trace s @ es \<and> list_all plain es \<and> (\<forall>x. r = Ok x \<longrightarrow> Q x es)"
  proof (cases r1)
    case (Ok x)
    with run m1 have "f x s1 = (r, t)" by (simp add: io_bind_def)
    from leavesD [OF f [OF es(3) [OF Ok]] this] obtain es' where
      "pr_trace t = pr_trace s1 @ es'" "list_all plain es'" "\<And>y. r = Ok y \<Longrightarrow> Q y (es @ es')" by blast
    with es show ?thesis by (intro exI [of _ "es @ es'"]) auto
  qed (use run m1 es in \<open>auto simp: io_bind_def\<close>)
qed

lemma leaves_bind_after:
  "leaves (\<lambda>_ es. es = e) m \<Longrightarrow> (\<And>x. leaves (\<lambda>y es. Q y (e @ es)) (f x)) \<Longrightarrow> leaves Q (io_bind m f)"
  by (rule leaves_bind [where P = "\<lambda>_ es. es = e"]) auto

lemma leaves_bind_silent:
  "leaves (\<lambda>_ es. es = []) m \<Longrightarrow> (\<And>x. leaves Q (f x)) \<Longrightarrow> leaves Q (io_bind m f)"
  by (rule leaves_bind [where P = "\<lambda>_ es. es = []"]) auto

lemma leaves_state: "(\<And>v. leaves Q (g v)) \<Longrightarrow> leaves Q (\<lambda>s. g (h s) s)"
  unfolding leaves_def by blast

lemma split_prod_leaves: "(\<And>x y. leaves Q (f x y)) \<Longrightarrow> leaves Q (case p of (x, y) \<Rightarrow> f x y)"
  by (cases p) simp

lemma leaves_try: "leaves (\<lambda>x es. \<forall>y. x = Inr y \<longrightarrow> Q y es) m \<Longrightarrow> leaves Q (io_try e m)"
  unfolding io_try_def by (erule leaves_bind) (auto intro!: leaves_lift split: sum.split_asm)

lemma leaves_syscall:
  assumes "n \<noteq> SYS_WRITE" "n \<noteq> SYS_EXIT"
  shows "leaves (\<lambda>_ es. es = [Svc n args]) (syscall K n args)" "leaves (\<lambda>_ es. es = [Svc n args]) (syscall_ret K n args)"
  using assms by (simp_all add: leaves_def syscall_run plain_def)

section \<open>The grammar\<close>

text \<open>Mapping the file at \<open>path\<close>: open, stat and map, as \<open>disk_path_mmap\<close> asks for them.\<close>

definition file_mapped :: "bytes \<Rightarrow> event list \<Rightarrow> bool" where
  "file_mapped path es \<longleftrightarrow> (\<exists>fd sz. sz \<noteq> 0 \<and>
     es = [Svc SYS_OPEN [In path, W 0, W 0], Svc SYS_FSTAT [W fd, Out 144],
           Svc SYS_MMAP [W 0, W sz, W 3, W 2, W (scast (ucast fd :: i32)), W 0]])"

text \<open>The image's own part of the trace, mapped at \<open>vm\<close>.\<close>

definition image_brought_up ::
  "machine \<Rightarrow> bool \<Rightarrow> parsed_image \<Rightarrow> segment list \<Rightarrow> usize \<Rightarrow> usize \<Rightarrow> event list \<Rightarrow> bool" where
  "image_brought_up K is_executable p gs vm sz es \<longleftrightarrow> vm \<noteq> 0 \<and> (\<exists>region ports. region_request sz region \<and>
     length ports = 2 * length gs \<and>
     es = region @ (if is_executable \<and> pi_has_thread_locals p then [Tlv_Init (vm + PAGE_ZERO_SIZE)] else []) @
       concat (map2 (protect_events vm) (protect_order gs) ports) @ map (init_event K vm) (pi_init_functions p))"

text \<open>\<open>linked \<dots> is_executable img (vm, x) es\<close>: the image was linked at \<open>vm\<close> with the trace \<open>es\<close>; \<open>x\<close> is where to
  jump for an executable and the length of the region for a library. \<open>libraries_linked\<close>: so were the
  libraries on disk of a list of needed ones, one after the other.\<close>

inductive linked ::
  "env \<Rightarrow> machine \<Rightarrow> shared_cache \<Rightarrow> bytes \<Rightarrow> bool \<Rightarrow> container \<Rightarrow> usize \<times> usize \<Rightarrow> event list \<Rightarrow> bool"
  and libraries_linked ::
  "env \<Rightarrow> machine \<Rightarrow> shared_cache \<Rightarrow> bytes \<Rightarrow> rpath option \<Rightarrow> (bytes \<times> bool) list \<Rightarrow> event list \<Rightarrow> bool"
  for E :: env and K :: machine and cache :: shared_cache and exec_dir :: bytes
where
  linked_image:
    "macho_parser E img = Ok p \<Longrightarrow> dependencies_collect (overflow_checks E) p cache = Ok deps \<Longrightarrow> fv_deref deps = Ok ds \<Longrightarrow>
     libraries_linked E K cache exec_dir (pi_rpath p) ds es \<Longrightarrow>
     fv_deref (pi_segments p) = Ok gs \<Longrightarrow> segments_span (overflow_checks E) gs (- 1, 0) = Ok (lo, hi) \<Longrightarrow>
     wsub (overflow_checks E) hi lo = Ok sz \<Longrightarrow> image_brought_up K is_executable p gs vm sz es' \<Longrightarrow>
     linked E K cache exec_dir is_executable img
       (vm, if is_executable then vm + pi_entry_point p + PAGE_ZERO_SIZE else sz) (es @ es')"
| no_libraries: "libraries_linked E K cache exec_dir rp [] []"
| system_library:
    "libraries_linked E K cache exec_dir rp ds es \<Longrightarrow> libraries_linked E K cache exec_dir rp ((name, True) # ds) es"
| user_library:
    "user_dylib_disk_path_resolve name rp exec_dir = Ok path \<Longrightarrow> file_mapped path es \<Longrightarrow>
     linked E K cache exec_dir False c r es' \<Longrightarrow> libraries_linked E K cache exec_dir rp ds es'' \<Longrightarrow>
     libraries_linked E K cache exec_dir rp ((name, False) # ds) (es @ es' @ es'')"

inductive_cases linked_cases: "linked E K cache exec_dir ex img r es"
inductive_cases libraries_linked_cases:
  "libraries_linked E K cache exec_dir rp [] es"
  "libraries_linked E K cache exec_dir rp ((name, cached) # ds) es"

text \<open>An image all of whose libraries are in the shared cache asks only for its own part.\<close>

lemma libraries_all_cached:
  "list_all snd ds \<Longrightarrow> libraries_linked E K cache exec_dir rp ds es \<longleftrightarrow> es = []"
proof (induction ds arbitrary: es)
  case Nil
  then show ?case by (auto elim: libraries_linked_cases intro: no_libraries)
next
  case (Cons d ds)
  then show ?case by (cases d) (auto elim: libraries_linked_cases intro: system_library)
qed

section \<open>The loader follows the grammar\<close>

lemma leaves_mmap_file:
  "leaves (\<lambda>x es. \<forall>p. x = Inr p \<longrightarrow> len \<noteq> 0 \<and>
      es = [Svc SYS_MMAP [W 0, W len, W (scast prot), W (scast MAP_PRIVATE), W (scast fd), W offset]])
     (mmap_file K len prot MAP_PRIVATE fd offset)"
proof (rule leavesI)
  fix s r t
  assume "mmap_file K len prot MAP_PRIVATE fd offset s = (r, t)"
  from mmap_file_run [OF this refl]
  show "\<exists>es. pr_trace t = pr_trace s @ es \<and> list_all plain es \<and> (\<forall>x. r = Ok x \<longrightarrow> (\<forall>p. x = Inr p \<longrightarrow> len \<noteq> 0 \<and>
      es = [Svc SYS_MMAP [W 0, W len, W (scast prot), W (scast MAP_PRIVATE), W (scast fd), W offset]]))"
    by (cases "len = 0") (auto simp: plain_def const_defs)
qed

lemma leaves_disk_path_mmap: "leaves (\<lambda>_ es. file_mapped path es) (disk_path_mmap K path)"
proof -
  have nums: "SYS_OPEN \<noteq> SYS_WRITE" "SYS_OPEN \<noteq> SYS_EXIT" "SYS_FSTAT \<noteq> SYS_WRITE" "SYS_FSTAT \<noteq> SYS_EXIT"
    by (simp_all add: const_defs)
  have open_: "leaves (\<lambda>_ es. es = [Svc SYS_OPEN [In path, W 0, W 0]]) (io_try Open_Failed (libc_open K path O_RDONLY 0))"
    unfolding libc_open_def syscall3_def O_RDONLY_def
    by (rule leaves_try, rule leaves_mono [OF leaves_syscall(2) [OF nums(1,2)]]) simp
  have stat: "leaves (\<lambda>_ es. es = [Svc SYS_FSTAT [W fd, Out 144]]) (libc_fstat K fd)" for fd
    unfolding libc_fstat_def syscall2_out_def file_layout_offsets
    by (rule leaves_bind [OF leaves_syscall(1) [OF nums(3,4)]]) (auto intro!: leaves_ok split: prod.split)
  have prot: "scast (PROT_READ OR PROT_WRITE) = (3 :: usize)" "scast MAP_PRIVATE = (2 :: usize)" by (simp_all add: const_defs)
  have fd': "ucast (ucast fd :: usize) = (ucast fd :: i32)" for fd :: u32
    by (rule bit_word_eqI) (simp add: bit_simps)
  have mapped: "leaves (\<lambda>_ es. sz \<noteq> 0 \<and> es = [Svc SYS_MMAP [W 0, W sz, W 3, W 2, W (scast (fd :: i32)), W 0]])
      (io_try Mmap_Failed (mmap_file K sz (PROT_READ OR PROT_WRITE) MAP_PRIVATE fd 0))" for sz fd
    by (rule leaves_try, rule leaves_mono [OF leaves_mmap_file]) (simp add: prot)
  have get: "leaves (\<lambda>_ es. es = []) (\<lambda>s. (Ok (f (pr_mem s)), s))" for f :: "mem \<Rightarrow> container \<times> usize"
    by (simp add: leaves_def)
  have silent: "leaves (\<lambda>_ es. es = []) (io_try Stat_Failed (io_ok r))" for r :: "usize + usize"
    by (rule leaves_try) (simp add: leaves_ok)
  show ?thesis
    unfolding disk_path_mmap_def Let_def
    by (intro leaves_bind_after [OF open_] leaves_bind_after [OF stat] split_prod_leaves leaves_bind_silent [OF silent]
        leaves_bind [OF mapped] leaves_mono [OF get])
      (use fd' in \<open>auto simp: file_mapped_def\<close>)
qed

lemma region_request_plain: "region_request sz es \<Longrightarrow> list_all plain es"
  by (auto simp: region_request_def plain_def const_defs)

lemma leaves_region: "leaves (\<lambda>x es. \<forall>vm. x = Inr vm \<longrightarrow> vm \<noteq> 0 \<and> region_request sz es) (vm_alloc_task_self K sz)"
proof (rule leavesI)
  fix s r t
  assume "vm_alloc_task_self K sz s = (r, t)"
  from vm_alloc_run [OF this] obtain x es where "r = Ok x" "\<forall>p. x = Inr p \<longrightarrow> p \<noteq> 0" "pr_trace t = pr_trace s @ es"
    "region_request sz es" unfolding region_request_def by fastforce
  with region_request_plain show "\<exists>es. pr_trace t = pr_trace s @ es \<and> list_all plain es \<and>
      (\<forall>x. r = Ok x \<longrightarrow> (\<forall>vm. x = Inr vm \<longrightarrow> vm \<noteq> 0 \<and> region_request sz es))" by auto
qed

lemma leaves_copy: "leaves (\<lambda>_ es. es = []) (copy_loop skip base vm gs)"
proof (rule leavesI)
  fix s r t
  assume "copy_loop skip base vm gs s = (r, t)"
  with copy_loop_ok [of skip base vm gs s] have "pr_trace t = pr_trace s" by auto
  then show "\<exists>es. pr_trace t = pr_trace s @ es \<and> list_all plain es \<and> (\<forall>x. r = Ok x \<longrightarrow> es = [])" by simp
qed

lemma leaves_map_to_vm:
  "leaves (\<lambda>(vm, sz) es. vm \<noteq> 0 \<and> region_request sz es \<and>
      (\<exists>lo hi. segments_span oc gs (- 1, 0) = Ok (lo, hi) \<and> wsub oc hi lo = Ok sz))
    (macho_segments_map_to_vm oc K skip base gs)"
proof (cases "segments_span oc gs (- 1, 0)")
  case (Ok lohi)
  obtain lo hi where lohi: "lohi = (lo, hi)" by fastforce
  show ?thesis
  proof (cases "wsub oc hi lo")
    case (Ok sz)
    have alloc: "leaves (\<lambda>vm es. vm \<noteq> 0 \<and> region_request sz es) (io_try Vm_Alloc_Failed (vm_alloc_task_self K sz))"
      by (rule leaves_try [OF leaves_region])
    show ?thesis
      unfolding macho_segments_map_to_vm_def \<open>segments_span oc gs (- 1, 0) = Ok lohi\<close> lohi
      by (simp only: io_simps prod.case Ok)
        (intro leaves_bind [OF alloc] leaves_bind_silent [OF leaves_copy] leaves_ok;
          use Ok \<open>segments_span oc gs (- 1, 0) = Ok lohi\<close> lohi in auto)
  qed (use \<open>segments_span oc gs (- 1, 0) = Ok lohi\<close> lohi in \<open>simp_all add: macho_segments_map_to_vm_def\<close>)
qed (simp_all add: macho_segments_map_to_vm_def)

lemma protect_events_plain: "list_all plain (protect_events vm g port)"
  by (cases g) (simp add: protect_events_def plain_def const_defs)

lemma protects_plain: "list_all plain (concat (map2 (protect_events vm) gs ports))"
  using protect_events_plain by (induction gs ports rule: list_induct2') auto

lemma leaves_protect:
  "leaves (\<lambda>_ es. \<exists>ports. length ports = 2 * length gs \<and> es = concat (map2 (protect_events vm) (protect_order gs) ports))
    (macho_segments_vm_protect K vm gs)"
proof (rule leavesI)
  fix s r t
  assume "macho_segments_vm_protect K vm gs s = (r, t)"
  from vm_protect_all_run [OF this] obtain ports where
    "pr_trace t = pr_trace s @ concat (map2 (protect_events vm) (protect_order gs) ports)"
    "r = Ok () \<and> length ports = length (protect_order gs) \<or> r = Err Vm_Protect_Failed \<and> ports \<noteq> []" by blast
  moreover have "length (protect_order gs) = 2 * length gs" by (induction gs) (simp_all add: protect_order_def)
  ultimately show "\<exists>es. pr_trace t = pr_trace s @ es \<and> list_all plain es \<and>
      (\<forall>x. r = Ok x \<longrightarrow> (\<exists>ports. length ports = 2 * length gs \<and>
        es = concat (map2 (protect_events vm) (protect_order gs) ports)))"
    using protects_plain by auto
qed

lemma leaves_initializers: "leaves (\<lambda>_ es. es = map (init_event K vm) fs) (macho_init_functions_exec K vm fs)"
proof (rule leavesI)
  fix s r t
  assume "macho_init_functions_exec K vm fs s = (r, t)"
  with init_functions_run [of K vm fs s] have "pr_trace t = pr_trace s @ map (init_event K vm) fs" by auto
  moreover have "list_all plain (map (init_event K vm) fs)" by (induction fs) (simp_all add: init_event_def plain_def)
  ultimately show "\<exists>es. pr_trace t = pr_trace s @ es \<and> list_all plain es \<and> (\<forall>x. r = Ok x \<longrightarrow> es = map (init_event K vm) fs)"
    by blast
qed

lemma leaves_finalize:
  assumes "fv_deref (pi_segments p) = Ok gs"
  shows "leaves (\<lambda>_ es. \<exists>ports. length ports = 2 * length gs \<and>
      es = (if ex \<and> pi_has_thread_locals p then [Tlv_Init (vm + PAGE_ZERO_SIZE)] else []) @
        concat (map2 (protect_events vm) (protect_order gs) ports) @ map (init_event K vm) (pi_init_functions p))
    (image_finalize K vm p ex)"
proof -
  have tlv: "leaves (\<lambda>_ es. es = (if ex \<and> pi_has_thread_locals p then [Tlv_Init (vm + PAGE_ZERO_SIZE)] else []))
      (if ex \<and> pi_has_thread_locals p then macho_tlv_initialize K vm else io_ok ())"
    by (simp add: leaves_def macho_tlv_initialize_def tlv_initialize_descriptors_export_def plain_def)
  show ?thesis
    unfolding image_finalize_def assms io_simps(2)
    by (intro leaves_bind_after [OF tlv] leaves_bind [OF leaves_protect] leaves_mono [OF leaves_initializers]) auto
qed

lemma leaves_fixups: "leaves (\<lambda>_ es. es = []) (image_fixups_apply E vm p libs cache ex)"
  by (auto simp: leaves_def image_fixups_apply_def Let_def split: res.split)

lemma leaves_libraries:
  assumes "\<And>c b path. leaves (linked E K cache exec_dir False c) (load c b path)"
  shows "leaves (\<lambda>_ es. libraries_linked E K cache exec_dir rp ds es) (user_dylibs_loop K load exec_dir rp ds loaded)"
proof (induction ds arbitrary: loaded)
  case Nil
  then show ?case by (simp add: leaves_ok no_libraries)
next
  case (Cons d ds)
  obtain name cached where d: "d = (name, cached)" by fastforce
  show ?case
  proof (cases cached)
    case True
    then show ?thesis using Cons by (auto simp: d intro: leaves_mono system_library)
  next
    case False
    show ?thesis
    proof (cases "user_dylib_disk_path_resolve name rp exec_dir")
      case (Ok path)
      have rest: "leaves (\<lambda>_ es''. libraries_linked E K cache exec_dir rp ((name, False) # ds) (es @ es' @ es''))
          (\<lambda>s. user_dylibs_loop K load exec_dir rp ds
             (loaded @ [User (with_bytes (raw_slice (pr_mem s) vm vm_size) Little) vm]) s)"
        if "file_mapped path es" "linked E K cache exec_dir False c (vm, vm_size) es'" for es es' c vm vm_size
        by (rule leaves_state [where h = "\<lambda>s. loaded @ [User (with_bytes (raw_slice (pr_mem s) vm vm_size) Little) vm]"],
            rule leaves_mono [OF Cons.IH]) (rule user_library [OF Ok that])
      show ?thesis
        using False Ok
        by (simp add: d)
          (rule leaves_bind [OF leaves_disk_path_mmap], simp only: split_paired_all prod.case,
            rule leaves_bind [OF assms], simp only: split_paired_all prod.case, rule rest, assumption+)
    qed (use False in \<open>simp_all add: d leaves_lift\<close>)
  qed
qed

lemma leaves_loader: "leaves (linked E K cache exec_dir (dylib_dir = None) img) (macho_loader E K fuel cache img base exec_dir dylib_dir)"
proof (induction fuel arbitrary: img base dylib_dir)
  case 0
  then show ?case by (simp add: leaves_lift)
next
  case (Suc fuel)
  let ?oc = "overflow_checks E" and ?ex = "dylib_dir = None"
  show ?case
  proof (cases "macho_parser E img")
    case p: (Ok p)
    show ?thesis
    proof (cases "dependencies_collect ?oc p cache")
      case deps: (Ok deps)
      show ?thesis
      proof (cases "fv_deref deps")
        case ds: (Ok ds)
        have load: "leaves (linked E K cache exec_dir False c) (macho_loader E K fuel cache c b exec_dir (Some path))" for c b path
          using Suc.IH [of "Some path" c b] by simp
        note libs = leaves_libraries [of E K cache exec_dir "\<lambda>c b path. macho_loader E K fuel cache c b exec_dir (Some path)", OF load]
        show ?thesis
        proof (cases "fv_deref (pi_segments p)")
          case gs: (Ok gs)
          show ?thesis
            unfolding macho_loader.simps Let_def p deps ds gs io_simps(2) user_dylibs_load_recursively_def
          proof (rule leaves_bind [OF libs], rule leaves_bind [OF leaves_map_to_vm], simp only: split_paired_all prod.case,
              rule leaves_bind_silent [OF leaves_fixups], rule leaves_bind [OF leaves_finalize [OF gs]], rule leaves_ok)
            fix es vm sz es' es''
            assume es: "libraries_linked E K cache exec_dir (pi_rpath p) ds es"
              and region: "vm \<noteq> 0 \<and> region_request sz es' \<and>
                (\<exists>lo hi. segments_span ?oc gs (- 1, 0) = Ok (lo, hi) \<and> wsub ?oc hi lo = Ok sz)"
              and own: "\<exists>ports. length ports = 2 * length gs \<and>
                es'' = (if ?ex \<and> pi_has_thread_locals p then [Tlv_Init (vm + PAGE_ZERO_SIZE)] else []) @
                  concat (map2 (protect_events vm) (protect_order gs) ports) @ map (init_event K vm) (pi_init_functions p)"
            from region own have up: "image_brought_up K ?ex p gs vm sz (es' @ es'')"
              unfolding image_brought_up_def by blast
            from region obtain lo hi where "segments_span ?oc gs (- 1, 0) = Ok (lo, hi)" "wsub ?oc hi lo = Ok sz" by blast
            note linked_image [OF p deps ds es gs this up]
            then show "linked E K cache exec_dir ?ex img (case dylib_dir of Some _ \<Rightarrow> (vm, sz)
                | None \<Rightarrow> (vm, vm + pi_entry_point p + PAGE_ZERO_SIZE)) (es @ es' @ es'' @ [])"
              by (cases dylib_dir) simp_all
          qed
        qed (simp_all add: Let_def p deps ds user_dylibs_load_recursively_def leaves_bind [OF libs])
      qed (simp_all add: Let_def p deps user_dylibs_load_recursively_def leaves_lift)
    qed (simp_all add: Let_def p leaves_lift)
  qed (simp_all add: Let_def leaves_lift)
qed

text \<open>C15: the loader refines the grammar. Whatever the kernel answers, linking an image only appends calls to the
  trace, none of which writes or exits; and when it succeeds these are the calls of a complete link of the
  image: each library on disk opened, mapped and linked before the next and before the image asks for its
  own region, in the order of the load commands, and the result is the place the region was given.\<close>

theorem loader_follows_grammar:
  "case macho_loader E K fuel cache img base exec_dir dylib_dir s of (r, t) \<Rightarrow>
     \<exists>es. pr_trace t = pr_trace s @ es \<and> list_all plain es \<and>
       (case r of Ok x \<Rightarrow> linked E K cache exec_dir (dylib_dir = None) img x es | _ \<Rightarrow> True)"
proof -
  obtain r t where run: "macho_loader E K fuel cache img base exec_dir dylib_dir s = (r, t)" by fastforce
  obtain es where "pr_trace t = pr_trace s @ es" "list_all plain es"
    "\<And>x. r = Ok x \<Longrightarrow> linked E K cache exec_dir (dylib_dir = None) img x es"
    using leavesD [OF leaves_loader run] by blast
  then show ?thesis unfolding run prod.case by (auto split: res.split)
qed

section \<open>Reporting\<close>

text \<open>Something is written before the process asks to exit.\<close>

definition reports :: "event list \<Rightarrow> bool" where
  "reports es \<longleftrightarrow> (\<exists>before e after. es = before @ e # after \<and> list_all (\<lambda>e. \<not> exits e) before \<and> writes_out e)"

lemma reportsI: "list_all (\<lambda>e. \<not> exits e) before \<Longrightarrow> writes_out e \<Longrightarrow> reports (before @ e # after)"
  unfolding reports_def by blast

lemma reports_append: "reports es \<Longrightarrow> reports (es @ es')"
  unfolding reports_def by force

lemma plain_no_exits: "list_all plain es \<Longrightarrow> list_all (\<lambda>e. \<not> exits e) es"
  by (auto simp: list_all_iff plain_def)

text \<open>A step whose first call is a write.\<close>

definition speaks :: "'a io \<Rightarrow> bool" where
  "speaks m \<longleftrightarrow> (\<forall>s. \<exists>e es. pr_trace (snd (m s)) = pr_trace s @ e # es \<and> writes_out e)"

lemma speaks_reports:
  assumes "speaks m" "m s = (r, t)" "list_all (\<lambda>e. \<not> exits e) before"
  shows "\<exists>es. pr_trace t = pr_trace s @ es \<and> reports (before @ es)"
proof -
  have "\<exists>e es. pr_trace (snd (m s)) = pr_trace s @ e # es \<and> writes_out e"
    using assms(1) unfolding speaks_def by blast
  with assms(2,3) show ?thesis by (auto intro: reportsI)
qed

definition extends :: "'a io \<Rightarrow> bool" where
  "extends m \<longleftrightarrow> (\<forall>s. \<exists>es. pr_trace (snd (m s)) = pr_trace s @ es)"

lemma speaks_bind:
  assumes "speaks m" "\<And>x. extends (f x)"
  shows "speaks (io_bind m f)"
  unfolding speaks_def
proof
  fix s
  obtain r t where m: "m s = (r, t)" by fastforce
  have "\<exists>e es. pr_trace (snd (m s)) = pr_trace s @ e # es \<and> writes_out e"
    using assms(1) unfolding speaks_def by blast
  with m obtain e es where es: "pr_trace t = pr_trace s @ e # es" "writes_out e" by auto
  show "\<exists>e es. pr_trace (snd (io_bind m f s)) = pr_trace s @ e # es \<and> writes_out e"
  proof (cases r)
    case (Ok x)
    have "\<exists>es'. pr_trace (snd (f x t)) = pr_trace t @ es'" using assms(2) unfolding extends_def by blast
    with m Ok es show ?thesis by (auto simp: io_bind_def)
  qed (use m es in \<open>auto simp: io_bind_def\<close>)
qed

lemma speaks_extends: "speaks m \<Longrightarrow> extends m"
  unfolding speaks_def extends_def by blast

lemma extends_simple:
  "extends (syscall_ret K n args)" "extends (io_lift r)" "extends (io_ok x)" "extends (exit_error K)"
  by (auto simp: extends_def syscall_run exit_error_def syscall1_def io_bind_def)

lemma libc_write_speaks: "speaks (libc_write K fd b)"
  by (simp add: speaks_def libc_write_def syscall3_def syscall_run)

lemma write_pieces_trace:
  "write_pieces K fd ps s = (r, t) \<Longrightarrow>
     \<exists>es. pr_trace t = pr_trace s @ es \<and> list_all writes_out es \<and> (r = Ok (Inr ()) \<or> es \<noteq> [])"
proof (induction ps arbitrary: s)
  case Nil
  then show ?case by simp
next
  case (Cons p ps)
  obtain r1 s1 where w: "write_all K fd p s = (r1, s1)" by fastforce
  obtain bs where bs: "pr_trace s1 = pr_trace s @ map (write_event fd) bs" "bs = [] \<longleftrightarrow> p = []"
    using write_all_trace [OF w] by blast
  have out: "list_all writes_out (map (write_event fd) bs)" by (simp add: list_all_iff write_event_def)
  show ?case
  proof (cases "r1 = Ok (Inr ())")
    case True
    with Cons.prems w have "write_pieces K fd ps s1 = (r, t)" by (simp add: io_bind_def)
    from Cons.IH [OF this] bs(1) out show ?thesis by auto
  next
    case False
    have "p \<noteq> []"
    proof
      assume "p = []"
      with w have "r1 = Ok (Inr ())" by (simp add: write_all.simps)
      with False show False ..
    qed
    moreover from False Cons.prems w have "t = s1" by (cases r1) (auto simp: io_bind_def split: sum.split_asm)
    ultimately show ?thesis using bs out by auto
  qed
qed

lemma print_to_trace:
  assumes "print_to K fd ps s = (r, t)"
  shows "\<exists>es. pr_trace t = pr_trace s @ es \<and> list_all writes_out es \<and> (r = Ok () \<or> es \<noteq> [])"
proof -
  obtain r1 s1 where w: "write_pieces K fd ps s = (r1, s1)" by fastforce
  with assms have "t = s1" "r1 = Ok (Inr ()) \<Longrightarrow> r = Ok ()"
    by (cases r1; auto simp: print_to_def io_bind_def)+
  with write_pieces_trace [OF w] show ?thesis by blast
qed

lemma println_err_speaks: "speaks (println_err K ps)"
  unfolding speaks_def
proof
  fix s
  obtain r1 s1 where 1: "print_to K STDERR_FILENO ps s = (r1, s1)" by fastforce
  obtain r2 s2 where 2: "print_to K STDERR_FILENO [[10]] s1 = (r2, s2)" by fastforce
  obtain es1 where es1: "pr_trace s1 = pr_trace s @ es1" "list_all writes_out es1" "r1 = Ok () \<or> es1 \<noteq> []"
    using print_to_trace [OF 1] by blast
  obtain es2 where es2: "pr_trace s2 = pr_trace s1 @ es2" "list_all writes_out es2"
    using print_to_trace [OF 2] by blast
  have "es2 \<noteq> []"
  proof -
    obtain r3 s3 where w: "write_all K STDERR_FILENO [10] s1 = (r3, s3)" by fastforce
    obtain bs where "pr_trace s3 = pr_trace s1 @ map (write_event STDERR_FILENO) bs" "bs \<noteq> []"
      using write_all_trace [OF w] by blast
    moreover have "s2 = s3" using 2 w by (cases r3) (auto simp: print_to_def io_bind_def split: sum.split_asm)
    ultimately show ?thesis using es2(1) by auto
  qed
  show "\<exists>e es. pr_trace (snd (println_err K ps s)) = pr_trace s @ e # es \<and> writes_out e"
  proof (cases "r1 = Ok ()")
    case True
    then have "snd (println_err K ps s) = s2" using 1 2 by (simp add: println_err_def io_bind_def)
    moreover have "list_all writes_out (es1 @ es2)" "es1 @ es2 \<noteq> []" using es1 es2 \<open>es2 \<noteq> []\<close> by simp_all
    ultimately show ?thesis using es1(1) es2(1) by (cases "es1 @ es2") auto
  next
    case False
    then have "snd (println_err K ps s) = s1" using 1 by (cases r1) (simp_all add: println_err_def io_bind_def)
    then show ?thesis using es1 False by (cases es1) auto
  qed
qed

lemma die_speaks: "speaks (die K ps)"
  unfolding die_def by (intro speaks_bind println_err_speaks extends_simple)

section \<open>From the first instruction to the program\<close>

text \<open>The trace of a run that linked the program and jumped to it, from the state \<open>s\<close> in which the linker has
  relocated itself: the image is the ARM64 image in the bytes that memory holds at the header of the executable, the
  cache is attached at the address the kernel gave, the linker's own binds are written, the directory is read from
  the arguments; after the base of the cache the trace is that of linking this image, with the jump and the exit.\<close>

definition program_entered :: "env \<Rightarrow> machine \<Rightarrow> stack \<Rightarrow> fixup list \<Rightarrow> proc \<Rightarrow> event list \<Rightarrow> bool" where
  "program_entered E K k binds s es \<longleftrightarrow> (\<exists>magic img base found cache_base s1 slide cache m dir vm entry es' rest.
     read_magic (raw_slice (pr_mem s) (sk_executable_header k) 4) = Ok magic \<and>
     arm64_container_create E (with_bytes (raw_slice (pr_mem s) (sk_executable_header k) (sk_executable_size k))
       (macho_endian_from_magic magic)) (sk_executable_header k) = Ok (img, base) \<and>
     dyld_shared_cache_base_address_get K s = (Ok (found, cache_base), s1) \<and> found \<noteq> 0 \<and>
     wsub (overflow_checks E) cache_base DYLD_LIKELY_UNSLID_VM_ADDR = Ok slide \<and>
     from_existing E (pr_mem s1) cache_base slide dsc_new = Ok cache \<and>
     tls_functions_self_bind_hack E (sk_dylinker_header k) binds cache (pr_mem s1) = Ok m \<and>
     exe_dir (overflow_checks E) m (sk_argv k) = Ok (Some dir) \<and>
     linked E K cache dir True img (vm, entry) es' \<and> list_all plain es' \<and>
     es = Svc SHARED_REGION_CHECK_NP [Out 8] # es' @
       [Run entry [sk_argc k, sk_argv k, sk_envp k, sk_apple k], Svc SYS_EXIT [W 0]] @ rest)"

text \<open>The same from the first instruction on, with the relocation of the linker.\<close>

definition program_ran :: "env \<Rightarrow> machine \<Rightarrow> stack \<Rightarrow> proc \<Rightarrow> event list \<Rightarrow> bool" where
  "program_ran E K k s es \<longleftrightarrow> (\<exists>magic fs m.
     read_magic (raw_slice (pr_mem s) (sk_dylinker_header k) 4) = Ok magic \<and>
     chained_fixups_parse_all E (with_bytes (raw_slice (pr_mem s) (sk_dylinker_header k) (sk_dylinker_size k))
       (macho_endian_from_magic magic)) = Ok fs \<and>
     fixup_all_chained_fixups E (sk_dylinker_header k) 0 [] [] None True fs (pr_mem s) = Ok m \<and>
     program_entered E K k (filter is_bind fs) (s\<lparr>pr_mem := m\<rparr>) es)"

lemma program_enteredI:
  "read_magic (raw_slice (pr_mem s) (sk_executable_header k) 4) = Ok magic \<Longrightarrow>
   arm64_container_create E (with_bytes (raw_slice (pr_mem s) (sk_executable_header k) (sk_executable_size k))
       (macho_endian_from_magic magic)) (sk_executable_header k) = Ok (img, base) \<Longrightarrow>
   dyld_shared_cache_base_address_get K s = (Ok (found, cache_base), s1) \<Longrightarrow> found \<noteq> 0 \<Longrightarrow>
   wsub (overflow_checks E) cache_base DYLD_LIKELY_UNSLID_VM_ADDR = Ok slide \<Longrightarrow>
   from_existing E (pr_mem s1) cache_base slide dsc_new = Ok cache \<Longrightarrow>
   tls_functions_self_bind_hack E (sk_dylinker_header k) binds cache (pr_mem s1) = Ok m \<Longrightarrow>
   exe_dir (overflow_checks E) m (sk_argv k) = Ok (Some dir) \<Longrightarrow>
   linked E K cache dir True img (vm, entry) es' \<Longrightarrow> list_all plain es' \<Longrightarrow>
   es = Svc SHARED_REGION_CHECK_NP [Out 8] # es' @ [Run entry [sk_argc k, sk_argv k, sk_envp k, sk_apple k], Svc SYS_EXIT [W 0]] \<Longrightarrow>
   program_entered E K k binds s es"
  unfolding program_entered_def by (intro exI conjI) (assumption | simp)+

lemma program_ran_append: "program_ran E K k s es \<Longrightarrow> program_ran E K k s (es @ es')"
  unfolding program_ran_def program_entered_def by fastforce

text \<open>The outcome of a step that does not return, from the state \<open>s\<close> and after the events \<open>before\<close>: it goes on, or it
  panics, and then it has reported or not yet exited or is finished.\<close>

definition settles :: "(event list \<Rightarrow> bool) \<Rightarrow> event list \<Rightarrow> 'a io \<Rightarrow> proc \<Rightarrow> bool" where
  "settles S before m s \<longleftrightarrow> (\<exists>es. pr_trace (snd (m s)) = pr_trace s @ es \<and>
     (fst (m s) = Diverge \<or> (\<exists>p. fst (m s) = Panic p) \<and>
       (reports (before @ es) \<or> list_all (\<lambda>e. \<not> exits e) (before @ es) \<or> S (before @ es))))"

lemma settlesD:
  "settles S before m s \<Longrightarrow> m s = (r, t) \<Longrightarrow> \<exists>es. pr_trace t = pr_trace s @ es \<and> (r = Diverge \<or> (\<exists>p. r = Panic p) \<and>
     (reports (before @ es) \<or> list_all (\<lambda>e. \<not> exits e) (before @ es) \<or> S (before @ es)))"
  unfolding settles_def by (metis fst_conv snd_conv)

lemma ends_cases: "ends m \<Longrightarrow> m s = (r, t) \<Longrightarrow> (\<exists>p. r = Panic p) \<or> r = Diverge"
  unfolding ends_def by (metis fst_conv)

text \<open>One step of the entry point, whose error is reported.\<close>

lemma settles_or_die:
  fixes m :: "'c io"
  assumes m: "leaves Q m" and before: "list_all (\<lambda>e. \<not> exits e) before"
    and f: "\<And>x t es. m s = (Ok x, t) \<Longrightarrow> Q x es \<Longrightarrow> list_all plain es \<Longrightarrow> settles S (before @ es) (f x) t"
  shows "settles S before (io_bind (or_die K msg m) f) s"
  unfolding settles_def
proof -
  obtain r1 s1 where m1: "m s = (r1, s1)" by fastforce
  obtain es1 where es1: "pr_trace s1 = pr_trace s @ es1" "list_all plain es1" "\<And>x. r1 = Ok x \<Longrightarrow> Q x es1"
    using leavesD [OF m m1] by blast
  note quiet = plain_no_exits [OF es1(2)]
  show "\<exists>es. pr_trace (snd (io_bind (or_die K msg m) f s)) = pr_trace s @ es \<and>
      (fst (io_bind (or_die K msg m) f s) = Diverge \<or> (\<exists>p. fst (io_bind (or_die K msg m) f s) = Panic p) \<and>
       (reports (before @ es) \<or> list_all (\<lambda>e. \<not> exits e) (before @ es) \<or> S (before @ es)))"
  proof (cases r1)
    case (Ok x)
    with m1 have run: "io_bind (or_die K msg m) f s = f x s1" by (simp add: io_bind_def or_die_def)
    have "settles S (before @ es1) (f x) s1" using f m1 es1 Ok by blast
    then obtain es2 where "pr_trace (snd (f x s1)) = pr_trace s1 @ es2" "fst (f x s1) = Diverge \<or> (\<exists>p. fst (f x s1) = Panic p) \<and>
        (reports (before @ es1 @ es2) \<or> list_all (\<lambda>e. \<not> exits e) (before @ es1 @ es2) \<or> S (before @ es1 @ es2))"
      unfolding settles_def append_assoc by blast
    with es1 show ?thesis unfolding run by (intro exI [of _ "es1 @ es2"]) simp
  next
    case (Err e)
    obtain r2 s2 where d: "(die K (msg e) :: 'c io) s1 = (r2, s2)" by fastforce
    note r2 = ends_cases [OF exit_ends(2) d]
    have "list_all (\<lambda>e. \<not> exits e) (before @ es1)" using before quiet by simp
    from speaks_reports [OF die_speaks d this] obtain es2 where
      "pr_trace s2 = pr_trace s1 @ es2" "reports ((before @ es1) @ es2)" by blast
    moreover have run: "io_bind (or_die K msg m) f s = (case r2 of Panic p \<Rightarrow> Panic p | _ \<Rightarrow> Diverge, s2)"
      using m1 Err d r2 by (auto simp: io_bind_def or_die_def)
    ultimately show ?thesis
      unfolding run fst_conv snd_conv using es1(1) r2 by (intro exI [of _ "es1 @ es2"]) auto
  next
    case (Panic p)
    with m1 have run: "io_bind (or_die K msg m) f s = (Panic p, s1)" by (simp add: io_bind_def or_die_def)
    show ?thesis unfolding run using es1(1) quiet before by (intro exI [of _ es1]) simp
  next
    case Diverge
    with m1 have run: "io_bind (or_die K msg m) f s = (Diverge, s1)" by (simp add: io_bind_def or_die_def)
    show ?thesis unfolding run using es1(1) by (intro exI [of _ es1]) simp
  qed
qed

lemma settles_bind:
  assumes m: "leaves Q m" and noerr: "no_error m" and before: "list_all (\<lambda>e. \<not> exits e) before"
    and f: "\<And>x t es. m s = (Ok x, t) \<Longrightarrow> Q x es \<Longrightarrow> list_all plain es \<Longrightarrow> settles S (before @ es) (f x) t"
  shows "settles S before (io_bind m f) s"
proof -
  have "io_bind m f s = io_bind (or_die K msg m) f s" for s and K and msg :: "error \<Rightarrow> bytes list"
  proof (cases "m s")
    case (Pair r t)
    moreover have "fst (m s) \<noteq> Err e" for e using noerr unfolding no_error_def by blast
    ultimately show ?thesis by (cases r) (auto simp: io_bind_def or_die_def)
  qed
  then have eq: "io_bind m f = io_bind (or_die undefined undefined m) f" by (simp add: fun_eq_iff)
  show ?thesis unfolding eq by (rule settles_or_die [OF m before f])
qed

lemma leaves_reads: "leaves (\<lambda>x es. es = [] \<and> (\<exists>m. f m = Ok x)) (io_reads f)"
  by (auto simp: leaves_def io_reads_def)

lemma leaves_writes: "leaves (\<lambda>_ es. es = []) (io_writes f)"
  by (auto simp: leaves_def io_writes_def split: res.split)

lemma leaves_base: "leaves (\<lambda>_ es. es = [Svc SHARED_REGION_CHECK_NP [Out 8]]) (dyld_shared_cache_base_address_get K)"
  unfolding dyld_shared_cache_base_address_get_def
  by (rule leaves_bind_after [OF leaves_syscall(1)], simp_all add: const_defs)
    (auto intro!: split_prod_leaves leaves_ok)

lemma leaves_entry: "leaves (\<lambda>_ es. es = [Run entry [argc, argv, envp, apple]]) (entry_and_ret K entry argc argv envp apple)"
  by (simp add: leaves_def entry_and_ret_def plain_def)

lemma settles_die:
  fixes f :: "'c \<Rightarrow> 'd io"
  assumes "list_all (\<lambda>e. \<not> exits e) before"
  shows "settles S before (io_bind (die K ps) f) s"
proof -
  have eq: "(die K ps :: 'c io) = or_die K (\<lambda>_. ps) (io_lift (Err []))" by (simp add: or_die_def fun_eq_iff)
  show ?thesis
    unfolding eq by (rule settles_or_die [where Q = "\<lambda>_ _. False"]) (use assms in simp_all)
qed

text \<open>The two tests whose failure is reported.\<close>

lemma settles_test:
  assumes "list_all (\<lambda>e. \<not> exits e) before"
  shows "(\<not> b \<Longrightarrow> settles S before (f ()) s) \<Longrightarrow> settles S before (io_bind (if b then die K ps else io_ok ()) f) s"
    "(\<And>y. d = Some y \<Longrightarrow> settles S before (g y) s) \<Longrightarrow>
       settles S before (io_bind (case d of Some y \<Rightarrow> io_ok y | None \<Rightarrow> die K ps) g) s"
proof -
  show "settles S before (io_bind (if b then die K ps else io_ok ()) f) s" if "\<not> b \<Longrightarrow> settles S before (f ()) s"
  proof (cases b)
    case True
    show ?thesis unfolding if_P [OF True] by (rule settles_die [OF assms])
  qed (use that in simp)
  show "settles S before (io_bind (case d of Some y \<Rightarrow> io_ok y | None \<Rightarrow> die K ps) g) s" if "\<And>y. d = Some y \<Longrightarrow> settles S before (g y) s"
  proof (cases d)
    case None
    show ?thesis unfolding None option.case by (rule settles_die [OF assms])
  qed (use that in simp)
qed

lemma settles_exit: "S (before @ [Svc SYS_EXIT [W 0]]) \<Longrightarrow> settles S before (exit_error K) s"
  by (simp add: settles_def exit_error_def syscall1_def io_bind_def syscall_run EXIT_FAILURE_def)

lemma step_no_error:
  "(\<And>m e. f m \<noteq> Err e) \<Longrightarrow> no_error (io_reads f)" "no_error (dyld_shared_cache_base_address_get K)"
  "no_error (io_lift (wsub oc a b))" "no_error (entry_and_ret K x argc argv envp apple)"
  by (auto simp: no_error_def io_reads_def dyld_shared_cache_base_address_get_def syscall_run io_bind_def wsub_def
      entry_and_ret_def split: prod.split)

lemma magic_no_error: "read_magic b \<noteq> Err e"
  by (simp add: read_magic_def split: option.split)

lemma exe_dir_no_error: "exe_dir oc m argv \<noteq> Err e"
  by (auto simp: exe_dir_def argv0_def Let_def res_simps dest: arg_len_loop_no_error split: option.split_asm)

lemma io_step_Ok:
  "io_reads f s = (Ok x, t) \<longleftrightarrow> f (pr_mem s) = Ok x \<and> t = s" "io_lift r s = (Ok x, t) \<longleftrightarrow> r = Ok x \<and> t = s"
  "io_writes g s = (Ok u, t) \<longleftrightarrow> (\<exists>m. g (pr_mem s) = Ok m \<and> t = s\<lparr>pr_mem := m\<rparr>)"
  by (auto simp: io_reads_def io_writes_def split: res.split)

lemma pr_mem_written: "pr_mem (t\<lparr>pr_mem := m\<rparr>) = m"
  by simp

lemma dynld_entrypoint_settles:
  "settles (program_entered E K k fs s) []
     (dynld_entrypoint E K fuel fs (sk_dylinker_header k) (sk_executable_header k) (sk_executable_size k)
       (sk_argc k) (sk_argv k) (sk_envp k) (sk_apple k)) s"
  unfolding dynld_entrypoint_def
  apply (rule settles_bind [OF leaves_reads step_no_error(1) [OF magic_no_error]])
   apply simp
  apply (simp only: io_step_Ok, elim conjE, hypsubst)
  apply (rule settles_or_die [OF leaves_reads])
   apply simp
  apply (simp only: io_step_Ok split_paired_all prod.case, elim conjE, hypsubst)
  apply (rule settles_bind [OF leaves_base step_no_error(2)])
   apply simp
  apply (simp only: split_paired_all prod.case)
  apply (rule settles_test(1))
   apply (simp add: const_defs)
  apply (rule settles_bind [where Q = "\<lambda>_ es. es = []" and m = "io_lift (wsub oc a b)" for oc a b, OF _ step_no_error(3)])
    apply simp
   apply (simp add: const_defs)
  apply (simp only: io_step_Ok, elim conjE, hypsubst)
  apply (rule settles_or_die [OF leaves_reads])
   apply (simp add: const_defs)
  apply (simp only: io_step_Ok, elim conjE, hypsubst)
  apply (rule settles_or_die [OF leaves_writes])
   apply (simp add: const_defs)
  apply (simp only: io_step_Ok, elim conjE exE, hypsubst)
  apply (rule settles_bind [OF leaves_reads step_no_error(1) [OF exe_dir_no_error]])
   apply (simp add: const_defs)
  apply (simp only: io_step_Ok, elim conjE, hypsubst)
  apply (rule settles_test(2))
   apply (simp add: const_defs)
  apply (rule settles_or_die [OF leaves_loader])
   apply (simp add: const_defs)
  apply (simp only: split_paired_all prod.case)
  apply (rule settles_bind [OF leaves_entry step_no_error(4)])
   apply (simp add: const_defs plain_no_exits)
  apply (rule settles_exit)
  apply (simp only: simp_thms pr_mem_written)
  apply (rule program_enteredI, assumption, assumption, assumption, assumption, assumption, assumption, assumption)
     apply assumption+
  apply simp
  done

text \<open>The self-relocation either asks for nothing, or reports and ends.\<close>

lemma speaks_settled:
  assumes "speaks m" "ends m" "m s = (r, t)"
  shows "((\<exists>p. r = Panic p) \<or> r = Diverge) \<and> (\<exists>e es. pr_trace t = pr_trace s @ e # es \<and> writes_out e)"
  using ends_cases [OF assms(2,3)] assms(1,3) unfolding speaks_def by (metis snd_conv)

lemma libc_write_exit:
  "speaks (io_bind (libc_write K fd a) (\<lambda>_. exit_error K :: 'a io))" "ends (io_bind (libc_write K fd a) (\<lambda>_. exit_error K :: 'a io))"
  "speaks (io_bind (libc_write K fd a) (\<lambda>_. io_bind (libc_write K fd b) (\<lambda>_. exit_error K :: 'a io)))"
  "ends (io_bind (libc_write K fd a) (\<lambda>_. io_bind (libc_write K fd b) (\<lambda>_. exit_error K :: 'a io)))"
proof -
  note ex = speaks_extends [OF speaks_bind [OF libc_write_speaks extends_simple(4)]]
  show "speaks (io_bind (libc_write K fd a) (\<lambda>_. exit_error K :: 'a io))" by (intro speaks_bind libc_write_speaks extends_simple)
  show "speaks (io_bind (libc_write K fd a) (\<lambda>_. io_bind (libc_write K fd b) (\<lambda>_. exit_error K :: 'a io)))"
    by (intro speaks_bind libc_write_speaks ex)
qed (intro ends_bind syscalls_no_error exit_ends)+

lemma self_rebase_settled:
  assumes "rebase_self_and_extract_bind_fixups E K c b s = (r, t)"
  shows "(\<forall>e. r \<noteq> Err e) \<and> (pr_trace t = pr_trace s \<or>
    ((\<exists>p. r = Panic p) \<or> r = Diverge) \<and> (\<exists>e es. pr_trace t = pr_trace s @ e # es \<and> writes_out e))"
proof (cases "chained_fixups_parse_all E c")
  case (Ok fixups)
  show ?thesis
  proof (cases "fixups = []")
    case True
    with assms Ok show ?thesis by (auto simp: rebase_self_and_extract_bind_fixups_def)
  next
    case False
    show ?thesis
    proof (cases "fixup_all_chained_fixups E b 0 [] [] None True fixups (pr_mem s)")
      case err: (Err e)
      obtain r1 t1 where d: "(io_bind (libc_write K STDERR_FILENO (lit ''self rebase error, exiting ...'' @ [10])) (\<lambda>_. exit_error K)
          :: unit io) s = (r1, t1)" by fastforce
      note settled = speaks_settled [OF libc_write_exit(1,2) d]
      then have "t = t1 \<and> (r = (case r1 of Panic p \<Rightarrow> Panic p | _ \<Rightarrow> Diverge))"
        using assms Ok False err d by (auto simp: rebase_self_and_extract_bind_fixups_def io_bind_def)
      with settled show ?thesis by auto
    qed (use assms Ok False in \<open>auto simp: rebase_self_and_extract_bind_fixups_def io_bind_def\<close>)
  qed
next
  case (Err e)
  with assms have "io_bind (libc_write K STDERR_FILENO (lit e)) (\<lambda>_. io_bind (libc_write K STDERR_FILENO
      ([10] @ lit ''exiting ...'' @ [10])) (\<lambda>_. exit_error K)) s = (r, t)"
    by (simp add: rebase_self_and_extract_bind_fixups_def)
  from speaks_settled [OF libc_write_exit(3,4) this] show ?thesis by auto
qed (use assms in \<open>auto simp: rebase_self_and_extract_bind_fixups_def\<close>)

text \<open>When it succeeds it has rebased the linker in memory, and hands on its binds.\<close>

lemma self_rebase_Ok:
  assumes "rebase_self_and_extract_bind_fixups E K c b s = (Ok binds, t)"
  shows "\<exists>fs m. chained_fixups_parse_all E c = Ok fs \<and> fixup_all_chained_fixups E b 0 [] [] None True fs (pr_mem s) = Ok m \<and>
    binds = filter is_bind fs \<and> t = s\<lparr>pr_mem := m\<rparr>"
proof (cases "chained_fixups_parse_all E c")
  case (Ok fs)
  have ex: "io_bind m (\<lambda>_. exit_error K) s \<noteq> (Ok u, t')" for m :: "'x io" and u :: unit and t'
    by (auto simp: io_bind_Ok_iff exit_error_def)
  show ?thesis
  proof (cases "fs = []")
    case True
    with assms Ok show ?thesis by (simp add: rebase_self_and_extract_bind_fixups_def)
  next
    case False
    with assms Ok ex show ?thesis
      by (auto simp: rebase_self_and_extract_bind_fixups_def io_bind_Ok_iff [where f = "\<lambda>_. io_ok _"] split: res.split_asm)
  qed
qed (use assms in \<open>auto simp: rebase_self_and_extract_bind_fixups_def io_bind_Ok_iff exit_error_def\<close>)

lemma start_settles:
  assumes "start E K fuel info s = ((r, flag), t)"
  defines "k \<equiv> stack_read (pr_mem s) info"
  shows "\<exists>es. pr_trace t = pr_trace s @ es \<and> (r = Diverge \<or> (\<exists>p. r = Panic p) \<and>
    (reports es \<or> list_all (\<lambda>e. \<not> exits e) es \<or> program_ran E K k s es))"
proof -
  let ?S = "program_ran E K k s"
  let ?rebase = "\<lambda>magic t. rebase_self_and_extract_bind_fixups E K
          (with_bytes (raw_slice (pr_mem t) (sk_dylinker_header k) (sk_dylinker_size k)) (macho_endian_from_magic magic))
          (sk_dylinker_header k) t"
  obtain r1 t1 where first: "io_bind (io_reads (\<lambda>m. read_magic (raw_slice m (sk_dylinker_header k) 4))) ?rebase s = (r1, t1)"
    by fastforce
  have settled: "(\<forall>e. r1 \<noteq> Err e) \<and> (pr_trace t1 = pr_trace s \<or>
      ((\<exists>p. r1 = Panic p) \<or> r1 = Diverge) \<and> (\<exists>e es. pr_trace t1 = pr_trace s @ e # es \<and> writes_out e))"
  proof (cases "read_magic (raw_slice (pr_mem s) (sk_dylinker_header k) 4)")
    case (Ok magic)
    with first have "?rebase magic s = (r1, t1)" by (simp add: io_bind_def io_reads_def)
    then show ?thesis by (rule self_rebase_settled)
  next
    case (Err e)
    with magic_no_error show ?thesis by metis
  qed (use first in \<open>auto simp: io_bind_def io_reads_def\<close>)
  have start: "start E K fuel info s = (case r1 of Ok fs \<Rightarrow>
      (case dynld_entrypoint E K fuel fs (sk_dylinker_header k) (sk_executable_header k)
         (sk_executable_size k) (sk_argc k) (sk_argv k) (sk_envp k) (sk_apple k) t1 of (r, u) \<Rightarrow> ((r, True), u))
      | Err e \<Rightarrow> ((Err e, False), t1) | Panic p \<Rightarrow> ((Panic p, False), t1) | Diverge \<Rightarrow> ((Diverge, False), t1))"
    using first unfolding start_def Let_def k_def by simp
  show ?thesis
  proof (cases r1)
    case (Ok fs)
    then have t1: "pr_trace t1 = pr_trace s" using settled by auto
    let ?go = "dynld_entrypoint E K fuel fs (sk_dylinker_header k) (sk_executable_header k)
         (sk_executable_size k) (sk_argc k) (sk_argv k) (sk_envp k) (sk_apple k)"
    have "?go t1 = (r, t)" using assms(1) Ok unfolding start by (simp split: prod.splits)
    from settlesD [OF dynld_entrypoint_settles this] obtain es where es: "pr_trace t = pr_trace t1 @ es"
      "r = Diverge \<or> (\<exists>p. r = Panic p) \<and> (reports es \<or> list_all (\<lambda>e. \<not> exits e) es \<or> program_entered E K k fs t1 es)"
      unfolding append_Nil by blast
    have "program_entered E K k fs t1 es \<Longrightarrow> ?S es"
    proof -
      assume "program_entered E K k fs t1 es"
      moreover obtain magic where magic: "read_magic (raw_slice (pr_mem s) (sk_dylinker_header k) 4) = Ok magic" "?rebase magic s = (Ok fs, t1)"
        using first Ok by (auto simp: io_bind_Ok_iff io_step_Ok)
      moreover from self_rebase_Ok [OF magic(2)] obtain fs' m where "chained_fixups_parse_all E (with_bytes (raw_slice (pr_mem s)
          (sk_dylinker_header k) (sk_dylinker_size k)) (macho_endian_from_magic magic)) = Ok fs'"
        "fixup_all_chained_fixups E (sk_dylinker_header k) 0 [] [] None True fs' (pr_mem s) = Ok m"
        "fs = filter is_bind fs'" "t1 = s\<lparr>pr_mem := m\<rparr>" by blast
      ultimately show "?S es" unfolding program_ran_def by blast
    qed
    with es t1 show ?thesis by auto
  next
    case (Panic p)
    then have t: "r = Panic p" "t = t1" using assms(1) unfolding start by simp_all
    from settled Panic consider "pr_trace t1 = pr_trace s" | e es where "pr_trace t1 = pr_trace s @ e # es" "writes_out e" by auto
    then show ?thesis
    proof cases
      case 1
      with t show ?thesis by (intro exI [of _ "[]"]) simp
    next
      case 2
      with t reportsI [of "[]" e es] show ?thesis by (intro exI [of _ "e # es"]) simp
    qed
  next
    case Diverge
    then have t: "r = Diverge" "t = t1" using assms(1) unfolding start by simp_all
    with settled show ?thesis by auto
  qed (use settled in simp)
qed

lemma panic_handler_speaks:
  assumes "panic_handler K info n flag p s = (r, t)"
  shows "\<exists>es. pr_trace t = pr_trace s @ es \<and> (r = Diverge \<or> (\<exists>e es'. es = e # es' \<and> writes_out e))"
  using assms
proof (induction n arbitrary: p s)
  case 0
  then show ?case by simp
next
  case (Suc n)
  let ?say = "if flag then println_err K (lit ''panic: '' # info p)
    else io_bind (libc_write K STDERR_FILENO (lit ''panic'' @ [10])) (\<lambda>_. io_ok ())"
  have "speaks (io_bind (libc_write K fd b) (\<lambda>_. io_ok ()))" for fd b
    by (intro speaks_bind libc_write_speaks extends_simple)
  then have "speaks ?say" by (simp only: println_err_speaks if_split simp_thms)
  obtain r1 t1 where say: "?say s = (r1, t1)" by fastforce
  with \<open>speaks ?say\<close> obtain e es where es: "pr_trace t1 = pr_trace s @ e # es" "writes_out e"
    unfolding speaks_def by (metis snd_conv)
  show ?case
  proof (cases r1)
    case (Ok u)
    with Suc.prems say have "io_bind (libc_exit K EXIT_FAILURE) (\<lambda>_. io_lift (Panic Wild_Access)) t1 = (r, t)" by simp
    then have "\<exists>es'. pr_trace t = pr_trace t1 @ es'"
      by (auto simp: io_bind_def libc_exit_def syscall1_def syscall_run)
    with es show ?thesis by auto
  next
    case (Panic q)
    with Suc.prems say have "panic_handler K info n flag q t1 = (r, t)" by simp
    from Suc.IH [OF this] es show ?thesis by auto
  qed (use Suc.prems say es in auto)
qed

text \<open>C14: no failure is silent. However a process ends, before it asks to exit it has either written something, or
  the run went all the way: the linker relocated itself, asked for the base of the shared cache, and for the calls of a
  complete link, libraries first, of the ARM64 image in the bytes of its executable as memory then held them, with the
  cache at that base and the directory its arguments name; and then it jumped to the entry point of that image with the
  arguments, environment and strings it was started with. The only other outcome is that it runs on.\<close>

theorem silent_exit_means_program_ran:
  "case process_start E K panic_text panic_fuel fuel regs s of (r, t) \<Rightarrow>
     let k = stack_read (pr_mem s) (er_sp regs) in
     \<exists>es. pr_trace t = pr_trace s @ es \<and> (r = Diverge \<or> reports es \<or>
       program_ran E K k s es)"
proof -
  let ?info = "er_sp regs"
  let ?k = "stack_read (pr_mem s) ?info"
  let ?S = "program_ran E K ?k s"
  obtain r1 flag t1 where st: "start E K fuel ?info s = ((r1, flag), t1)" by (metis prod.collapse)
  from start_settles [OF st] obtain es where es: "pr_trace t1 = pr_trace s @ es"
    "r1 = Diverge \<or> (\<exists>p. r1 = Panic p) \<and> (reports es \<or> list_all (\<lambda>e. \<not> exits e) es \<or> ?S es)" by blast
  obtain r t where run: "process_start E K panic_text panic_fuel fuel regs s = (r, t)" by fastforce
  have "\<exists>es. pr_trace t = pr_trace s @ es \<and> (r = Diverge \<or> reports es \<or> ?S es)"
  proof (cases "\<exists>p. r1 = Panic p")
    case True
    then obtain p where p: "r1 = Panic p" by blast
    with run st have "panic_handler K panic_text panic_fuel flag p t1 = (r, t)"
      by (simp add: process_start_def process_run_def dyld_start_stack)
    from panic_handler_speaks [OF this] obtain es' where es': "pr_trace t = pr_trace t1 @ es'"
      "r = Diverge \<or> (\<exists>e es''. es' = e # es'' \<and> writes_out e)" by blast
    have "r = Diverge \<or> reports (es @ es') \<or> ?S (es @ es')"
      using es(2) es'(2) p reports_append [of es es'] program_ran_append reportsI [of es] by blast
    with es(1) es'(1) show ?thesis by auto
  next
    case False
    with es(2) have "r1 = Diverge" by blast
    with run st es(1) show ?thesis by (simp add: process_start_def process_run_def dyld_start_stack)
  qed
  then show ?thesis unfolding run prod.case Let_def .
qed

end
