(* ===== verification/Loadable.thy ===== *)
theory Loadable
  imports Link_Order
begin

text \<open>
  When a load succeeds. \<open>loadable\<close> says what it takes of an image and of all it needs, libraries on disk included;
  a loadable image is loaded, given enough depth, whatever is in memory.
\<close>

section \<open>Loadable images\<close>

text \<open>What other images can rely on: every load of the library on disk under \<open>path\<close> leaves a region whose exports have
  the symbol, defined there.\<close>

definition exposes :: "env \<Rightarrow> machine \<Rightarrow> shared_cache \<Rightarrow> bytes \<Rightarrow> bytes \<Rightarrow> bytes \<Rightarrow> bool" where
  "exposes E K cache dir path name \<longleftrightarrow>
     (\<forall>s c b t fuel vm sz u. disk_path_mmap K path s = (Ok (c, b), t) \<longrightarrow>
        macho_loader E K fuel cache c b dir (Some path) t = (Ok (vm, sz), u) \<longrightarrow>
        (\<exists>off. dylib_symbol_resolve E (with_bytes (raw_slice (pr_mem u) vm sz) Little) name = Ok (Some (Defined off))))"

text \<open>A bind that a load can serve whatever is in memory: a weak one to a symbol of the image's own table, one to a
  library of the shared cache that has the symbol, or one to a library on disk that exposes it. \<open>ds\<close> are the
  libraries the image needs and \<open>rp\<close> is its run path.\<close>

definition library_serves ::
  "env \<Rightarrow> machine \<Rightarrow> shared_cache \<Rightarrow> bytes \<Rightarrow> rpath option \<Rightarrow> bytes \<times> bool \<Rightarrow> bytes \<Rightarrow> bool" where
  "library_serves E K cache dir rp d name = (case d of (lib, cached) \<Rightarrow>
     if cached then \<exists>a. symbol_resolve E cache lib name = Ok (Some a)
     else \<exists>path. user_dylib_disk_path_resolve lib rp dir = Ok path \<and> exposes E K cache dir path name)"

definition bind_served ::
  "env \<Rightarrow> machine \<Rightarrow> shared_cache \<Rightarrow> bytes \<Rightarrow> rpath option \<Rightarrow> (bytes \<times> bool) list \<Rightarrow> symbol list \<Rightarrow> fixed_string \<Rightarrow> u32 \<Rightarrow> bool" where
  "bind_served E K cache dir rp ds symbols name ordinal \<longleftrightarrow> ordinal \<notin> {0, 254, 255} \<and>
     (if ordinal = 253 then
        \<exists>sym. find_map (\<lambda>sym. rbind (array_string_cmp sym name) (\<lambda>b. Ok (if b then Some sym else None))) symbols = Ok (Some sym)
      else unat ordinal \<le> length ds \<and>
        (\<exists>s. fs_as_str name = Ok s \<and> library_serves E K cache dir rp (ds ! (unat ordinal - 1)) s))"

definition fixup_served ::
  "env \<Rightarrow> machine \<Rightarrow> shared_cache \<Rightarrow> bytes \<Rightarrow> rpath option \<Rightarrow> (bytes \<times> bool) list \<Rightarrow> symbol list \<Rightarrow> fixup \<Rightarrow> bool" where
  "fixup_served E K cache dir rp ds symbols f = (case fx_kind f of
     Rebase _ \<Rightarrow> True | Bind name ordinal _ _ \<Rightarrow> bind_served E K cache dir rp ds symbols name ordinal)"

text \<open>An image is loadable when it parses, its fixups are served, its segments span a region, and each library
  it needs from disk has a path under which the system maps, whatever the state, a loadable image. The
  predicate is inductive, so no image needs itself.\<close>

inductive loadable :: "env \<Rightarrow> machine \<Rightarrow> shared_cache \<Rightarrow> bytes \<Rightarrow> container \<Rightarrow> bool"
  for E :: env and K :: machine and cache :: shared_cache and dir :: bytes where
  loadableI: "macho_parser E img = Ok p \<Longrightarrow> dependencies_collect (overflow_checks E) p cache = Ok deps \<Longrightarrow> fv_deref deps = Ok ds \<Longrightarrow>
     \<forall>f \<in> set (pi_fixups p). fixup_served E K cache dir (pi_rpath p) ds (pi_symbols p) f \<Longrightarrow>
     fv_deref (pi_segments p) = Ok gs \<Longrightarrow> segments_span (overflow_checks E) gs (- 1, 0) = Ok (lo, hi) \<Longrightarrow>
     wsub (overflow_checks E) hi lo = Ok sz \<Longrightarrow>
     \<forall>(name, cached) \<in> set ds. cached \<or> (\<exists>path. user_dylib_disk_path_resolve name (pi_rpath p) dir = Ok path \<and>
       (\<forall>s. \<exists>c b t. disk_path_mmap K path s = (Ok (c, b), t) \<and> loadable E K cache dir c)) \<Longrightarrow>
     loadable E K cache dir img"

text \<open>The library a needed one is represented by: by name when the shared cache has it, else by the bytes of
  its region, which then have the symbols the library exposes.\<close>

fun stands_for :: "bytes \<times> bool \<Rightarrow> library \<Rightarrow> bool" where
  "stands_for (name, cached) l \<longleftrightarrow> (if cached then l = System name else (\<exists>c vm. l = User c vm))"

definition has_exposed :: "env \<Rightarrow> machine \<Rightarrow> shared_cache \<Rightarrow> bytes \<Rightarrow> rpath option \<Rightarrow> bytes \<times> bool \<Rightarrow> library \<Rightarrow> bool" where
  "has_exposed E K cache dir rp d l \<longleftrightarrow> stands_for d l \<and> (\<forall>c vm path s. l = User c vm \<longrightarrow>
     user_dylib_disk_path_resolve (fst d) rp dir = Ok path \<longrightarrow> exposes E K cache dir path s \<longrightarrow>
     (\<exists>off. dylib_symbol_resolve E c s = Ok (Some (Defined off))))"

lemma has_exposed_system: "has_exposed E K cache dir rp (name, True) (System name)"
  by (simp add: has_exposed_def)

lemma bind_served_target:
  assumes "bind_served E K cache dir rp ds symbols name ordinal" "list_all2 (has_exposed E K cache dir rp) ds libs"
  shows "\<exists>v. bind_target E dst symbols libs (Some cache) name ordinal = Ok v"
proof (cases "ordinal = 253")
  case True
  with assms(1) show ?thesis by (auto simp: bind_served_def bind_target_def)
next
  case False
  let ?i = "unat ordinal - 1"
  obtain s where o: "ordinal \<noteq> 0" "ordinal \<noteq> 254" "ordinal \<noteq> 255" and i: "unat ordinal \<le> length ds"
    and s: "fs_as_str name = Ok s" "library_serves E K cache dir rp (ds ! ?i) s"
    using assms(1) False by (auto simp: bind_served_def)
  have "0 < unat ordinal" using o(1) by (simp add: unat_gt_0)
  then have lib: "has_exposed E K cache dir rp (ds ! ?i) (libs ! ?i)"
    using assms(2) i by (auto simp: list_all2_conv_all_nth)
  have target: "bind_target E dst symbols libs (Some cache) name ordinal = (case libs ! ?i of
      System path \<Rightarrow> rbind (symbol_resolve E cache path s) (ok_or Cache_Symbol_Missing)
    | User c base \<Rightarrow> rbind (dylib_symbol_resolve E c s) (\<lambda>r. rbind (ok_or User_Symbol_Missing r) (\<lambda>d.
        case d of Defined off \<Rightarrow> Ok (base + off) | Reexported _ _ \<Rightarrow> Panic Unimplemented)))"
    using o False i s(1) list_all2_lengthD [OF assms(2)] by (simp add: bind_target_def split: library.split)
  obtain n c where d: "ds ! ?i = (n, c)" by fastforce
  show ?thesis
  proof (cases c)
    case True
    with lib s(2) d show ?thesis by (auto simp: target has_exposed_def library_serves_def)
  next
    case False
    with lib s(2) d show ?thesis by (fastforce simp: target has_exposed_def library_serves_def)
  qed
qed

lemma fixups_served_apply:
  assumes "list_all2 (has_exposed E K cache dir rp) ds libs"
  shows "\<forall>f \<in> set fs. fixup_served E K cache dir rp ds symbols f \<Longrightarrow>
     \<exists>m'. fixup_all_chained_fixups E dst pz symbols libs (Some cache) False fs m = Ok m'"
proof (induction fs arbitrary: m)
  case (Cons f fs)
  have "\<exists>v. fixup_value E dst pz symbols libs (Some cache) False f = Ok v"
  proof (cases "fx_kind f")
    case (Bind name ordinal a d)
    with Cons.prems have "bind_served E K cache dir rp ds symbols name ordinal" by (simp add: fixup_served_def)
    from bind_served_target [OF this assms, of dst] Bind show ?thesis by (auto simp: fixup_value_def)
  qed (simp add: fixup_value_def)
  with Cons show ?case unfolding fixup_all_Cons by auto
qed simp

section \<open>Loadable images are loaded\<close>

text \<open>The image's own part, once its libraries are there.\<close>

lemma own_part_granted:
  assumes "kernel_grants K" "fv_deref (pi_segments p) = Ok gs" "segments_span oc gs (- 1, 0) = Ok (lo, hi)"
    and "wsub oc hi lo = Ok sz" "list_all2 (has_exposed E K cache dir rp) ds libs"
    and "\<forall>f \<in> set (pi_fixups p). fixup_served E K cache dir rp ds (pi_symbols p) f"
  obtains vm s1 s2 s3 where "macho_segments_map_to_vm oc K ex base gs s = (Ok (vm, sz), s1)"
    "image_fixups_apply E vm p libs cache ex s1 = (Ok (), s2)" "image_finalize K vm p ex s2 = (Ok (), s3)"
proof -
  obtain vm t where alloc: "vm_alloc_task_self K sz s = (Ok (Inr vm), t)" using grants_alloc [OF assms(1)] by metis
  obtain m where copy: "copy_loop ex base vm gs t = (Ok (), t\<lparr>pr_mem := m\<rparr>)" using copy_loop_ok by blast
  have mapped: "macho_segments_map_to_vm oc K ex base gs s = (Ok (vm, sz), t\<lparr>pr_mem := m\<rparr>)"
    using alloc copy by (simp add: macho_segments_map_to_vm_def assms(3,4) io_bind_def io_try_def io_lift_def io_ok_def)
  obtain m' where m': "fixup_all_chained_fixups E vm (if ex then PAGE_ZERO_SIZE else 0) (pi_symbols p) libs (Some cache) False
      (pi_fixups p) m = Ok m'" using fixups_served_apply [OF assms(5,6)] by blast
  then have "image_fixups_apply E vm p libs cache ex (t\<lparr>pr_mem := m\<rparr>) = (Ok (), t\<lparr>pr_mem := m'\<rparr>)"
    by (simp add: image_fixups_apply_def Let_def)
  with mapped finalize_granted [OF assms(1,2)] that show thesis by metis
qed

text \<open>From some depth on, every load gives the same result.\<close>

definition loads :: "env \<Rightarrow> machine \<Rightarrow> shared_cache \<Rightarrow> bytes \<Rightarrow> container \<Rightarrow> bool" where
  "loads E K cache dir img \<longleftrightarrow>
     (\<forall>base dd s. \<exists>n x t. \<forall>fuel \<ge> n. macho_loader E K fuel cache img base dir dd s = (Ok x, t))"

lemma libraries_loaded:
  assumes "\<forall>(name, cached) \<in> set ds. cached \<or> (\<exists>path. user_dylib_disk_path_resolve name rp dir = Ok path \<and>
       (\<forall>s. \<exists>c b t. disk_path_mmap K path s = (Ok (c, b), t) \<and> loads E K cache dir c))"
  shows "\<exists>n ls t. list_all2 (has_exposed E K cache dir rp) ds ls \<and> (\<forall>fuel \<ge> n.
     user_dylibs_loop K (\<lambda>c b path. macho_loader E K fuel cache c b dir (Some path)) dir rp ds loaded s = (Ok (loaded @ ls), t))"
  using assms
proof (induction ds arbitrary: loaded s)
  case Nil
  then show ?case by simp
next
  case (Cons d ds)
  obtain name cached where d: "d = (name, cached)" by fastforce
  have tl: "\<exists>n ls t. list_all2 (has_exposed E K cache dir rp) ds ls \<and> (\<forall>fuel \<ge> n.
     user_dylibs_loop K (\<lambda>c b path. macho_loader E K fuel cache c b dir (Some path)) dir rp ds loaded s = (Ok (loaded @ ls), t))"
    for loaded s using Cons.IH Cons.prems by simp
  show ?case
  proof (cases cached)
    case True
    obtain n ls t where "list_all2 (has_exposed E K cache dir rp) ds ls" "\<forall>fuel \<ge> n. user_dylibs_loop K (\<lambda>c b path. macho_loader E K fuel cache c b dir (Some path))
        dir rp ds (loaded @ [System name]) s = (Ok ((loaded @ [System name]) @ ls), t)" using tl by blast
    with True show ?thesis
      by (intro exI [of _ n] exI [of _ "System name # ls"] exI [of _ t]) (simp add: d has_exposed_system)
  next
    case False
    with Cons.prems d obtain path where path: "user_dylib_disk_path_resolve name rp dir = Ok path"
      "\<forall>s. \<exists>c b t. disk_path_mmap K path s = (Ok (c, b), t) \<and> loads E K cache dir c" by auto
    then obtain c b t1 where c: "disk_path_mmap K path s = (Ok (c, b), t1)" "loads E K cache dir c" by blast
    from c(2) obtain n1 x t2 where "\<forall>fuel \<ge> n1. macho_loader E K fuel cache c b dir (Some path) t1 = (Ok x, t2)"
      unfolding loads_def by blast
    moreover obtain vm sz where "x = (vm, sz)" by fastforce
    ultimately have l: "\<forall>fuel \<ge> n1. macho_loader E K fuel cache c b dir (Some path) t1 = (Ok (vm, sz), t2)" by simp
    let ?u = "User (with_bytes (raw_slice (pr_mem t2) vm sz) Little) vm"
    obtain n2 ls t where r: "list_all2 (has_exposed E K cache dir rp) ds ls" "\<forall>fuel \<ge> n2. user_dylibs_loop K (\<lambda>c b path. macho_loader E K fuel cache c b dir (Some path))
        dir rp ds (loaded @ [?u]) t2 = (Ok ((loaded @ [?u]) @ ls), t)" using tl by blast
    have "user_dylibs_loop K (\<lambda>c b path. macho_loader E K fuel cache c b dir (Some path)) dir rp (d # ds) loaded s =
        (Ok (loaded @ ?u # ls), t)" if "max n1 n2 \<le> fuel" for fuel
      using that False path(1) c(1) l r(2) by (simp add: d io_bind_def del: macho_loader.simps)
    moreover have "has_exposed E K cache dir rp d ?u"
      unfolding d has_exposed_def exposes_def using c(1) l path(1) False by (fastforce simp del: macho_loader.simps)
    ultimately show ?thesis using r(1) by (intro exI [of _ "max n1 n2"] exI [of _ "?u # ls"] exI [of _ t]) simp
  qed
qed

lemma loadable_loads:
  assumes "kernel_grants K"
  shows "loadable E K cache dir img \<Longrightarrow> loads E K cache dir img"
proof (induction rule: loadable.induct)
  case (loadableI img p deps ds gs lo hi sz)
  have libs: "\<forall>(name, cached) \<in> set ds. cached \<or> (\<exists>path. user_dylib_disk_path_resolve name (pi_rpath p) dir = Ok path \<and>
       (\<forall>s. \<exists>c b t. disk_path_mmap K path s = (Ok (c, b), t) \<and> loads E K cache dir c))"
    using loadableI(8) by fast
  show ?case
    unfolding loads_def
  proof (intro allI)
    fix base and dd :: "bytes option" and s
    obtain n ls t where ls: "list_all2 (has_exposed E K cache dir (pi_rpath p)) ds ls" "\<forall>fuel \<ge> n.
       user_dylibs_loop K (\<lambda>c b path. macho_loader E K fuel cache c b dir (Some path)) dir (pi_rpath p) ds [] s = (Ok ls, t)"
      using libraries_loaded [OF libs, of "[]" s] by auto
    obtain vm s1 s2 s3 where own: "macho_segments_map_to_vm (overflow_checks E) K (dd = None) base gs t = (Ok (vm, sz), s1)"
      "image_fixups_apply E vm p ls cache (dd = None) s1 = (Ok (), s2)" "image_finalize K vm p (dd = None) s2 = (Ok (), s3)"
      by (rule own_part_granted [OF assms loadableI(5-7) ls(1) loadableI(4)])
    have "macho_loader E K fuel cache img base dir dd s = (Ok (case dd of Some _ \<Rightarrow> (vm, sz)
        | None \<Rightarrow> (vm, vm + pi_entry_point p + PAGE_ZERO_SIZE)), s3)" if "Suc n \<le> fuel" for fuel
    proof -
      obtain f where f: "fuel = Suc f" "n \<le> f" using \<open>Suc n \<le> fuel\<close> by (cases fuel) auto
      show ?thesis
        using ls(2) f(2) own
        unfolding f(1) macho_loader.simps Let_def loadableI(1,2,3,5) io_simps user_dylibs_load_recursively_def
        by (simp add: io_bind_def io_ok_def)
    qed
    then show "\<exists>n x t. \<forall>fuel \<ge> n. macho_loader E K fuel cache img base dir dd s = (Ok x, t)" by blast
  qed
qed

section \<open>The stages of a load\<close>

lemma user_dylibs_loop_stands_for:
  "user_dylibs_loop K load exec_dir rp ds loaded s = (Ok libs, s') \<Longrightarrow> \<exists>ls. libs = loaded @ ls \<and> list_all2 stands_for ds ls"
proof (induction ds arbitrary: loaded s)
  case Nil
  then show ?case by simp
next
  case (Cons d ds)
  obtain name cached where d: "d = (name, cached)" by fastforce
  obtain l t where l: "stands_for d l" "user_dylibs_loop K load exec_dir rp ds (loaded @ [l]) t = (Ok libs, s')"
  proof (cases cached)
    case True
    with Cons.prems d that show thesis by simp
  next
    case False
    with Cons.prems d obtain c vm t where "user_dylibs_loop K load exec_dir rp ds (loaded @ [User c vm]) t = (Ok libs, s')"
      by (auto simp: res_simps split: prod.split_asm)
    from that [OF _ this] False d show thesis by simp
  qed
  from Cons.IH [OF l(2)] obtain ls where "libs = (loaded @ [l]) @ ls" "list_all2 stands_for ds ls" by blast
  with l(1) show ?case by (intro exI [of _ "l # ls"]) simp
qed

text \<open>The stages of a successful load.\<close>

lemma macho_loader_stages:
  assumes "macho_loader E K fuel cache img base dir dylib_dir s = (Ok (vm, x), s')"
    and "macho_parser E img = Ok p" "fv_deref (pi_segments p) = Ok gs"
  obtains deps ds libs s0 sz s1 s2 where "dependencies_collect (overflow_checks E) p cache = Ok deps" "fv_deref deps = Ok ds"
    "user_dylibs_load_recursively K (\<lambda>c b path. macho_loader E K (fuel - 1) cache c b dir (Some path)) deps dir (pi_rpath p) s = (Ok libs, s0)"
    "list_all2 stands_for ds libs"
    "macho_segments_map_to_vm (overflow_checks E) K (dylib_dir = None) base gs s0 = (Ok (vm, sz), s1)"
    "image_fixups_apply E vm p libs cache (dylib_dir = None) s1 = (Ok (), s2)"
    "image_finalize K vm p (dylib_dir = None) s2 = (Ok (), s')"
    "x = (case dylib_dir of Some _ \<Rightarrow> sz | None \<Rightarrow> vm + pi_entry_point p + PAGE_ZERO_SIZE)"
proof -
  obtain n where n: "fuel = Suc n" using assms(1) by (cases fuel) simp_all
  from assms(1) obtain deps libs s0 vm' sz s1 s2 where run: "dependencies_collect (overflow_checks E) p cache = Ok deps"
    "user_dylibs_load_recursively K (\<lambda>c b path. macho_loader E K n cache c b dir (Some path)) deps dir (pi_rpath p) s = (Ok libs, s0)"
    "macho_segments_map_to_vm (overflow_checks E) K (dylib_dir = None) base gs s0 = (Ok (vm', sz), s1)"
    "image_fixups_apply E vm' p libs cache (dylib_dir = None) s1 = (Ok (), s2)"
    "image_finalize K vm' p (dylib_dir = None) s2 = (Ok (), s')" "vm = vm'"
    "x = (case dylib_dir of Some _ \<Rightarrow> sz | None \<Rightarrow> vm + pi_entry_point p + PAGE_ZERO_SIZE)"
    unfolding n macho_loader.simps Let_def assms(2,3) io_simps(2)
    by (cases dylib_dir; auto simp: res_simps io_lift_def split: prod.split_asm)
  from run(2) obtain ds where ds: "fv_deref deps = Ok ds"
    "user_dylibs_loop K (\<lambda>c b path. macho_loader E K n cache c b dir (Some path)) dir (pi_rpath p) ds [] s = (Ok libs, s0)"
    unfolding user_dylibs_load_recursively_def by (auto simp: res_simps io_lift_def)
  from user_dylibs_loop_stands_for [OF ds(2)] have "list_all2 stands_for ds libs" by simp
  with that [OF run(1) ds(1) _ _ _ _] run(2-7) n show thesis by simp
qed

text \<open>No library that needs itself is loadable, directly or through others.\<close>

inductive_cases loadableE: "loadable E K cache dir img"

end
