(* ===== verification/Sample_System.thy ===== *)
theory Sample_System
  imports Entrypoint
begin

text \<open>
  A shared cache to resolve symbols in: libSystem, which exports nothing of its own and re-exports a library
  that is missing and one that has the symbol \<open>_x\<close>.
\<close>

text \<open>libSystem at 0 with its two commands, the library at 96 with \<open>__LINKEDIT\<close> and the exports trie at 216, and
  at 232 the mapping table of the cache.\<close>

definition system_bytes :: bytes where
  "system_bytes =
    [0xCF,0xFA,0xED,0xFE, 0x0C,0,0,1, 0,0,0,0, 6,0,0,0, 2,0,0,0, 64,0,0,0, 0,0,0,0, 0,0,0,0,
     0x1F,0,0,0x80, 32,0,0,0, 24,0,0,0, 0,0,0,0, 0,0,0,0, 0,0,0,0, 0x2F,0x79,0,0, 0,0,0,0,
     0x1F,0,0,0x80, 32,0,0,0, 24,0,0,0, 0,0,0,0, 0,0,0,0, 0,0,0,0, 0x2F,0x78,0,0, 0,0,0,0,
     0xCF,0xFA,0xED,0xFE, 0x0C,0,0,1, 0,0,0,0, 6,0,0,0, 2,0,0,0, 88,0,0,0, 0,0,0,0, 0,0,0,0,
     0x19,0,0,0, 72,0,0,0, 0x5F,0x5F,0x4C,0x49,0x4E,0x4B,0x45,0x44,0x49,0x54,0,0,0,0,0,0,
     0xD8,0x10,0,0,0,0,0,0, 16,0,0,0,0,0,0,0, 216,0,0,0,0,0,0,0, 16,0,0,0,0,0,0,0, 1,0,0,0, 1,0,0,0, 0,0,0,0, 0,0,0,0,
     0x33,0,0,0x80, 16,0,0,0, 216,0,0,0, 10,0,0,0,
     0,1,0x5F,0x78,0,6,2,0,0x40,0, 0,0,0,0,0,0,
     0,0x10,0,0,0,0,0,0, 0,0x10,0,0,0,0,0,0, 0,0,0,0,0,0,0,0, 1,0,0,0, 1,0,0,0]"

definition system_container :: container where
  "system_container = with_bytes system_bytes Little"

definition system_cache :: shared_cache where
  "system_cache =
     \<lparr>dsc_sub_caches = [\<lparr>sc_container = system_container, sc_unslid_base_vm_address = 0x1000,
        sc_mapping_table_offset = 232, sc_mapping_table_entry_count = 1\<rparr>],
      dsc_libraries = [\<lparr>sl_sub_cache_index = 0, sl_mach_header_runtime_offset = 0, sl_install_path = LIBSYSTEM_PATH,
          sl_unslid_load_address = 0x1000\<rparr>,
        \<lparr>sl_sub_cache_index = 0, sl_mach_header_runtime_offset = 96, sl_install_path = [0x2F, 0x78],
          sl_unslid_load_address = 0x1060\<rparr>],
      dsc_cache_slide = 0x4000\<rparr>"

lemma system_reads:
  "deserialize_type_at_offset (pread_mach_header_64 (scroll_ref True)) system_container 0 =
     Some \<lparr>mh_magic = MH_MAGIC_64, mh_cputype = 0x100000C, mh_cpusubtype = 0, mh_filetype = MH_DYLIB,
       mh_ncmds = 2, mh_sizeofcmds = 64, mh_flags = 0, mh_reserved = 0\<rparr>"
  "deserialize_type_at_offset (pread_mach_header_64 (scroll_ref True)) system_container 96 =
     Some \<lparr>mh_magic = MH_MAGIC_64, mh_cputype = 0x100000C, mh_cpusubtype = 0, mh_filetype = MH_DYLIB,
       mh_ncmds = 2, mh_sizeofcmds = 88, mh_flags = 0, mh_reserved = 0\<rparr>"
  "deserialize_type_at_offset (pread_load_command (scroll_ref True)) system_container 32 =
     Some \<lparr>lc_cmd = LC_REEXPORT_DYLIB, lc_cmdsize = 32\<rparr>"
  "deserialize_type_at_offset (pread_load_command (scroll_ref True)) system_container 64 =
     Some \<lparr>lc_cmd = LC_REEXPORT_DYLIB, lc_cmdsize = 32\<rparr>"
  "deserialize_type_at_offset (pread_load_command (scroll_ref True)) system_container 128 =
     Some \<lparr>lc_cmd = LC_SEGMENT_64, lc_cmdsize = 72\<rparr>"
  "deserialize_type_at_offset (pread_load_command (scroll_ref True)) system_container 200 =
     Some \<lparr>lc_cmd = LC_DYLD_EXPORTS_TRIE, lc_cmdsize = 16\<rparr>"
  "deserialize_type_at_offset (pread_dyld_cache_mapping_info (scroll_ref True)) system_container 232 =
     Some \<lparr>mi_address = 0x1000, mi_size = 0x1000, mi_file_offset = 0, mi_max_prot = 1, mi_init_prot = 1\<rparr>"
  "\<exists>ld. deserialize_type_at_offset (pread_linkedit_data_command (scroll_ref True)) system_container 200 = Some ld \<and>
     ld_dataoff ld = 216 \<and> ld_datasize ld = 10"
  "\<exists>g. deserialize_type_at_offset (pread_segment_command_64 (scroll_ref True)) system_container 128 = Some g \<and>
     sg_vmaddr g = 0x10D8 \<and> sg_fileoff g = 216 \<and> slice_range (sg_segname g) 0 10 = Ok (lit ''__LINKEDIT'')"
  by (simp_all add: system_container_def deserialize_type_at_offset_def with_bytes_def system_bytes_def scroll_ref_def
      p_mach_header_64_def p_load_command_def p_linkedit_data_command_def p_segment_command_64_def p_dyld_cache_mapping_info_def
      parser_simps const_defs slice_range_def lit_def)

lemma system_names:
  "dylib_install_name_read (scroll_ref True) (macho_image_new system_container 0) 32 = Ok [0x2F, 0x79]"
  "dylib_install_name_read (scroll_ref True) (macho_image_new system_container 0) 64 = Ok [0x2F, 0x78]"
  by (simp_all add: dylib_install_name_read_def deserialize_type_at_offset_def deserialize_cstr_at_offset_def macho_image_new_def with_bytes_def
      system_container_def system_bytes_def scroll_ref_def p_dylib_command_header_def parser_simps cstr_from_bytes_with_nul_def cstr_to_bytes_def)

lemma overflow_on: "overflow_checks (scroll_ref True)"
  by (simp add: scroll_ref_def)

lemma system_images:
  "exports_trie_span_find (scroll_ref True) (macho_image_new system_container 0) = Ok None"
  "reexported_dylib_paths_collect (scroll_ref True) (macho_image_new system_container 0) = Ok [[0x2F, 0x79], [0x2F, 0x78]]"
  "exports_trie_span_find (scroll_ref True) (macho_image_new system_container 96) =
     Ok (Some \<lparr>ts_file_offset = 216, ts_size_in_bytes = 10\<rparr>)"
  "linkedit_segment_find (scroll_ref True) (macho_image_new system_container 96) =
     Ok (Some \<lparr>le_vmaddr = 0x10D8, le_fileoff = 216\<rparr>)"
proof -
  let ?E = "scroll_ref True"
  obtain ld where ld: "deserialize_type_at_offset (pread_linkedit_data_command ?E) system_container 200 = Some ld"
     "ld_dataoff ld = 216" "ld_datasize ld = 10" using system_reads(8) by blast
  obtain g where g: "deserialize_type_at_offset (pread_segment_command_64 ?E) system_container 128 = Some g"
     "sg_vmaddr g = 0x10D8" "sg_fileoff g = 216" "slice_range (sg_segname g) 0 10 = Ok (lit ''__LINKEDIT'')" using system_reads(9) by blast
  have walk: "load_commands_find ?E (macho_image_new system_container 0) v s =
      find_loop ?E system_container v (Suc (Suc 0)) 32 s"
    "load_commands_find ?E (macho_image_new system_container 96) v s =
      find_loop ?E system_container v (Suc (Suc 0)) 128 s" for v :: "('a, 's) lc_visitor" and s
    by (simp_all add: load_commands_find_def mach_header_read_def macho_image_new_def system_reads(1,2) wadd_def
        size_of_def mach_header_64_layout_def round_up_def flip: numeral_2_eq_2)
  have cont: "im_container (macho_image_new c off) = c" for c off by (simp add: macho_image_new_def)
  note steps = find_loop.simps system_reads(3-6) ok_or_simps rbind.simps wadd_def
  show "exports_trie_span_find ?E (macho_image_new system_container 0) = Ok None"
    by (simp add: exports_trie_span_find_def exports_trie_span_visit_def walk steps)
  show "reexported_dylib_paths_collect ?E (macho_image_new system_container 0) = Ok [[0x2F, 0x79], [0x2F, 0x78]]"
    by (simp add: reexported_dylib_paths_collect_def reexported_visit_def walk steps system_names)
  show "exports_trie_span_find ?E (macho_image_new system_container 96) = Ok (Some \<lparr>ts_file_offset = 216, ts_size_in_bytes = 10\<rparr>)"
    by (simp add: exports_trie_span_find_def exports_trie_span_visit_def walk steps ld cont)
  show "linkedit_segment_find ?E (macho_image_new system_container 96) = Ok (Some \<lparr>le_vmaddr = 0x10D8, le_fileoff = 216\<rparr>)"
    by (simp add: linkedit_segment_find_def linkedit_visit_def walk steps g cont)
qed

text \<open>The exports trie of the library: \<open>_x\<close> at 64.\<close>

lemma system_trie:
  "exports_trie_walk_for_symbol True [0, 1, 0x5F, 0x78, 0, 6, 2, 0, 0x40, 0] [0x5F, 0x78] = Ok (Some (DefinedHere 0x40))"
proof -
  let ?t = "[0, 1, 0x5F, 0x78, 0, 6, 2, 0, 0x40, 0] :: bytes"
  have "walk_loop True ?t (Suc (Suc n)) 0 [0x5F, 0x78] = Ok (Some (DefinedHere 0x40))" for n
    by (simp add: trie_open_def read_uleb128_def slice_from_def slice_range_def index_at_def wadd_def has_terminal_payload_def
        child_edge_matching_prefix_find_def terminal_payload_read_def EXPORT_SYMBOL_FLAGS_REEXPORT_def)
  moreover have "length ?t = Suc (Suc 8)" by simp
  ultimately show ?thesis by (simp only: exports_trie_walk_for_symbol_def)
qed

lemma system_located:
  "0x1000 \<le> v \<Longrightarrow> v < 0x2000 \<Longrightarrow>
     subcache_and_offset_locate_from_addr (scroll_ref True) system_cache v = Ok (Some (0, v - 0x1000))"
  by (simp add: subcache_and_offset_locate_from_addr_def system_cache_def runtime_offset_for_vm_address_def mappings_find_def
      mapping_at_def system_reads(7) wadd_def wmul_def wsub_def overflow_on word_le_nat_alt word_less_nat_alt)

lemma system_tries:
  "library_find_by_install_path system_cache LIBSYSTEM_PATH = Some lib \<Longrightarrow>
     try_resolve_via_exports_trie (scroll_ref True) system_cache lib [0x5F, 0x78] = Ok None \<and>
     rbind (image_view_for_library system_cache lib) (reexported_dylib_paths_collect (scroll_ref True)) = Ok [[0x2F, 0x79], [0x2F, 0x78]]"
  "library_find_by_install_path system_cache [0x2F, 0x78] = Some lib \<Longrightarrow>
     try_resolve_via_exports_trie (scroll_ref True) system_cache lib [0x5F, 0x78] = Ok (Some (Address 0x50A0))"
  "library_find_by_install_path system_cache [0x2F, 0x79] = None"
proof -
  have ne: "LIBSYSTEM_PATH \<noteq> [0x2F, 0x78]" "LIBSYSTEM_PATH \<noteq> [0x2F, 0x79]" by (simp_all add: LIBSYSTEM_PATH_def lit_def)
  have view: "image_view_for_library system_cache lib = Ok (macho_image_new system_container (sl_mach_header_runtime_offset lib))"
    if "sl_sub_cache_index lib = 0" for lib
    using that by (simp add: image_view_for_library_def system_cache_def index_at_def)
  show "try_resolve_via_exports_trie (scroll_ref True) system_cache lib [0x5F, 0x78] = Ok None \<and>
     rbind (image_view_for_library system_cache lib) (reexported_dylib_paths_collect (scroll_ref True)) = Ok [[0x2F, 0x79], [0x2F, 0x78]]"
    if "library_find_by_install_path system_cache LIBSYSTEM_PATH = Some lib"
  proof -
    have "sl_sub_cache_index lib = 0" "sl_mach_header_runtime_offset lib = 0"
      using that by (auto simp: library_find_by_install_path_def system_cache_def)
    then show ?thesis by (simp add: try_resolve_via_exports_trie_def view system_images)
  qed
  show "try_resolve_via_exports_trie (scroll_ref True) system_cache lib [0x5F, 0x78] = Ok (Some (Address 0x50A0))"
    if "library_find_by_install_path system_cache [0x2F, 0x78] = Some lib"
  proof -
    have lib: "sl_sub_cache_index lib = 0" "sl_mach_header_runtime_offset lib = 96" "sl_unslid_load_address lib = 0x1060"
      using that ne by (auto simp: library_find_by_install_path_def system_cache_def)
    have "slice system_container 216 10 = Some [0, 1, 0x5F, 0x78, 0, 6, 2, 0, 0x40, 0]"
      by (simp add: slice_def checked_add_def get_range_def with_bytes_def system_container_def system_bytes_def)
    moreover have "index_at (dsc_sub_caches system_cache) 0 = Ok \<lparr>sc_container = system_container, sc_unslid_base_vm_address = 0x1000,
        sc_mapping_table_offset = 232, sc_mapping_table_entry_count = 1\<rparr>" by (simp add: system_cache_def index_at_def)
    ultimately show ?thesis
      by (simp add: try_resolve_via_exports_trie_def view lib system_images system_located system_trie overflow_on wadd_def wsub_def
          terminal_resolution_def unslid_address_to_runtime_pointer_translate_def) (simp add: system_cache_def)
  qed
  show "library_find_by_install_path system_cache [0x2F, 0x79] = None"
    using ne by (simp add: library_find_by_install_path_def system_cache_def)
qed

lemma system_resolves:
  "symbol_resolve (scroll_ref True) system_cache LIBSYSTEM_PATH [0x5F, 0x78] = Ok (Some 0x50A0)"
proof -
  have ne: "LIBSYSTEM_PATH \<noteq> [0x2F, 0x78]" by (simp add: LIBSYSTEM_PATH_def lit_def)
  obtain lib where lib: "library_find_by_install_path system_cache LIBSYSTEM_PATH = Some lib"
    by (simp add: library_find_by_install_path_def system_cache_def)
  obtain lib' where lib': "library_find_by_install_path system_cache [0x2F, 0x78] = Some lib'"
    using ne by (simp add: library_find_by_install_path_def system_cache_def)
  note tries = system_tries(1) [OF lib] system_tries(2) [OF lib'] system_tries(3)
  show ?thesis
    by (simp add: symbol_resolve_def MAX_REEXPORT_RESOLUTION_DEPTH_def numeral_eq_Suc lib lib' tries umbrella_eq)
qed

theorem symbol_resolve_exact_witness:
  "resolves (scroll_ref True) system_cache 16 LIBSYSTEM_PATH [0x5F, 0x78] 0x50A0 \<and>
   (\<nexists>x. search_fails (scroll_ref True) system_cache 16 LIBSYSTEM_PATH [0x5F, 0x78] x)"
  using symbol_resolve_exact [of "scroll_ref True" system_cache LIBSYSTEM_PATH "[0x5F, 0x78]"] by (simp add: system_resolves)

text \<open>A bind of \<open>_x\<close>, at 8.\<close>

definition x_name :: fixed_string where
  "x_name = \<lparr>fs_vec = \<lparr>fv_len = 2, fv_array = [Some 0x5F, Some 0x78]\<rparr>\<rparr>"

theorem self_binds_from_libsystem_witness:
  "\<exists>m'. tls_functions_self_bind_hack (scroll_ref True) 0x1000 [fixup_bind 8 x_name 3 0 False] system_cache (\<lambda>_. 7) = Ok m' \<and>
     peek_u64 m' 0x1008 = 0x50A0 \<and> m' 0x1010 = 7"
proof -
  let ?E = "scroll_ref True" and ?fs = "[fixup_bind 8 x_name 3 0 False]"
  let ?run = "tls_functions_self_bind_hack ?E 0x1000 ?fs system_cache (\<lambda>_. 7)"
  have name: "fs_as_str x_name = Ok [0x5F, 0x78]" by (simp add: fs_as_str_def x_name_def fv_deref_def cell_slice_def)
  have kind: "fx_kind (fixup_bind 8 x_name 3 0 False) = Bind x_name 3 False 0" "fx_offset (fixup_bind 8 x_name 3 0 False) = 8"
    by (simp_all add: fixup_bind_def)
  have "libsystem_symbol ?E system_cache x_name = Ok 0x50A0" by (simp add: libsystem_symbol_def name system_resolves)
  then have bound: "\<not> first_unbound ?E system_cache ?fs x" for x
    by (auto simp: first_unbound_def Cons_eq_append_conv kind)
  have "\<forall>f \<in> set ?fs. \<exists>name k a d. fx_kind f = Bind name k a d" by (simp add: kind ex_bool_eq)
  moreover have "sorted_wrt (\<lambda>f g. separate (0x1000 + fx_offset f) (0x1000 + fx_offset g)) ?fs" by simp
  ultimately have "\<exists>m'. ?run = Ok m' \<and> peek_u64 m' 0x1008 = 0x50A0 \<and> (\<forall>x. 8 \<le> unat (x - 0x1008) \<longrightarrow> m' x = 7)"
    using self_binds_from_libsystem [of ?fs "0x1000" ?E system_cache "\<lambda>_. 7"] bound name system_resolves
    by (cases ?run) (simp_all add: kind)
  then show ?thesis by fastforce
qed

end
