(* ===== verification/Sample_Cache.thy ===== *)
theory Sample_Cache
  imports Loadable
begin

text \<open>
  Slices of memory, and a shared cache to compute with: one mapping and no libraries.
\<close>

section \<open>Slices of memory\<close>

lemma raw_slice_drop:
  assumes "k \<le> unat n"
  shows "drop k (raw_slice m a n) = raw_slice m (a + of_nat k) (n - of_nat k)"
proof -
  have k: "unat (of_nat k :: usize) = k" using assms unsigned_less [of n, where ?'a = nat] by (simp add: unat_of_nat take_bit_eq_mod)
  then have "unat (n - of_nat k) = unat n - k" using assms by (subst unat_sub_fits) simp_all
  then show ?thesis by (intro nth_equalityI) (auto simp: raw_slice_def add.assoc less_diff_conv2)
qed

lemma raw_slice_take:
  assumes "k \<le> unat n"
  shows "take k (raw_slice m a n) = raw_slice m a (of_nat k)"
proof -
  have k: "unat (of_nat k :: usize) = k" using assms unsigned_less [of n, where ?'a = nat] by (simp add: unat_of_nat take_bit_eq_mod)
  then show ?thesis using assms by (intro nth_equalityI) (simp_all add: raw_slice_def)
qed

lemma raw_slice_length: "length (raw_slice m a n) = unat n"
  by (simp add: raw_slice_def)

lemma raw_slice_nums:
  "raw_slice m a 1 = [m a]" "raw_slice m a 2 = [m a, m (a + 1)]"
  "raw_slice m a 4 = [m a, m (a + 1), m (a + 2), m (a + 3)]"
  "raw_slice m a 8 = [m a, m (a + 1), m (a + 2), m (a + 3), m (a + 4), m (a + 5), m (a + 6), m (a + 7)]"
  by (simp_all add: raw_slice_def upt_rec)

lemma raw_slice_part:
  assumes "i + j \<le> unat n"
  shows "raw_slice m (a + of_nat i) (of_nat j) = take j (drop i (raw_slice m a n))"
proof -
  have "i \<le> unat n" "unat (of_nat i :: usize) = i"
    using assms unsigned_less [of n, where ?'a = nat] by (simp_all add: unat_of_nat take_bit_eq_mod)
  then have "unat (n - of_nat i) = unat n - i" by (subst unat_sub_fits) simp_all
  then show ?thesis using assms \<open>i \<le> unat n\<close> by (subst raw_slice_drop, simp, subst raw_slice_take) simp_all
qed

text \<open>\<open>m\<close> with the bytes \<open>bs\<close> at \<open>a\<close>.\<close>

definition place :: "usize \<Rightarrow> bytes \<Rightarrow> mem \<Rightarrow> mem" where
  "place a bs m x = (if unat (x - a) < length bs then bs ! unat (x - a) else m x)"

lemma raw_slice_place:
  assumes "length bs < 2 ^ 64"
  shows "raw_slice (place a bs m) a (of_nat (length bs)) = bs"
proof (rule nth_equalityI)
  show len: "length (raw_slice (place a bs m) a (of_nat (length bs))) = length bs"
    using assms by (simp add: raw_slice_length unat_of_nat take_bit_eq_mod)
  show "raw_slice (place a bs m) a (of_nat (length bs)) ! i = bs ! i"
    if "i < length (raw_slice (place a bs m) a (of_nat (length bs)))" for i
    using that len assms by (simp add: raw_slice_def place_def unat_of_nat take_bit_eq_mod)
qed

lemma raw_slice_place_apart:
  assumes "length bs \<le> unat (b - a)" "unat (b - a) + unat n \<le> 2 ^ 64"
  shows "raw_slice (place a bs m) b n = raw_slice m b n"
proof -
  have "\<not> unat (b + of_nat i - a) < length bs" if "i < unat n" for i
  proof -
    have i: "unat (of_nat i :: usize) = i" using that unsigned_less [of n, where ?'a = nat] by (simp add: unat_of_nat take_bit_eq_mod)
    have "b + of_nat i - a = (b - a) + of_nat i" by (simp only: add_diff_eq diff_add_eq)
    moreover have "unat ((b - a) + of_nat i) = unat (b - a) + i"
      using that assms(2) i by (subst unat_add_fits) simp_all
    ultimately have "unat (b + of_nat i - a) = unat (b - a) + i" by (simp only:)
    then show ?thesis using assms(1) by simp
  qed
  then show ?thesis by (simp add: raw_slice_def place_def)
qed

section \<open>The shared cache\<close>

text \<open>One mapping of 552 bytes, which are its header; no libraries.\<close>

definition sample_cache_mem :: mem where
  "sample_cache_mem x = (if x = 0x180000008 then 0x28 else if x = 0x180000009 then 2 else if x = 0x180000014 then 1 else 0)"

lemma sample_cache_header:
  assumes "n \<in> {552, 1576, 2600 :: usize}"
  shows "\<exists>h. dsc_header_read (scroll_ref True) (with_bytes (raw_slice sample_cache_mem 0x180000000 n) Little) = Ok h \<and>
     ch_mapping_offset h = 0 \<and> ch_mapping_count h = 1 \<and> ch_sub_cache_array_count h = 0 \<and> ch_images_count h = 0"
  using assms
  by (elim insertE emptyE; simp add: dsc_header_read_def deserialize_type_at_offset_def with_bytes_def scroll_ref_def p_dyld_cache_header_def
     p_int_def p_bytes_def bytes_nat_def pread_with_def raw_slice_length raw_slice_take raw_slice_drop raw_slice_nums sample_cache_mem_def)

lemma sample_cache_mapping:
  assumes "n \<in> {552, 1576, 2600 :: usize}"
  shows "deserialize_type_at_offset (pread_dyld_cache_mapping_info (scroll_ref True))
     (with_bytes (raw_slice sample_cache_mem 0x180000000 n) Little) 0 =
     Some \<lparr>mi_address = 0, mi_size = 552, mi_file_offset = 0x100000000, mi_max_prot = 0, mi_init_prot = 0\<rparr>"
  using assms
  by (elim insertE emptyE; simp add: deserialize_type_at_offset_def with_bytes_def scroll_ref_def p_dyld_cache_mapping_info_def
     p_int_def p_bytes_def bytes_nat_def pread_with_def raw_slice_length raw_slice_take raw_slice_drop raw_slice_nums sample_cache_mem_def)

lemma sample_cache_attached:
  assumes "\<And>n. n \<in> {552, 1576, 2600 :: usize} \<Longrightarrow> raw_slice m 0x180000000 n = raw_slice sample_cache_mem 0x180000000 n"
  obtains cache where "from_existing (scroll_ref True) m 0x180000000 slide dsc_new = Ok cache" "dsc_libraries cache = []"
proof -
  obtain h1 h2 h3 where h: "dsc_header_read (scroll_ref True) (with_bytes (raw_slice sample_cache_mem 0x180000000 552) Little) = Ok h1"
    "ch_mapping_offset h1 = 0" "ch_mapping_count h1 = 1" "ch_sub_cache_array_count h1 = 0" "ch_images_count h1 = 0"
    "dsc_header_read (scroll_ref True) (with_bytes (raw_slice sample_cache_mem 0x180000000 1576) Little) = Ok h2" "ch_mapping_offset h2 = 0"
    "dsc_header_read (scroll_ref True) (with_bytes (raw_slice sample_cache_mem 0x180000000 2600) Little) = Ok h3"
    "ch_mapping_offset h3 = 0" "ch_mapping_count h3 = 1"
    using sample_cache_header [of 552] sample_cache_header [of 1576] sample_cache_header [of 2600] by blast
  have sizes: "size_of dyld_cache_header_layout = 552" "size_of dyld_cache_mapping_info_layout = 32"
    by (simp_all add: size_of_def dyld_cache_header_layout_def dyld_cache_mapping_info_layout_def round_up_def)
  have base: "read_main_cache_unslid_base_from (scroll_ref True) m 0x180000000 = Ok 0"
    by (simp add: read_main_cache_unslid_base_from_def sizes h sample_cache_mapping assms)
  have len: "read_main_cache_total_mapped_length_from (scroll_ref True) m 0x180000000 = Ok 552"
    by (simp add: read_main_cache_total_mapped_length_from_def sizes h sample_cache_mapping wmul_def wadd_def wsub_def assms)
  have "\<exists>cache. from_existing (scroll_ref True) m 0x180000000 slide dsc_new = Ok cache \<and> dsc_libraries cache = []"
    by (simp add: from_existing_def dyld_shared_cache_attach_all_def base len from_runtime_mapping_def h index_at_def Let_def
        main_cache_libraries_index_all_def dsc_new_def assms)
  with that show thesis by blast
qed

end
