(* ===== verification/Sample_Images.thy ===== *)
theory Sample_Images
  imports Loadable
begin

text \<open>
  Two images to compute with: an executable that binds a pointer to a symbol of the library it needs, and that
  library, which has a pointer to rebase and exports the symbol.
\<close>

section \<open>The library\<close>

text \<open>One segment with the whole file, one pointer in it, at 200, that is to be rebased to 16, and the export
  \<open>_x\<close> at 64. The pointer is a parameter, as a load replaces it.\<close>

definition sample_lib_with :: "bytes \<Rightarrow> bytes" where
  "sample_lib_with q =
    [0xCF, 0xFA, 0xED, 0xFE, 0xC, 0, 0, 1, 0, 0, 0, 0, 6, 0, 0, 0, 3, 0, 0, 0, 0x68, 0, 0, 0, 0, 0, 0, 0, 0,
     0, 0, 0, 0x19, 0, 0, 0, 0x48, 0, 0, 0, 0x5F, 0x5F, 0x44, 0x41, 0x54, 0x41, 0, 0, 0, 0, 0, 0, 0, 0, 0, 0,
     0, 0, 0, 0, 0, 0, 0, 0, 0xE0, 0, 0, 0, 0, 0, 0, 0, 0, 0, 0, 0, 0, 0, 0, 0, 0xE0, 0, 0, 0, 0, 0, 0, 0, 3,
     0, 0, 0, 3, 0, 0, 0, 0, 0, 0, 0, 0, 0, 0, 0, 0x34, 0, 0, 0x80, 0x10, 0, 0, 0, 0x88, 0, 0, 0, 0x3C, 0, 0,
     0, 0x33, 0, 0, 0x80, 0x10, 0, 0, 0, 0xD0, 0, 0, 0, 0xA, 0, 0, 0, 0, 0, 0, 0, 0x1C, 0, 0, 0, 0, 0, 0, 0,
     0, 0, 0, 0, 0, 0, 0, 0, 1, 0, 0, 0, 0, 0, 0, 0, 1, 0, 0, 0, 8, 0, 0, 0, 0x18, 0, 0, 0, 0, 0x10, 6, 0, 0,
     0, 0, 0, 0, 0, 0, 0, 0, 0, 0, 0, 1, 0, 0xC8, 0, 0, 0, 0, 0] @ q @
    [0, 1, 0x5F, 0x78, 0, 6, 2, 0, 0x40, 0, 0, 0, 0, 0, 0, 0]"

definition sample_lib_bytes :: bytes where
  "sample_lib_bytes = sample_lib_with [0x10, 0, 0, 0, 0, 0, 0, 0]"

definition sample_lib :: container where
  "sample_lib = with_bytes sample_lib_bytes Little"

text \<open>The pointer plays no part in the load commands and in the exports.\<close>

lemma sample_lib_reads:
  fixes a b c d e f g h :: u8
  defines "im \<equiv> with_bytes (sample_lib_with [a, b, c, d, e, f, g, h]) Little"
  shows "deserialize_type_at_offset (pread_mach_header_64 (scroll_ref True)) im 0 =
     Some \<lparr>mh_magic = MH_MAGIC_64, mh_cputype = 0x100000C, mh_cpusubtype = 0, mh_filetype = MH_DYLIB,
       mh_ncmds = 3, mh_sizeofcmds = 104, mh_flags = 0, mh_reserved = 0\<rparr>"
  "deserialize_type_at_offset (pread_load_command (scroll_ref True)) im 32 =
     Some \<lparr>lc_cmd = LC_SEGMENT_64, lc_cmdsize = 72\<rparr>"
  "deserialize_type_at_offset (pread_load_command (scroll_ref True)) im 104 =
     Some \<lparr>lc_cmd = LC_DYLD_CHAINED_FIXUPS, lc_cmdsize = 16\<rparr>"
  "deserialize_type_at_offset (pread_load_command (scroll_ref True)) im 120 =
     Some \<lparr>lc_cmd = LC_DYLD_EXPORTS_TRIE, lc_cmdsize = 16\<rparr>"
  "\<exists>ld. deserialize_type_at_offset (pread_linkedit_data_command (scroll_ref True)) im 120 = Some ld \<and>
     ld_dataoff ld = 208 \<and> ld_datasize ld = 10"
  by (simp_all add: im_def deserialize_type_at_offset_def with_bytes_def sample_lib_with_def scroll_ref_def
      p_mach_header_64_def p_load_command_def p_linkedit_data_command_def parser_simps)

lemma sample_lib_exports_trie:
  "exports_trie_walk_for_symbol True [0, 1, 0x5F, 0x78, 0, 6, 2, 0, 0x40, 0] [0x5F, 0x78] = Ok (Some (DefinedHere 0x40))"
proof -
  let ?t = "[0, 1, 0x5F, 0x78, 0, 6, 2, 0, 0x40, 0] :: bytes"
  have "walk_loop True ?t (Suc (Suc n)) 0 [0x5F, 0x78] = Ok (Some (DefinedHere 0x40))" for n
    by (simp add: trie_open_def read_uleb128_def slice_from_def slice_range_def index_at_def wadd_def has_terminal_payload_def
        child_edge_matching_prefix_find_def terminal_payload_read_def EXPORT_SYMBOL_FLAGS_REEXPORT_def)
  moreover have "length ?t = Suc (Suc 8)" by simp
  ultimately show ?thesis by (simp only: exports_trie_walk_for_symbol_def)
qed

lemma sample_lib_symbol:
  "dylib_symbol_resolve (scroll_ref True) (with_bytes (sample_lib_with [a, b, c, d, e, f, g, h]) Little) [0x5F, 0x78] =
     Ok (Some (Defined 0x40))"
proof -
  let ?im = "with_bytes (sample_lib_with [a, b, c, d, e, f, g, h]) Little"
  obtain ld where ld: "deserialize_type_at_offset (pread_linkedit_data_command (scroll_ref True)) ?im 120 = Some ld"
     "ld_dataoff ld = 208" "ld_datasize ld = 10" using sample_lib_reads(5) by blast
  have "slice ?im 208 10 = Some [0, 1, 0x5F, 0x78, 0, 6, 2, 0, 0x40, 0]"
    by (simp add: slice_def checked_add_def get_range_def with_bytes_def sample_lib_with_def)
  moreover have "find_loop (scroll_ref True) ?im (exports_trie_span_visit (scroll_ref True) (macho_image_new ?im 0)) 3 32 () =
     Ok (Some \<lparr>ts_file_offset = 208, ts_size_in_bytes = 10\<rparr>, ())"
    unfolding numeral_3_eq_3
    by (simp add: sample_lib_reads exports_trie_span_visit_def macho_image_new_def ld overflow_ref wadd_def)
  ultimately show ?thesis
    by (simp add: dylib_symbol_resolve_def exports_trie_span_find_def load_commands_find_def mach_header_read_def
        sample_lib_reads Let_def overflow_ref wadd_def sample_lib_exports_trie macho_image_new_def)
qed

lemmas sample_lib_commands = sample_lib_reads [of "0x10" 0 0 0 0 0 0 0, folded sample_lib_bytes_def, folded sample_lib_def]

lemma sample_lib_segment:
  "\<exists>sg. deserialize_type_at_offset (pread_segment_command_64 (scroll_ref True)) sample_lib 32 = Some sg \<and>
    sg_segname sg = [0x5F, 0x5F, 0x44, 0x41, 0x54, 0x41, 0, 0, 0, 0, 0, 0, 0, 0, 0, 0] \<and> sg_vmaddr sg = 0 \<and>
    sg_vmsize sg = 224 \<and> sg_fileoff sg = 0 \<and> sg_initprot sg = 3 \<and> sg_nsects sg = 0"
  by (simp add: deserialize_type_at_offset_def with_bytes_def sample_lib_def sample_lib_bytes_def sample_lib_with_def scroll_ref_def
      p_segment_command_64_def parser_simps)

lemma sample_lib_linkedit:
  "\<exists>ld. deserialize_type_at_offset (pread_linkedit_data_command (scroll_ref True)) sample_lib 104 = Some ld \<and> ld_dataoff ld = 136"
  "\<exists>h. deserialize_type_at_offset (pread_dyld_chained_fixups_header (scroll_ref True)) sample_lib 136 = Some h \<and>
    cf_starts_offset h = 28 \<and> cf_imports_offset h = 0 \<and> cf_symbols_offset h = 0"
  "\<exists>si. deserialize_type_at_offset (pread_dyld_chained_starts_in_image (scroll_ref True)) sample_lib 164 = Some si \<and> si_seg_count si = 1"
  "deserialize_type_at_offset (pread_u32 (scroll_ref True)) sample_lib 168 = Some 8"
  "\<exists>ss. deserialize_type_at_offset (pread_dyld_chained_starts_in_segment (scroll_ref True)) sample_lib 172 = Some ss \<and>
     ss_page_size ss = 0x1000 \<and> ss_pointer_format ss = DYLD_CHAINED_PTR_64_OFFSET \<and> ss_segment_offset ss = 0 \<and> ss_page_count ss = 1"
  "deserialize_type_at_offset (pread_u16 (scroll_ref True)) sample_lib 194 = Some 200"
  "deserialize_type_at_offset (pread_u64 (scroll_ref True)) sample_lib 200 = Some 0x10"
  by (simp_all add: deserialize_type_at_offset_def with_bytes_def sample_lib_def sample_lib_bytes_def sample_lib_with_def scroll_ref_def
      p_linkedit_data_command_def p_dyld_chained_fixups_header_def p_dyld_chained_starts_in_image_def
      p_dyld_chained_starts_in_segment_def p_u16_1_def p_import_format_def p_ptr_format_def
      dyld_chained_import_format_variants_all_def dyld_chained_ptr_format_variants_all_def parser_simps)

lemma sample_lib_fixups: "chained_fixups_parse_all (scroll_ref True) sample_lib = Ok [fixup_rebase 200 0x10]"
proof -
  let ?E = "scroll_ref True"
  obtain ld where ld: "deserialize_type_at_offset (pread_linkedit_data_command ?E) sample_lib 104 = Some ld" "ld_dataoff ld = 136"
    using sample_lib_linkedit(1) by blast
  obtain h where h: "deserialize_type_at_offset (pread_dyld_chained_fixups_header ?E) sample_lib 136 = Some h"
    "cf_starts_offset h = 28" "cf_imports_offset h = 0" "cf_symbols_offset h = 0"
    using sample_lib_linkedit(2) by blast
  obtain si where si: "deserialize_type_at_offset (pread_dyld_chained_starts_in_image ?E) sample_lib 164 = Some si" "si_seg_count si = 1"
    using sample_lib_linkedit(3) by blast
  obtain ss where ss: "deserialize_type_at_offset (pread_dyld_chained_starts_in_segment ?E) sample_lib 172 = Some ss"
     "ss_page_size ss = 0x1000" "ss_pointer_format ss = DYLD_CHAINED_PTR_64_OFFSET" "ss_segment_offset ss = 0" "ss_page_count ss = 1"
    using sample_lib_linkedit(5) by blast
  have header: "chained_fixups_header_and_offset_find ?E sample_lib = Ok (Some (136, h))"
    by (simp add: chained_fixups_header_and_offset_find_def lc_try_with_container_def sample_lib_commands
        header_loop.simps lc_try_next_def overflow_ref wadd_def wsub_def ld h)
  have step: "chain_step ?E sample_lib DYLD_CHAINED_PTR_64_OFFSET it 200 = Ok (fixup_rebase 200 0x10, None)" for it
    by (simp add: chain_step_def sample_lib_linkedit(7) fixup_parse_one_def fixup_64_parse_one_def rebase_field_defs
        wmul_def fixup_rebase_def)
  then have chain: "chain_parse ?E sample_lib DYLD_CHAINED_PTR_64_OFFSET it 200 [] = Ok [fixup_rebase 200 0x10]" for it
    by (simp add: chain_parse_def chain_loop.simps)
  show ?thesis
    by (simp add: chained_fixups_parse_all_def header h si ss overflow_ref wadd_def wmul_def sample_lib_linkedit chain
        size_of_def dyld_chained_starts_in_image_layout_def round_up_def PAGE_STARTS_OFFSET_def)
qed

lemma sample_lib_parse:
  obtains p where "macho_parser (scroll_ref True) sample_lib = Ok p" "pi_fixups p = [fixup_rebase 200 0x10]"
    "fv_list (pi_libraries p) = []"
    "fv_list (pi_segments p) = [\<lparr>sm_file_offset = 0, sm_vm_addr = 0, sm_vm_size = 224, sm_prot = 3\<rparr>]"
    "pi_init_functions p = []"
proof -
  let ?E = "scroll_ref True"
  let ?g = "\<lparr>sm_file_offset = 0, sm_vm_addr = 0, sm_vm_size = 224, sm_prot = 3\<rparr> :: segment"
  obtain segs where segs: "fv_push True ?g (fv_new_array 64) = Ok segs" "fv_list segs = [?g]"
    using fv_push_eq [OF fv_new_array_inv, of 64 True ?g] by auto
  obtain sg where sg: "deserialize_type_at_offset (pread_segment_command_64 ?E) sample_lib 32 = Some sg"
    "sg_segname sg = [0x5F, 0x5F, 0x44, 0x41, 0x54, 0x41, 0, 0, 0, 0, 0, 0, 0, 0, 0, 0]" "sg_vmaddr sg = 0"
    "sg_vmsize sg = 224" "sg_fileoff sg = 0" "sg_initprot sg = 3" "sg_nsects sg = 0"
    using sample_lib_segment by blast
  let ?p = "parsed_image_empty\<lparr>pi_is_dylib := True, pi_segments := segs, pi_fixups := [fixup_rebase 200 0x10]\<rparr>"
  have "pi_segments parsed_image_empty = fv_new_array 64" "pi_init_functions parsed_image_empty = []"
    "\<not> pi_has_thread_locals parsed_image_empty" by (simp_all add: parsed_image_empty_def)
  then have "commands_loop ?E sample_lib 3 32 (parsed_image_empty\<lparr>pi_is_dylib := True\<rparr>) = Ok ?p"
    unfolding numeral_3_eq_3
    by (simp add: sample_lib_commands parse_command_def parse_segment_def sg segs overflow_ref wadd_def sample_lib_fixups)
  then have "macho_parser ?E sample_lib = Ok ?p" by (simp add: macho_parser_def sample_lib_commands)
  moreover have "fv_list (fv_new_array n) = []" for n by (simp add: fv_list_def fv_new_array_def fv_new_def)
  ultimately show thesis using that [of ?p] segs(2) by (simp add: parsed_image_empty_def)
qed

section \<open>The executable\<close>

text \<open>A page zero, one segment with the whole file, the library \<open>/l\<close>, the entry point at 32, and one pointer, at 320, that is
  to be bound to \<open>_x\<close> of the library.\<close>

definition sample_app_bytes :: bytes where
  "sample_app_bytes =
    [0xCF, 0xFA, 0xED, 0xFE, 0xC, 0, 0, 1, 0, 0, 0, 0, 2, 0, 0, 0, 5, 0, 0, 0, 0xD8, 0, 0, 0, 0, 0, 0, 0, 0,
     0, 0, 0, 0x19, 0, 0, 0, 0x48, 0, 0, 0, 0x5F, 0x5F, 0x50, 0x41, 0x47, 0x45, 0x5A, 0x45, 0x52, 0x4F, 0, 0,
     0, 0, 0, 0, 0, 0, 0, 0, 0, 0, 0, 0, 0, 0, 0, 0, 1, 0, 0, 0, 0, 0, 0, 0, 0, 0, 0, 0, 0, 0, 0, 0, 0, 0, 0,
     0, 0, 0, 0, 0, 0, 0, 0, 0, 0, 0, 0, 0, 0, 0, 0, 0, 0x19, 0, 0, 0, 0x48, 0, 0, 0, 0x5F, 0x5F, 0x54, 0x45,
     0x58, 0x54, 0, 0, 0, 0, 0, 0, 0, 0, 0, 0, 0, 0, 0, 0, 1, 0, 0, 0, 0x48, 1, 0, 0, 0, 0, 0, 0, 0, 0, 0, 0,
     0, 0, 0, 0, 0x48, 1, 0, 0, 0, 0, 0, 0, 5, 0, 0, 0, 5, 0, 0, 0, 0, 0, 0, 0, 0, 0, 0, 0, 0xC, 0, 0, 0,
     0x20, 0, 0, 0, 0x18, 0, 0, 0, 0, 0, 0, 0, 0, 0, 0, 0, 0, 0, 0, 0, 0x2F, 0x6C, 0, 0, 0, 0, 0, 0, 0x28, 0,
     0, 0x80, 0x18, 0, 0, 0, 0x20, 0, 0, 0, 0, 0, 0, 0, 0, 0, 0, 0, 0, 0, 0, 0, 0x34, 0, 0, 0x80, 0x10, 0, 0,
     0, 0xF8, 0, 0, 0, 0x48, 0, 0, 0, 0, 0, 0, 0, 0x1C, 0, 0, 0, 0x40, 0, 0, 0, 0x44, 0, 0, 0, 1, 0, 0, 0, 1,
     0, 0, 0, 0, 0, 0, 0, 2, 0, 0, 0, 0, 0, 0, 0, 0xC, 0, 0, 0, 0x18, 0, 0, 0, 0, 0x10, 6, 0, 0, 0, 0, 0, 0,
     0, 0, 0, 0, 0, 0, 0, 1, 0, 0x40, 1, 1, 2, 0, 0, 0, 0x5F, 0x78, 0, 0, 0, 0, 0, 0, 0, 0, 0x80]"

definition sample_app :: container where
  "sample_app = with_bytes sample_app_bytes Little"

lemma sample_app_reads:
  "deserialize_type_at_offset (pread_mach_header_64 (scroll_ref True)) sample_app 0 =
     Some \<lparr>mh_magic = MH_MAGIC_64, mh_cputype = 0x100000C, mh_cpusubtype = 0, mh_filetype = MH_EXECUTE,
       mh_ncmds = 5, mh_sizeofcmds = 216, mh_flags = 0, mh_reserved = 0\<rparr>"
  "deserialize_type_at_offset (pread_load_command (scroll_ref True)) sample_app 32 =
     Some \<lparr>lc_cmd = LC_SEGMENT_64, lc_cmdsize = 72\<rparr>"
  "deserialize_type_at_offset (pread_load_command (scroll_ref True)) sample_app 104 =
     Some \<lparr>lc_cmd = LC_SEGMENT_64, lc_cmdsize = 72\<rparr>"
  "deserialize_type_at_offset (pread_load_command (scroll_ref True)) sample_app 176 =
     Some \<lparr>lc_cmd = LC_LOAD_DYLIB, lc_cmdsize = 32\<rparr>"
  "deserialize_type_at_offset (pread_load_command (scroll_ref True)) sample_app 208 =
     Some \<lparr>lc_cmd = LC_MAIN, lc_cmdsize = 24\<rparr>"
  "deserialize_type_at_offset (pread_load_command (scroll_ref True)) sample_app 232 =
     Some \<lparr>lc_cmd = LC_DYLD_CHAINED_FIXUPS, lc_cmdsize = 16\<rparr>"
  "deserialize_type_at_offset (pread_dylib_command (scroll_ref True)) sample_app 176 =
     Some \<lparr>dc_cmd = LC_LOAD_DYLIB, dc_cmdsize = 32, dc_dylib = \<lparr>dl_name = \<lparr>ls_offset = 24\<rparr>, dl_timestamp = 0,
       dl_current_version = 0, dl_compatibility_version = 0\<rparr>\<rparr>"
  "deserialize_string_at_offset sample_app 200 = Ok [0x2F, 0x6C]"
  "\<exists>m. deserialize_type_at_offset (pread_entry_point_command (scroll_ref True)) sample_app 208 = Some m \<and> ep_entryoff m = 32"
  by (simp_all add: deserialize_type_at_offset_def with_bytes_def sample_app_def sample_app_bytes_def scroll_ref_def
      p_mach_header_64_def p_load_command_def p_dylib_command_def p_dylib_def p_lc_str_def p_entry_point_command_def parser_simps
      deserialize_string_at_offset_def utf8_valid_ascii)

lemma sample_app_segments:
  "\<exists>sg. deserialize_type_at_offset (pread_segment_command_64 (scroll_ref True)) sample_app 32 = Some sg \<and>
    sg_segname sg = [0x5F, 0x5F, 0x50, 0x41, 0x47, 0x45, 0x5A, 0x45, 0x52, 0x4F, 0, 0, 0, 0, 0, 0] \<and> sg_vmaddr sg = 0 \<and>
    sg_vmsize sg = 0x100000000 \<and> sg_fileoff sg = 0 \<and> sg_initprot sg = 0 \<and> sg_nsects sg = 0"
  "\<exists>sg. deserialize_type_at_offset (pread_segment_command_64 (scroll_ref True)) sample_app 104 = Some sg \<and>
    sg_segname sg = [0x5F, 0x5F, 0x54, 0x45, 0x58, 0x54, 0, 0, 0, 0, 0, 0, 0, 0, 0, 0] \<and> sg_vmaddr sg = 0x100000000 \<and>
    sg_vmsize sg = 328 \<and> sg_fileoff sg = 0 \<and> sg_initprot sg = 5 \<and> sg_nsects sg = 0"
  by (simp_all add: deserialize_type_at_offset_def with_bytes_def sample_app_def sample_app_bytes_def scroll_ref_def
      p_segment_command_64_def parser_simps)

lemma sample_app_linkedit:
  "\<exists>ld. deserialize_type_at_offset (pread_linkedit_data_command (scroll_ref True)) sample_app 232 = Some ld \<and> ld_dataoff ld = 248"
  "\<exists>h. deserialize_type_at_offset (pread_dyld_chained_fixups_header (scroll_ref True)) sample_app 248 = Some h \<and>
    cf_starts_offset h = 28 \<and> cf_imports_offset h = 64 \<and> cf_symbols_offset h = 68 \<and> cf_imports_format h = DYLD_CHAINED_IMPORT"
  "\<exists>si. deserialize_type_at_offset (pread_dyld_chained_starts_in_image (scroll_ref True)) sample_app 276 = Some si \<and> si_seg_count si = 2"
  "deserialize_type_at_offset (pread_u32 (scroll_ref True)) sample_app 280 = Some 0"
  "deserialize_type_at_offset (pread_u32 (scroll_ref True)) sample_app 284 = Some 12"
  "\<exists>ss. deserialize_type_at_offset (pread_dyld_chained_starts_in_segment (scroll_ref True)) sample_app 288 = Some ss \<and>
     ss_page_size ss = 0x1000 \<and> ss_pointer_format ss = DYLD_CHAINED_PTR_64_OFFSET \<and> ss_segment_offset ss = 0 \<and> ss_page_count ss = 1"
  "deserialize_type_at_offset (pread_u16 (scroll_ref True)) sample_app 310 = Some 320"
  "deserialize_type_at_offset (pread_u64 (scroll_ref True)) sample_app 320 = Some 0x8000000000000000"
  "deserialize_type_at_offset (pread_u32 (scroll_ref True)) sample_app 312 = Some 0x201"
  "deserialize_string_at_offset sample_app 317 = Ok [0x5F, 0x78]"
  by (simp_all add: deserialize_type_at_offset_def with_bytes_def sample_app_def sample_app_bytes_def scroll_ref_def
      p_linkedit_data_command_def p_dyld_chained_fixups_header_def p_dyld_chained_starts_in_image_def
      p_dyld_chained_starts_in_segment_def p_u16_1_def p_import_format_def p_ptr_format_def
      dyld_chained_import_format_variants_all_def dyld_chained_ptr_format_variants_all_def parser_simps
      deserialize_string_at_offset_def utf8_valid_ascii)

lemma sample_app_fixups:
  obtains name where "fs_as_str name = Ok [0x5F, 0x78]"
    "chained_fixups_parse_all (scroll_ref True) sample_app = Ok [fixup_bind 320 name 1 0 False]"
proof -
  let ?E = "scroll_ref True"
  obtain name where name: "fs_try_from_str True SYMBOL_NAME_LEN [0x5F, 0x78] = Ok (Some name)" "fs_as_str name = Ok [0x5F, 0x78]"
    using fs_try_from_str_short [of "[0x5F, 0x78]" SYMBOL_NAME_LEN True] by (auto simp: SYMBOL_NAME_LEN_def)
  obtain ld where ld: "deserialize_type_at_offset (pread_linkedit_data_command ?E) sample_app 232 = Some ld" "ld_dataoff ld = 248"
    using sample_app_linkedit(1) by blast
  obtain h where h: "deserialize_type_at_offset (pread_dyld_chained_fixups_header ?E) sample_app 248 = Some h"
    "cf_starts_offset h = 28" "cf_imports_offset h = 64" "cf_symbols_offset h = 68" "cf_imports_format h = DYLD_CHAINED_IMPORT"
    using sample_app_linkedit(2) by blast
  obtain si where si: "deserialize_type_at_offset (pread_dyld_chained_starts_in_image ?E) sample_app 276 = Some si" "si_seg_count si = 2"
    using sample_app_linkedit(3) by blast
  obtain ss where ss: "deserialize_type_at_offset (pread_dyld_chained_starts_in_segment ?E) sample_app 288 = Some ss"
     "ss_page_size ss = 0x1000" "ss_pointer_format ss = DYLD_CHAINED_PTR_64_OFFSET" "ss_segment_offset ss = 0" "ss_page_count ss = 1"
    using sample_app_linkedit(6) by blast
  have header: "chained_fixups_header_and_offset_find ?E sample_app = Ok (Some (248, h))"
    by (simp add: chained_fixups_header_and_offset_find_def lc_try_with_container_def sample_app_reads
        header_loop.simps lc_try_next_def overflow_ref wadd_def wsub_def ld h)
  have imported: "import_at ?E sample_app 0 (DYLD_CHAINED_IMPORT, 312, 316) = Ok (1, name)"
    by (simp add: import_at_def import_symbol_parse_def sample_app_linkedit(9,10) overflow_ref wadd_def wmul_def name
        dyld_chained_import_lib_ordinal_def dyld_chained_import_name_offset_def)
  have step: "chain_step ?E sample_app DYLD_CHAINED_PTR_64_OFFSET (DYLD_CHAINED_IMPORT, 312, 316) 320 = Ok (fixup_bind 320 name 1 0 False, None)"
    by (simp add: chain_step_def sample_app_linkedit(8) fixup_parse_one_def fixup_64_parse_one_def bind_field_defs
        imported wmul_def fixup_bind_def)
  then have chain: "chain_parse ?E sample_app DYLD_CHAINED_PTR_64_OFFSET (DYLD_CHAINED_IMPORT, 312, 316) 320 [] =
      Ok [fixup_bind 320 name 1 0 False]"
    by (simp add: chain_parse_def chain_loop.simps)
  have two: "[0..<2] = [0, 1 :: nat]" by (simp add: upt_rec)
  have "chained_fixups_parse_all ?E sample_app = Ok [fixup_bind 320 name 1 0 False]"
    by (simp add: chained_fixups_parse_all_def header h si two ss overflow_ref wadd_def wmul_def sample_app_linkedit chain
        size_of_def dyld_chained_starts_in_image_layout_def round_up_def PAGE_STARTS_OFFSET_def)
  with name(2) that show thesis by blast
qed

definition sample_app_segs :: "segment list" where
  "sample_app_segs = [\<lparr>sm_file_offset = 0, sm_vm_addr = 0, sm_vm_size = 0x100000000, sm_prot = 0\<rparr>,
     \<lparr>sm_file_offset = 0, sm_vm_addr = 0x100000000, sm_vm_size = 328, sm_prot = 5\<rparr>]"

lemma sample_app_parse:
  obtains p name where "macho_parser (scroll_ref True) sample_app = Ok p" "pi_fixups p = [fixup_bind 320 name 1 0 False]"
    "fs_as_str name = Ok [0x5F, 0x78]" "pi_rpath p = None"
    "fv_list (pi_libraries p) = [([0x2F, 0x6C], 24)]" "fv_list (pi_segments p) = sample_app_segs" "pi_entry_point p = 32"
proof -
  let ?E = "scroll_ref True"
  let ?g1 = "\<lparr>sm_file_offset = 0, sm_vm_addr = 0, sm_vm_size = 0x100000000, sm_prot = 0\<rparr> :: segment"
  let ?g2 = "\<lparr>sm_file_offset = 0, sm_vm_addr = 0x100000000, sm_vm_size = 328, sm_prot = 5\<rparr> :: segment"
  obtain segs1 where segs1: "fv_push True ?g1 (fv_new_array 64) = Ok segs1" "fv_list segs1 = [?g1]" "fv_inv segs1" "fv_cap segs1 = 64"
    using fv_push_eq [OF fv_new_array_inv, of 64 True ?g1] by auto
  obtain segs2 where segs2: "fv_push True ?g2 segs1 = Ok segs2" "fv_list segs2 = [?g1, ?g2]"
    using fv_push_eq [OF segs1(3), of True ?g2] segs1 by auto
  obtain libs :: "(bytes \<times> usize) fixed_vec" where libs: "fv_push True ([0x2F, 0x6C], 24) (fv_new_array 64) = Ok libs"
    "fv_list libs = [([0x2F, 0x6C], 24)]"
    using fv_push_eq [OF fv_new_array_inv, of 64 True "([0x2F, 0x6C], 24)"] by auto
  obtain sg1 where sg1: "deserialize_type_at_offset (pread_segment_command_64 ?E) sample_app 32 = Some sg1"
    "sg_segname sg1 = [0x5F, 0x5F, 0x50, 0x41, 0x47, 0x45, 0x5A, 0x45, 0x52, 0x4F, 0, 0, 0, 0, 0, 0]" "sg_vmaddr sg1 = 0"
    "sg_vmsize sg1 = 0x100000000" "sg_fileoff sg1 = 0" "sg_initprot sg1 = 0" "sg_nsects sg1 = 0"
    using sample_app_segments(1) by blast
  obtain sg2 where sg2: "deserialize_type_at_offset (pread_segment_command_64 ?E) sample_app 104 = Some sg2"
    "sg_segname sg2 = [0x5F, 0x5F, 0x54, 0x45, 0x58, 0x54, 0, 0, 0, 0, 0, 0, 0, 0, 0, 0]" "sg_vmaddr sg2 = 0x100000000"
    "sg_vmsize sg2 = 328" "sg_fileoff sg2 = 0" "sg_initprot sg2 = 5" "sg_nsects sg2 = 0"
    using sample_app_segments(2) by blast
  obtain ep where ep: "deserialize_type_at_offset (pread_entry_point_command ?E) sample_app 208 = Some ep" "ep_entryoff ep = 32"
    using sample_app_reads(9) by blast
  obtain name where fixups: "fs_as_str name = Ok [0x5F, 0x78]"
    "chained_fixups_parse_all ?E sample_app = Ok [fixup_bind 320 name 1 0 False]" by (rule sample_app_fixups)
  let ?p = "parsed_image_empty\<lparr>pi_is_dylib := False, pi_segments := segs2, pi_libraries := libs, pi_entry_point := 32,
    pi_fixups := [fixup_bind 320 name 1 0 False]\<rparr>"
  have "pi_segments parsed_image_empty = fv_new_array 64" "pi_init_functions parsed_image_empty = []"
    "pi_libraries parsed_image_empty = fv_new_array 64" "\<not> pi_has_thread_locals parsed_image_empty" by (simp_all add: parsed_image_empty_def)
  moreover have five: "(5 :: nat) = Suc (Suc (Suc (Suc (Suc 0))))" by simp
  ultimately have "commands_loop ?E sample_app 5 32 (parsed_image_empty\<lparr>pi_is_dylib := False\<rparr>) = Ok ?p"
    unfolding five
    by (simp add: sample_app_reads parse_command_def parse_segment_def parse_dylib_command_def parse_main_command_def
        sg1 sg2 segs1 segs2 libs ep fixups(2) overflow_ref wadd_def)
  then have "macho_parser ?E sample_app = Ok ?p" by (simp add: macho_parser_def sample_app_reads)
  with that [of ?p name] fixups(1) segs2(2) libs(2) show thesis by (simp add: parsed_image_empty_def sample_app_segs_def)
qed

end
