(* ===== verification/Sample_Process.thy ===== *)
theory Sample_Process
  imports Sample_Images Sample_Cache
begin

text \<open>
  A process, as a concrete input for the theorems on whole runs: the memory the kernel would hand over, with an
  executable, a linker without load commands and a shared cache without libraries, and a machine that has the
  one library the executable needs and binds a pointer to.
\<close>

section \<open>The process\<close>

text \<open>At 0x1000 the structure \<open>start\<close> is called with, at 0x2000 the arguments and the path \<open>/a/b\<close>, at 0x4000 the
  linker, at 0x10000 the executable.\<close>

definition sample_stack_bytes :: bytes where
  "sample_stack_bytes = [0, 0x40, 0, 0, 0, 0, 0, 0, 0, 0, 1, 0, 0, 0, 0, 0, 0x20, 0, 0, 0, 0, 0, 0, 0, 0x48, 1, 0, 0, 0, 0, 0, 0,
     1, 0, 0, 0, 0, 0, 0, 0, 0, 0x20, 0, 0, 0, 0, 0, 0, 8, 0x20, 0, 0, 0, 0, 0, 0, 8, 0x20, 0, 0, 0, 0, 0, 0]"

definition sample_args_bytes :: bytes where
  "sample_args_bytes = [0x10, 0x20, 0, 0, 0, 0, 0, 0, 0, 0, 0, 0, 0, 0, 0, 0, 0x2F, 0x61, 0x2F, 0x62, 0]"

definition sample_linker_bytes :: bytes where
  "sample_linker_bytes = [0xCF, 0xFA, 0xED, 0xFE, 0x0C, 0, 0, 1, 0, 0, 0, 0, 7, 0, 0, 0, 0, 0, 0, 0, 0, 0, 0, 0, 0, 0, 0, 0, 0, 0, 0, 0]"

definition sample_mem :: mem where
  "sample_mem = place 0x10000 sample_app_bytes (place 0x4000 sample_linker_bytes (place 0x2000 sample_args_bytes
     (place 0x1000 sample_stack_bytes sample_cache_mem)))"

lemma sample_lengths:
  "length sample_app_bytes = 328" "length sample_lib_bytes = 224" "length sample_linker_bytes = 32" "length sample_args_bytes = 21" "length sample_stack_bytes = 64"
  by (simp_all add: sample_app_bytes_def sample_lib_bytes_def sample_lib_with_def sample_linker_bytes_def sample_args_bytes_def sample_stack_bytes_def)

lemma sample_mem_parts:
  "raw_slice sample_mem 0x10000 328 = sample_app_bytes" "raw_slice sample_mem 0x4000 32 = sample_linker_bytes"
  "raw_slice sample_mem 0x2000 21 = sample_args_bytes" "raw_slice sample_mem 0x1000 64 = sample_stack_bytes"
  "unat n \<le> 0x10000 \<Longrightarrow> raw_slice sample_mem 0x180000000 n = raw_slice sample_cache_mem 0x180000000 n"
  using raw_slice_place [of sample_app_bytes] raw_slice_place [of sample_linker_bytes]
    raw_slice_place [of sample_args_bytes] raw_slice_place [of sample_stack_bytes]
  by (simp_all add: sample_mem_def raw_slice_place_apart sample_lengths)

lemma sample_mem_stack:
  "stack_read sample_mem 0x1000 = \<lparr>sk_dylinker_header = 0x4000, sk_executable_header = 0x10000, sk_dylinker_size = 32,
     sk_executable_size = 328, sk_argc = 1, sk_argv = 0x2000, sk_envp = 0x2008, sk_apple = 0x2008\<rparr>"
proof -
  have "raw_slice sample_mem (0x1000 + of_nat i) 8 = take 8 (drop i sample_stack_bytes)" if "i + 8 \<le> 64" for i
    using raw_slice_part [of i 8 64 sample_mem "0x1000"] that by (simp add: sample_mem_parts)
  from this [of 0] this [of 8] this [of 16] this [of 24] this [of 32] this [of 40] this [of 48] this [of 56] show ?thesis
    by (simp add: stack_read_def peek_u64_def sample_stack_bytes_def bytes_nat_def)
qed

section \<open>The machine\<close>

text \<open>It has the shared cache at 0x180000000, maps the library at 0x30000 under every path, and grants memory at
  0x200000000, the second time at 0x400000000, and all protections.\<close>

definition sample_machine :: machine where
  "sample_machine = \<lparr>svc = (\<lambda>n args s. \<lparr>an_x0 = (if n = SYS_OPEN then 3 else if n = SYS_MMAP then 0x30000 else 0),
       an_carry = 0,
       an_out = (if n = SHARED_REGION_CHECK_NP then [0, 0, 0, 0x80, 1, 0, 0, 0]
         else if n = SYS_FSTAT then replicate 96 0 @ 224 # replicate 47 0
         else if n = TRAP_KERNELRPC_MACH_VM_ALLOCATE then
           [0, 0, 0, 0, (if length (pr_trace s) < 8 then 2 else 4), 0, 0, 0]
         else []),
       an_mem = (if n = SYS_MMAP then place 0x30000 sample_lib_bytes (pr_mem s) else pr_mem s)\<rparr>),
     run_code = (\<lambda>_ _ s. pr_mem s), tlv_initialize = (\<lambda>_ s. pr_mem s), null_array = 0\<rparr>"

lemma sample_machine_maps:
  "disk_path_mmap sample_machine path s = (Ok (sample_lib, 0x30000), s\<lparr>pr_mem := place 0x30000 sample_lib_bytes (pr_mem s),
     pr_trace := pr_trace s @ [Svc SYS_OPEN [In path, W 0, W 0], Svc SYS_FSTAT [W 3, Out 144],
       Svc SYS_MMAP [W 0, W 224, W 3, W 2, W 3, W 0]]\<rparr>)"
proof -
  have sz: "field_at (replicate 96 0 @ 224 # replicate 47 0) 96 8 = (224 :: u64)"
  proof -
    have "le_nat (replicate n 0) = 0" for n by (induction n) simp_all
    then show ?thesis by (simp add: field_at_def)
  qed
  have eq: "raw_slice (place 0x30000 sample_lib_bytes m) 0x30000 224 = sample_lib_bytes" for m
    using raw_slice_place [of sample_lib_bytes] by (simp add: sample_lengths)
  have len: "size_of file_layout = 144" by (simp add: size_of_def file_layout_def round_up_def)
  show ?thesis
    using sz eq
    by (simp add: disk_path_mmap_def libc_open_def libc_fstat_def mmap_file_def mmap_internal_def syscall_wrappers
        syscall_run io_bind_def io_try_def io_lift_def io_ok_def decode_ret_def Let_def sample_machine_def after_svc_def
        mapped_non_null_def file_of_bytes_def const_defs len flip: sample_lib_def)
qed

definition sample_process :: proc where
  "sample_process = \<lparr>pr_mem = sample_mem, pr_trace = []\<rparr>"

lemma sample_machine_grants: "kernel_grants sample_machine"
  by (simp add: kernel_grants_def sample_machine_def const_defs field_at_def)

lemma sample_machine_base:
  "dyld_shared_cache_base_address_get sample_machine s =
     (Ok (1, 0x180000000), s\<lparr>pr_trace := pr_trace s @ [Svc SHARED_REGION_CHECK_NP [Out 8]]\<rparr>)"
  by (simp add: dyld_shared_cache_base_address_get_def syscall_def sample_machine_def io_bind_def decode_ret_def field_at_def const_defs)

text \<open>What the steps of a run find there.\<close>

lemma sample_magic:
  "read_magic (raw_slice sample_mem 0x4000 4) = Ok MH_MAGIC_64" "read_magic (raw_slice sample_mem 0x10000 4) = Ok MH_MAGIC_64"
proof -
  have "raw_slice sample_mem 0x4000 4 = take 4 sample_linker_bytes" "raw_slice sample_mem 0x10000 4 = take 4 sample_app_bytes"
    unfolding sample_mem_parts [symmetric] by (simp_all add: raw_slice_take)
  then show "read_magic (raw_slice sample_mem 0x4000 4) = Ok MH_MAGIC_64" "read_magic (raw_slice sample_mem 0x10000 4) = Ok MH_MAGIC_64"
    by (simp_all add: sample_linker_bytes_def sample_app_bytes_def read_magic_def parser_simps)
qed

lemma sample_linker_fixups: "chained_fixups_parse_all (scroll_ref True) (with_bytes sample_linker_bytes Little) = Ok []"
proof -
  have h: "deserialize_type_at_offset (pread_mach_header_64 (scroll_ref True)) (with_bytes sample_linker_bytes Little) 0 =
     Some \<lparr>mh_magic = MH_MAGIC_64, mh_cputype = 0x100000C, mh_cpusubtype = 0, mh_filetype = MH_DYLINKER,
       mh_ncmds = 0, mh_sizeofcmds = 0, mh_flags = 0, mh_reserved = 0\<rparr>"
    by (simp add: deserialize_type_at_offset_def with_bytes_def sample_linker_bytes_def scroll_ref_def
      p_mach_header_64_def parser_simps)
  show ?thesis
    by (simp add: chained_fixups_parse_all_def chained_fixups_header_and_offset_find_def lc_try_with_container_def h
        header_loop.simps lc_try_next_def)
qed

lemma sample_executable:
  "arm64_container_create (scroll_ref True) (with_bytes sample_app_bytes Little) 0x10000 = Ok (sample_app, 0x10000)"
  using sample_app_reads(1)
  by (subst arm64_container_create.simps) (simp add: header_is_arm64_def const_defs flip: sample_app_def)

lemma sample_exe_dir: "exe_dir True sample_mem 0x2000 = Ok (Some [0x2F, 0x61])"
proof -
  have part: "raw_slice sample_mem (0x2000 + of_nat i) (of_nat j) = take j (drop i sample_args_bytes)" if "i + j \<le> 21" for i j
    using raw_slice_part [of i j 21 sample_mem "0x2000"] that by (simp add: sample_mem_parts)
  have "peek_u64 sample_mem 0x2000 = 0x2010"
    using part [of 0 8] by (simp add: peek_u64_def sample_args_bytes_def bytes_nat_def)
  moreover have "holds_string sample_mem 0x2010 [0x2F, 0x61, 0x2F, 0x62]"
    using part [of 16 4] part [of 20 1] by (simp add: holds_string_def sample_args_bytes_def raw_slice_nums)
  ultimately have "arg_len_loop True sample_mem 0x2010 0 = Some (Ok 4)" "peek_u64 sample_mem 0x2000 = 0x2010"
    using arg_len_loop_string [of sample_mem "0x2010" "[0x2F, 0x61, 0x2F, 0x62]" 0 True] by simp_all
  moreover have "raw_slice sample_mem 0x2010 4 = [0x2F, 0x61, 0x2F, 0x62]"
    using part [of 16 4] by (simp add: sample_args_bytes_def)
  moreover have "dir_of ([0x2F, 0x61] @ 0x2F # [0x62]) = [0x2F, 0x61]" using dir_of_cases(1) [of "[0x62]" "[0x2F, 0x61]"] by simp
  ultimately show ?thesis by (simp add: exe_dir_def argv0_def utf8_valid_ascii)
qed


section \<open>The library, loaded\<close>

definition sample_lib_seg :: segment where
  "sample_lib_seg = \<lparr>sm_file_offset = 0, sm_vm_addr = 0, sm_vm_size = 224, sm_prot = 3\<rparr>"

lemma sample_machine_alloc:
  "\<exists>t. vm_alloc_task_self sample_machine sz s = (Ok (Inr (if length (pr_trace s) < 7 then 0x200000000 else 0x400000000)), t)"
  by (simp add: vm_alloc_task_self_def task_self_internal_def vm_allocate_internal_def syscall_wrappers syscall_run io_bind_def
      sample_machine_def decode_ret_def kr_def field_at_def const_defs after_svc_def)

lemma sample_machine_region:
  assumes "macho_segments_map_to_vm oc sample_machine skip base gs s = (Ok (vm, sz), s')"
  shows "vm \<in> {0x200000000, 0x400000000}"
proof -
  from assms obtain n t where "vm_alloc_task_self sample_machine n s = (Ok (Inr vm), t)"
    by (auto simp: macho_segments_map_to_vm_def res_simps io_try_Ok_iff io_lift_def)
  with sample_machine_alloc [of n s] show ?thesis by (auto split: if_split_asm)
qed

lemma sample_sources_apart:
  assumes "vm \<in> {0x200000000, 0x400000000}"
  shows "sources_apart 0x30000 vm [sample_lib_seg]"
proof -
  have d: "\<not> unat (d + 0xFFFFFFFE00030000) < unat (224 :: u64)" "\<not> unat (d + 0xFFFFFFFC00030000) < unat (224 :: u64)"
    if "unat d < unat (224 :: u64)" for d :: u64
    using that by (unat_arith, simp)+
  have e: "0x30000 + 0 + (x - (0x200000000 + 0)) - (0x200000000 + 0) = (x - (0x200000000 + 0)) + (0xFFFFFFFE00030000 :: u64)"
    "0x30000 + 0 + (x - (0x400000000 + 0)) - (0x400000000 + 0) = (x - (0x400000000 + 0)) + (0xFFFFFFFC00030000 :: u64)" for x by simp_all
  have "covers vm x sample_lib_seg \<Longrightarrow> \<not> covers vm (source_of 0x30000 vm x sample_lib_seg) sample_lib_seg" for x
    using assms d [of "x - (0x200000000 + 0)"] d [of "x - (0x400000000 + 0)"]
    by (elim insertE emptyE) (simp_all only: sample_lib_seg_def covers_def source_of_def segment.simps e not_False_eq_True)
  then show ?thesis by (simp add: sources_apart_def)
qed

lemma sample_finalize:
  assumes "image_finalize sample_machine vm p False s = (Ok (), t)" "fv_deref (pi_segments p) = Ok [sample_lib_seg]"
    and "pi_init_functions p = []"
  shows "pr_mem t = pr_mem s"
  using assms(1)
  by (auto simp: image_finalize_def assms(2,3) segment_protect_def vm_protect_def task_self_internal_def vm_protect_internal_def
      syscall_wrappers syscall_run io_bind_def io_try_def io_lift_def io_ok_def sample_machine_def after_svc_def const_defs decode_ret_def kr_def)

lemma sample_lib_with_parts:
  "\<exists>hs ts. (\<forall>q. sample_lib_with q = hs @ q @ ts) \<and> length hs = 200 \<and> length ts = 16"
  unfolding sample_lib_with_def by (intro exI conjI allI, rule refl) simp_all

text \<open>The region of a loaded library: the bytes of the file, with the pointer rebased.\<close>

lemma sample_lib_region:
  assumes "pr_mem u = poke_u64 (laid_out 0x30000 vm [sample_lib_seg] (place 0x30000 sample_lib_bytes m)) (vm + 200) v"
  shows "\<exists>a b c d e f g h. raw_slice (pr_mem u) vm 224 = sample_lib_with [a, b, c, d, e, f, g, h]"
proof -
  define q where "q = map (\<lambda>i. pr_mem u (vm + of_nat i)) [200..<208]"
  have i: "unat (of_nat i :: usize) = i" if "i < 224" for i using that by (simp add: unat_of_nat take_bit_eq_mod)
  have off: "vm + of_nat i - (vm + 200) = of_nat i - (200 :: usize)" for i by simp
  have inside: "\<not> unat (of_nat i - 200 :: usize) < 8" if "i < 224" "i < 200 \<or> 208 \<le> i" for i
  proof (cases "i < 200")
    case True
    have eq: "of_nat (i + 2 ^ 64 - 200) = (of_nat i - 200 :: usize)" by (simp add: of_nat_diff)
    have "unat (of_nat (i + 2 ^ 64 - 200) :: usize) = i + 2 ^ 64 - 200" using True by (intro unat_of_nat_fits) simp
    then have "unat (of_nat i - 200 :: usize) = i + 2 ^ 64 - 200" by (simp only: eq)
    then show ?thesis by simp
  next
    case False
    then have "unat (of_nat i - 200 :: usize) = i - 200" using i [OF that(1)] by (subst unat_sub_fits) simp_all
    with False that(2) show ?thesis by simp
  qed
  have m: "pr_mem u (vm + of_nat i) = sample_lib_bytes ! i" if "i < 224" "i < 200 \<or> 208 \<le> i" for i
    using inside [OF that] i [OF that(1)] that(1)
    by (simp add: assms poke_u64_def off laid_out_def covers_def source_of_def sample_lib_seg_def place_def sample_lengths)
  have "length q = 8" by (simp add: q_def)
  then obtain a b c d e f g h where q: "q = [a, b, c, d, e, f, g, h]"
    by (auto simp: numeral_eq_Suc length_Suc_conv)
  obtain hs ts where parts: "\<And>q. sample_lib_with q = hs @ q @ ts" "length hs = 200" "length ts = 16" using sample_lib_with_parts by blast
  have len: "length (sample_lib_with q) = 224" by (simp add: parts q)
  have "raw_slice (pr_mem u) vm 224 = sample_lib_with q"
  proof (rule nth_equalityI)
    show "length (raw_slice (pr_mem u) vm 224) = length (sample_lib_with q)" by (simp add: raw_slice_length len)
    fix i assume "i < length (raw_slice (pr_mem u) vm 224)"
    then have l: "i < 224" by (simp add: raw_slice_length)
    then have r: "raw_slice (pr_mem u) vm 224 ! i = pr_mem u (vm + of_nat i)" by (simp add: raw_slice_def)
    show "raw_slice (pr_mem u) vm 224 ! i = sample_lib_with q ! i"
    proof (cases "i < 200 \<or> 208 \<le> i")
      case True
      then have "sample_lib_with q ! i = sample_lib_bytes ! i"
        by (auto simp: parts sample_lib_bytes_def nth_append q)
      with m [OF l True] r show ?thesis by simp
    next
      case False
      then have "i - 200 < 8" by arith
      with False have "sample_lib_with q ! i = q ! (i - 200)" using \<open>length q = 8\<close> by (simp add: parts nth_append)
      moreover have "q ! (i - 200) = pr_mem u (vm + of_nat i)"
        using False \<open>i - 200 < 8\<close> by (simp add: q_def del: upt_rec_numeral)
      ultimately show ?thesis using r by simp
    qed
  qed
  with q show ?thesis by blast
qed

lemma sample_lib_exposes: "exposes (scroll_ref True) sample_machine cache dir path [0x5F, 0x78]"
  unfolding exposes_def
proof (intro allI impI)
  let ?E = "scroll_ref True"
  fix s c b t fuel vm sz u
  assume "disk_path_mmap sample_machine path s = (Ok (c, b), t)"
    and load: "macho_loader ?E sample_machine fuel cache c b dir (Some path) t = (Ok (vm, sz), u)"
  then have c: "c = sample_lib" "b = 0x30000" and t: "pr_mem t = place 0x30000 sample_lib_bytes (pr_mem s)"
    by (auto simp: sample_machine_maps)
  obtain p where p: "macho_parser ?E sample_lib = Ok p" "pi_fixups p = [fixup_rebase 200 0x10]" "fv_list (pi_libraries p) = []"
    "fv_list (pi_segments p) = [\<lparr>sm_file_offset = 0, sm_vm_addr = 0, sm_vm_size = 224, sm_prot = 3\<rparr>]" "pi_init_functions p = []"
    by (rule sample_lib_parse)
  have inv: "fv_inv (pi_libraries p)" "fv_inv (pi_segments p)"
    using macho_parser_tables [OF p(1)] by (simp_all add: tables_ok_def)
  have gs: "fv_deref (pi_segments p) = Ok [sample_lib_seg]" by (simp add: fv_deref_eq [OF inv(2)] p(4) sample_lib_seg_def)
  have deps: "dependencies_collect (overflow_checks ?E) p cache = Ok (fv_new_array 32)"
    by (simp add: dependencies_collect_def fv_deref_eq [OF inv(1)] p(3))
  have ds: "fv_deref (fv_new_array 32 :: (bytes \<times> bool) fixed_vec) = Ok []"
    by (subst fv_deref_eq [OF fv_new_array_inv]) (simp_all add: fv_list_def fv_new_array_def fv_new_def)
  obtain deps' ds' libs s0 sz' s1 s2 where
    run: "dependencies_collect (overflow_checks ?E) p cache = Ok deps'" "fv_deref deps' = Ok ds'"
      "user_dylibs_load_recursively sample_machine (\<lambda>c b path. macho_loader ?E sample_machine (fuel - 1) cache c b dir (Some path))
         deps' dir (pi_rpath p) t = (Ok libs, s0)"
      "macho_segments_map_to_vm (overflow_checks ?E) sample_machine (Some path = None) b [sample_lib_seg] s0 = (Ok (vm, sz'), s1)"
      "image_fixups_apply ?E vm p libs cache (Some path = None) s1 = (Ok (), s2)"
      "image_finalize sample_machine vm p (Some path = None) s2 = (Ok (), u)"
      "sz = (case Some path of Some _ \<Rightarrow> sz' | None \<Rightarrow> vm + pi_entry_point p + PAGE_ZERO_SIZE)"
    by (rule macho_loader_stages [OF load [unfolded c(1)] p(1) gs])
  have s0: "s0 = t" using run(1-3) deps ds by (simp add: user_dylibs_load_recursively_def)
  note vm = sample_machine_region [OF run(4)]
  obtain lo hi port s' where alloc: "segments_span True [sample_lib_seg] (- 1, 0) = Ok (lo, hi)" "wsub True hi lo = Ok sz'"
    "s' = after_svc sample_machine TRAP_KERNELRPC_MACH_VM_ALLOCATE [W (ucast (port :: u32)), Out 8, W sz', W 1]
      (after_svc sample_machine TRAP_TASK_SELF [] s0)" "copy_loop False b vm [sample_lib_seg] s' = (Ok (), s1)"
    using run(4) by (auto simp: overflow_ref elim: map_to_vm_cases)
  have sz: "sz' = 224"
    using alloc(1,2) by (simp add: sample_lib_seg_def wadd_def wsub_def min_def max_def word_le_nat_alt word_less_nat_alt
        unsigned_minus_1_eq_mask mask_eq_exp_minus_1)
  have mem': "pr_mem s' = place 0x30000 sample_lib_bytes (pr_mem s)"
    by (simp add: alloc(3) after_svc_def sample_machine_def s0 t const_defs)
  have copied: "copied_segments False [sample_lib_seg] = [sample_lib_seg]" by (simp add: copied_segments_def)
  have "pr_mem s1 = laid_out 0x30000 vm [sample_lib_seg] (pr_mem s')"
    using alloc(4) copy_loop_run [of "0x30000" vm False "[sample_lib_seg]" s'] sample_sources_apart [OF vm] c(2) copied by auto
  moreover have "pr_mem s2 = poke_u64 (pr_mem s1) (vm + 200) (vm + 16)"
    using run(5) by (auto simp: image_fixups_apply_def p(2) fixup_rebase_def Let_def fixup_all_chained_fixups.simps add.commute)
  moreover have "pr_mem u = pr_mem s2" using sample_finalize [OF _ gs p(5)] run(6) by simp
  ultimately have "pr_mem u = poke_u64 (laid_out 0x30000 vm [sample_lib_seg] (place 0x30000 sample_lib_bytes (pr_mem s))) (vm + 200) (vm + 16)"
    by (simp add: mem')
  from sample_lib_region [OF this] obtain q1 q2 q3 q4 q5 q6 q7 q8 where
    "raw_slice (pr_mem u) vm 224 = sample_lib_with [q1, q2, q3, q4, q5, q6, q7, q8]" by blast
  then show "\<exists>off. dylib_symbol_resolve ?E (with_bytes (raw_slice (pr_mem u) vm sz) Little) [0x5F, 0x78] = Ok (Some (Defined off))"
    by (simp add: run(7) sz sample_lib_symbol)
qed

text \<open>The executable is loadable, with its library.\<close>

lemma sample_lib_loadable: "loadable (scroll_ref True) sample_machine cache dir sample_lib"
proof -
  let ?E = "scroll_ref True"
  obtain p where p: "macho_parser ?E sample_lib = Ok p" "pi_fixups p = [fixup_rebase 200 0x10]" "fv_list (pi_libraries p) = []"
    "fv_list (pi_segments p) = [\<lparr>sm_file_offset = 0, sm_vm_addr = 0, sm_vm_size = 224, sm_prot = 3\<rparr>]" by (rule sample_lib_parse)
  have inv: "fv_inv (pi_libraries p)" "fv_inv (pi_segments p)"
    using macho_parser_tables [OF p(1)] by (simp_all add: tables_ok_def)
  show ?thesis
  proof (rule loadableI [OF p(1)])
    show "dependencies_collect (overflow_checks ?E) p cache = Ok (fv_new_array 32)"
      by (simp add: dependencies_collect_def fv_deref_eq [OF inv(1)] p(3))
    show "fv_deref (fv_new_array 32 :: (bytes \<times> bool) fixed_vec) = Ok []"
      by (subst fv_deref_eq [OF fv_new_array_inv]) (simp_all add: fv_list_def fv_new_array_def fv_new_def)
    show "fv_deref (pi_segments p) = Ok [\<lparr>sm_file_offset = 0, sm_vm_addr = 0, sm_vm_size = 224, sm_prot = 3\<rparr>]"
      by (simp add: fv_deref_eq [OF inv(2)] p(4))
    show "segments_span (overflow_checks ?E) [\<lparr>sm_file_offset = 0, sm_vm_addr = 0, sm_vm_size = 224, sm_prot = 3\<rparr>] (- 1, 0) = Ok (0, 224)"
      "wsub (overflow_checks ?E) 224 0 = Ok (224 :: u64)"
      by (simp_all add: overflow_ref wadd_def wsub_def min_def max_def word_le_nat_alt word_less_nat_alt
          unsigned_minus_1_eq_mask mask_eq_exp_minus_1)
  qed (simp_all add: p(2) fixup_served_def fixup_rebase_def)
qed

lemma sample_app_needs:
  assumes "dsc_libraries cache = []"
  obtains p deps name where "macho_parser (scroll_ref True) sample_app = Ok p" "pi_fixups p = [fixup_bind 320 name 1 0 False]"
    "fs_as_str name = Ok [0x5F, 0x78]"
    "fv_deref (pi_segments p) = Ok sample_app_segs" "dependencies_collect (overflow_checks (scroll_ref True)) p cache = Ok deps"
    "fv_deref deps = Ok [([0x2F, 0x6C], False)]"
    "user_dylib_disk_path_resolve [0x2F, 0x6C] (pi_rpath p) dir = Ok [0x2F, 0x6C, 0]"
proof -
  let ?E = "scroll_ref True"
  obtain p name where p: "macho_parser ?E sample_app = Ok p" "pi_fixups p = [fixup_bind 320 name 1 0 False]" "pi_rpath p = None"
    "fv_list (pi_libraries p) = [([0x2F, 0x6C], 24)]" "fv_list (pi_segments p) = sample_app_segs" "fs_as_str name = Ok [0x5F, 0x78]"
    by (rule sample_app_parse)
  have inv: "fv_inv (pi_libraries p)" "fv_inv (pi_segments p)"
    using macho_parser_tables [OF p(1)] by (simp_all add: tables_ok_def)
  obtain deps :: "(bytes \<times> bool) fixed_vec" where d: "fv_push True ([0x2F, 0x6C], False) (fv_new_array 32) = Ok deps"
    "fv_inv deps" "fv_list deps = [([0x2F, 0x6C], False)]"
    using fv_push_eq [OF fv_new_array_inv, of 32 True "([0x2F, 0x6C], False)"] by auto
  have "dependencies_collect (overflow_checks ?E) p cache = Ok deps"
    using d(1) assms by (simp add: dependencies_collect_def fv_deref_eq [OF inv(1)] p(4) fv_length_def fv_new_array_def fv_new_def
      is_library_cached_def library_find_by_install_path_def overflow_ref)
  moreover have "strip_prefix [0x2F, 0x6C] (lit ''@rpath/'') = None" "strip_prefix [0x2F, 0x6C] (lit ''@loader_path/'') = None"
    "strip_prefix [0x2F, 0x6C] (lit ''@executable_path/'') = None"
    by (simp_all add: strip_prefix_None_iff lit_def)
  then have "user_dylib_disk_path_resolve [0x2F, 0x6C] (pi_rpath p) dir = Ok [0x2F, 0x6C, 0]"
    by (simp add: user_dylib_disk_path_resolve_def)
  ultimately show thesis using that p(1,2,5,6) d(2,3) inv(2) by (simp add: fv_deref_eq)
qed

lemma sample_app_loadable:
  assumes "dsc_libraries cache = []"
  shows "loadable (scroll_ref True) sample_machine cache dir sample_app"
proof -
  let ?E = "scroll_ref True"
  obtain p deps name where p: "macho_parser ?E sample_app = Ok p" "pi_fixups p = [fixup_bind 320 name 1 0 False]"
    "fv_deref (pi_segments p) = Ok sample_app_segs"
    "dependencies_collect (overflow_checks ?E) p cache = Ok deps" "fv_deref deps = Ok [([0x2F, 0x6C], False)]"
    "user_dylib_disk_path_resolve [0x2F, 0x6C] (pi_rpath p) dir = Ok [0x2F, 0x6C, 0]" "fs_as_str name = Ok [0x5F, 0x78]"
    by (rule sample_app_needs [OF assms])
  have "library_serves ?E sample_machine cache dir (pi_rpath p) ([0x2F, 0x6C], False) [0x5F, 0x78]"
    using p(6) sample_lib_exposes by (simp add: library_serves_def)
  then have served: "\<forall>f \<in> set (pi_fixups p). fixup_served ?E sample_machine cache dir (pi_rpath p) [([0x2F, 0x6C], False)] (pi_symbols p) f"
    using p(7) by (simp add: p(2) fixup_bind_def fixup_served_def bind_served_def)
  show ?thesis
  proof (rule loadableI [OF p(1,4,5) served p(3)])
    show "segments_span (overflow_checks ?E) sample_app_segs (- 1, 0) = Ok (0, 0x100000148)"
      "wsub (overflow_checks ?E) 0x100000148 0 = Ok (0x100000148 :: u64)"
      by (simp_all add: sample_app_segs_def overflow_ref wadd_def wsub_def min_def max_def word_le_nat_alt word_less_nat_alt
          unsigned_minus_1_eq_mask mask_eq_exp_minus_1)
    show "\<forall>(name, cached) \<in> set [([0x2F, 0x6C], False)]. cached \<or> (\<exists>path. user_dylib_disk_path_resolve name (pi_rpath p) dir = Ok path \<and>
       (\<forall>s. \<exists>c b t. disk_path_mmap sample_machine path s = (Ok (c, b), t) \<and> loadable ?E sample_machine cache dir c))"
      using p(6) sample_machine_maps sample_lib_loadable by auto
  qed
qed

end
