(* ===== verification/Linked_Image.thy ===== *)
theory Linked_Image
  imports Sample_Process
begin

text \<open>
  What a load leaves in memory. The loader is followed to the point where everything is in place and the
  image is about to be brought to life: the segments are laid out as the image says, over them the
  pointers its fixups stand for, and nothing else has changed since the region was allocated.
\<close>

text \<open>What fixups are offset by: an executable's addresses count from behind its page zero.\<close>

definition fixup_base :: "bytes option \<Rightarrow> usize" where
  "fixup_base dylib_dir = (if dylib_dir = None then PAGE_ZERO_SIZE else 0)"

text \<open>C17: what the program finds in memory. Whenever a load succeeds, there is a moment, with the image's region
  just allocated by the last two calls, from which memory changes as follows until the image is brought to
  life: each location of a fixup holds the pointer the fixup stands for, every other byte that a segment
  covers is the byte of the image at the segment's file offset, and all other memory is as it was. The
  libraries the binds go to stand for the needed ones in the order of the load commands.\<close>

theorem image_linked_in_memory:
  assumes "macho_loader E K fuel cache img base dir dylib_dir s = (Ok (vm, x), s')"
    and "macho_parser E img = Ok p" "fv_deref (pi_segments p) = Ok gs"
    and "sources_apart base vm (copied_segments (dylib_dir = None) gs)"
    and "sorted_wrt (\<lambda>f g. separate (fixup_addr vm (fixup_base dylib_dir) f)
      (fixup_addr vm (fixup_base dylib_dir) g)) (pi_fixups p)"
  shows "\<exists>deps ds libs s0 port sz s1 s2. dependencies_collect (overflow_checks E) p cache = Ok deps \<and> fv_deref deps = Ok ds \<and>
    user_dylibs_load_recursively K (\<lambda>c b path. macho_loader E K (fuel - 1) cache c b dir (Some path)) deps dir (pi_rpath p) s = (Ok libs, s0) \<and>
    list_all2 stands_for ds libs \<and>
    s1 = after_svc K TRAP_KERNELRPC_MACH_VM_ALLOCATE [W (ucast (port :: u32)), Out 8, W sz, W 1] (after_svc K TRAP_TASK_SELF [] s0) \<and>
    pr_trace s2 = pr_trace s1 \<and> image_finalize K vm p (dylib_dir = None) s2 = (Ok (), s') \<and>
    (\<forall>f \<in> set (pi_fixups p).
       case fixup_value E vm (fixup_base dylib_dir) (pi_symbols p) libs (Some cache) False f of
         Ok (Some v) \<Rightarrow> peek_u64 (pr_mem s2) (fixup_addr vm (fixup_base dylib_dir) f) = v
       | _ \<Rightarrow> False) \<and>
    (\<forall>y. (\<forall>f \<in> set (pi_fixups p). 8 \<le> unat (y - fixup_addr vm (fixup_base dylib_dir) f)) \<longrightarrow>
       pr_mem s2 y = (case filter (covers vm y) (copied_segments (dylib_dir = None) gs) of
          [] \<Rightarrow> pr_mem s1 y | hs \<Rightarrow> pr_mem s1 (source_of base vm y (last hs))))"
proof -
  let ?pz = "fixup_base dylib_dir"
  obtain deps ds libs s0 sz s1 s2 where run: "dependencies_collect (overflow_checks E) p cache = Ok deps" "fv_deref deps = Ok ds"
    "user_dylibs_load_recursively K (\<lambda>c b path. macho_loader E K (fuel - 1) cache c b dir (Some path)) deps dir (pi_rpath p) s = (Ok libs, s0)"
    "list_all2 stands_for ds libs"
    "macho_segments_map_to_vm (overflow_checks E) K (dylib_dir = None) base gs s0 = (Ok (vm, sz), s1)"
    "image_fixups_apply E vm p libs cache (dylib_dir = None) s1 = (Ok (), s2)"
    "image_finalize K vm p (dylib_dir = None) s2 = (Ok (), s')" by (rule macho_loader_stages [OF assms(1-3)])
  from map_to_vm_cases [OF run(5)] obtain port t where t: "t = after_svc K TRAP_KERNELRPC_MACH_VM_ALLOCATE
      [W (ucast (port :: u32)), Out 8, W sz, W 1] (after_svc K TRAP_TASK_SELF [] s0)"
    and copied: "copy_loop (dylib_dir = None) base vm gs t = (Ok (), s1)" by metis
  from copied copy_loop_run [OF assms(4), of t]
  have s1: "pr_trace s1 = pr_trace t" "pr_mem s1 = laid_out base vm (copied_segments (dylib_dir = None) gs) (pr_mem t)" by auto
  from run(6) obtain m where m: "fixup_all_chained_fixups E vm ?pz (pi_symbols p) libs (Some cache) False (pi_fixups p)
      (pr_mem s1) = Ok m" and s2: "s2 = s1\<lparr>pr_mem := m\<rparr>"
    by (auto simp: image_fixups_apply_def Let_def fixup_base_def split: res.split_asm)
  note written = fixups_written [OF assms(5) m]
  have "fixup_value E vm ?pz (pi_symbols p) libs (Some cache) False f \<noteq> Ok None" for f
    by (auto simp: fixup_value_def rbind_Ok_iff split: fixup_kind.split)
  with written have "\<forall>f \<in> set (pi_fixups p). case fixup_value E vm ?pz (pi_symbols p) libs (Some cache) False f of
      Ok (Some v) \<Rightarrow> peek_u64 (pr_mem s2) (fixup_addr vm ?pz f) = v | _ \<Rightarrow> False"
    unfolding s2 by (fastforce split: res.split_asm option.split_asm res.split option.split)
  moreover have "\<forall>y. (\<forall>f \<in> set (pi_fixups p). 8 \<le> unat (y - fixup_addr vm ?pz f)) \<longrightarrow>
      pr_mem s2 y = (case filter (covers vm y) (copied_segments (dylib_dir = None) gs) of
          [] \<Rightarrow> pr_mem t y | hs \<Rightarrow> pr_mem t (source_of base vm y (last hs)))"
    using written s1(2) by (simp add: s2 laid_out_def)
  ultimately show ?thesis
    using run(1-4,7) t s1(1) s2
    by (intro exI [of _ deps] exI [of _ ds] exI [of _ libs] exI [of _ s0] exI [of _ port] exI [of _ sz] exI [of _ t] exI [of _ s2]) simp
qed

text \<open>The sample library, loaded from where it is mapped.\<close>

definition sample_lib_process :: proc where
  "sample_lib_process = \<lparr>pr_mem = place 0x30000 sample_lib_bytes sample_mem, pr_trace = []\<rparr>"

theorem image_linked_in_memory_witness:
  "\<exists>p fuel x s2 s'. macho_parser (scroll_ref True) sample_lib = Ok p \<and>
     macho_loader (scroll_ref True) sample_machine fuel dsc_new sample_lib 0x30000 [0x2F] (Some [0x2F]) sample_lib_process =
       (Ok (0x200000000, x), s') \<and> image_finalize sample_machine 0x200000000 p False s2 = (Ok (), s') \<and>
     peek_u64 (pr_mem s2) 0x2000000C8 = 0x200000010 \<and> pr_mem s2 0x200000000 = 0xCF"
proof -
  let ?E = "scroll_ref True" and ?s = sample_lib_process
  obtain p where p: "macho_parser ?E sample_lib = Ok p" "pi_fixups p = [fixup_rebase 200 0x10]" "fv_list (pi_libraries p) = []"
    "fv_list (pi_segments p) = [\<lparr>sm_file_offset = 0, sm_vm_addr = 0, sm_vm_size = 224, sm_prot = 3\<rparr>]" by (rule sample_lib_parse)
  have inv: "fv_inv (pi_libraries p)" "fv_inv (pi_segments p)"
    using macho_parser_tables [OF p(1)] by (simp_all add: tables_ok_def)
  have gs: "fv_deref (pi_segments p) = Ok [sample_lib_seg]" by (simp add: fv_deref_eq [OF inv(2)] p(4) sample_lib_seg_def)
  have deps: "dependencies_collect (overflow_checks ?E) p dsc_new = Ok (fv_new_array 32)"
    by (simp add: dependencies_collect_def fv_deref_eq [OF inv(1)] p(3))
  have ds: "fv_deref (fv_new_array 32 :: (bytes \<times> bool) fixed_vec) = Ok []"
    by (subst fv_deref_eq [OF fv_new_array_inv]) (simp_all add: fv_list_def fv_new_array_def fv_new_def)
  obtain fuel vm x s' where load: "macho_loader ?E sample_machine fuel dsc_new sample_lib 0x30000 [0x2F] (Some [0x2F]) ?s = (Ok (vm, x), s')"
    using loadable_loads [OF sample_machine_grants sample_lib_loadable, of dsc_new "[0x2F]"] unfolding loads_def by fast
  have vm: "vm = 0x200000000"
  proof -
    obtain libs s0 sz s1 where
      "user_dylibs_load_recursively sample_machine (\<lambda>c b path. macho_loader ?E sample_machine (fuel - 1) dsc_new c b [0x2F] (Some path))
         (fv_new_array 32) [0x2F] (pi_rpath p) ?s = (Ok libs, s0)"
      "macho_segments_map_to_vm (overflow_checks ?E) sample_machine (Some [0x2F] = (None :: bytes option)) 0x30000 [sample_lib_seg] s0 = (Ok (vm, sz), s1)"
      using macho_loader_stages [OF load p(1) gs] deps by (metis res.inject(1))
    then obtain n t where "vm_alloc_task_self sample_machine n ?s = (Ok (Inr vm), t)"
      by (auto simp: user_dylibs_load_recursively_def ds macho_segments_map_to_vm_def res_simps io_try_Ok_iff io_lift_def)
    with sample_machine_alloc [of n ?s] show ?thesis by (simp add: sample_lib_process_def)
  qed
  note load = load [unfolded vm]
  have copied: "copied_segments (Some [0x2F] = (None :: bytes option)) [sample_lib_seg] = [sample_lib_seg]"
    by (simp add: copied_segments_def)
  have one: "sorted_wrt (\<lambda>f g. separate (fixup_addr 0x200000000 (fixup_base (Some [0x2F])) f)
      (fixup_addr 0x200000000 (fixup_base (Some [0x2F])) g)) (pi_fixups p)"
    by (simp add: p(2))
  from image_linked_in_memory [OF load p(1) gs _ one] obtain deps' libs s0 port sz s1 s2 where
    s0: "dependencies_collect (overflow_checks ?E) p dsc_new = Ok deps'"
    "user_dylibs_load_recursively sample_machine (\<lambda>c b path. macho_loader ?E sample_machine (fuel - 1) dsc_new c b [0x2F] (Some path))
       deps' [0x2F] (pi_rpath p) ?s = (Ok libs, s0)"
    and s1: "s1 = after_svc sample_machine TRAP_KERNELRPC_MACH_VM_ALLOCATE [W (ucast (port :: u32)), Out 8, W sz, W 1]
      (after_svc sample_machine TRAP_TASK_SELF [] s0)"
    and fin: "image_finalize sample_machine 0x200000000 p False s2 = (Ok (), s')"
    and fixed: "peek_u64 (pr_mem s2) 0x2000000C8 = 0x200000010"
    and rest: "\<And>y. 8 \<le> unat (y - 0x2000000C8) \<Longrightarrow> covers 0x200000000 y sample_lib_seg \<Longrightarrow>
      pr_mem s2 y = pr_mem s1 (source_of 0x30000 0x200000000 y sample_lib_seg)"
    unfolding p(2) copied
    by (auto simp: fixup_addr_def fixup_base_def fixup_rebase_def fixup_value_def sample_sources_apart [of "0x200000000"])
  from s0 deps ds have "s0 = ?s" by (simp add: user_dylibs_load_recursively_def)
  then have "pr_mem s1 = place 0x30000 sample_lib_bytes sample_mem"
    by (simp add: s1 after_svc_def sample_machine_def sample_lib_process_def const_defs)
  with rest [of "0x200000000"] have "pr_mem s2 0x200000000 = place 0x30000 sample_lib_bytes sample_mem 0x30000"
    by (simp add: covers_def source_of_def sample_lib_seg_def)
  also have "\<dots> = 0xCF" by (simp add: place_def) (simp add: sample_lib_bytes_def sample_lib_with_def)
  finally show ?thesis using p(1) load fin fixed by blast
qed

end
