(* ===== verification/Program_Run.thy ===== *)
theory Program_Run
  imports Sample_Process
begin

text \<open>
  A whole run, from \<open>start\<close> to the exit: what \<open>Link_Order\<close> says of every run that ends in silence does happen, for
  every program whose image is loadable.
\<close>

text \<open>The end of a run, once the image is linked.\<close>

definition ended :: "machine \<Rightarrow> usize \<Rightarrow> stack \<Rightarrow> proc \<Rightarrow> proc" where
  "ended K entry k t = snd (io_bind (entry_and_ret K entry (sk_argc k) (sk_argv k) (sk_envp k) (sk_apple k))
     (\<lambda>_. exit_error K :: unit io) t)"

lemma ended_run:
  "io_bind (entry_and_ret K entry (sk_argc k) (sk_argv k) (sk_envp k) (sk_apple k)) (\<lambda>_. exit_error K :: unit io) t =
     (Panic Exit_Error, ended K entry k t)"
  "pr_trace (ended K entry k t) = pr_trace t @ [Run entry [sk_argc k, sk_argv k, sk_envp k, sk_apple k], Svc SYS_EXIT [W 0]]"
  by (simp_all add: ended_def entry_and_ret_def io_bind_def exit_error_def syscall1_def syscall_run EXIT_FAILURE_def)

lemma start_runs:
  assumes "stack_read (pr_mem s) info = k"
    and "read_magic (raw_slice (pr_mem s) (sk_dylinker_header k) 4) = Ok magic"
    and "chained_fixups_parse_all E (with_bytes (raw_slice (pr_mem s) (sk_dylinker_header k) (sk_dylinker_size k))
          (macho_endian_from_magic magic)) = Ok fs"
    and "fixup_all_chained_fixups E (sk_dylinker_header k) 0 [] [] None True fs (pr_mem s) = Ok m"
    and "read_magic (raw_slice m (sk_executable_header k) 4) = Ok magic'"
    and "arm64_container_create E (with_bytes (raw_slice m (sk_executable_header k) (sk_executable_size k))
          (macho_endian_from_magic magic')) (sk_executable_header k) = Ok (img, base)"
    and "dyld_shared_cache_base_address_get K (s\<lparr>pr_mem := m\<rparr>) = (Ok (1, cache_base), s1)"
    and "wsub (overflow_checks E) cache_base DYLD_LIKELY_UNSLID_VM_ADDR = Ok slide"
    and "from_existing E (pr_mem s1) cache_base slide dsc_new = Ok cache"
    and "tls_functions_self_bind_hack E (sk_dylinker_header k) (filter is_bind fs) cache (pr_mem s1) = Ok m1"
    and "exe_dir (overflow_checks E) m1 (sk_argv k) = Ok (Some dir)"
    and "macho_loader E K fuel cache img base dir None (s1\<lparr>pr_mem := m1\<rparr>) = (Ok (vm, entry), t)"
  shows "start E K fuel info s = ((Panic Exit_Error, True), ended K entry k t)"
proof -
  have self: "rebase_self_and_extract_bind_fixups E K (with_bytes (raw_slice (pr_mem s) (sk_dylinker_header k) (sk_dylinker_size k))
          (macho_endian_from_magic magic)) (sk_dylinker_header k) s = (Ok (filter is_bind fs), s\<lparr>pr_mem := m\<rparr>)"
    using assms(3,4) by (cases "fs = []") (simp_all add: rebase_self_and_extract_bind_fixups_def io_bind_def)
  define go where "go = dynld_entrypoint E K fuel (filter is_bind fs) (sk_dylinker_header k) (sk_executable_header k)
             (sk_executable_size k) (sk_argc k) (sk_argv k) (sk_envp k) (sk_apple k) (s\<lparr>pr_mem := m\<rparr>)"
  have "go = io_bind (entry_and_ret K entry (sk_argc k) (sk_argv k) (sk_envp k) (sk_apple k)) (\<lambda>_. exit_error K) t"
    using assms(5-12)
    by (simp add: go_def dynld_entrypoint_def io_bind_def [of _ _ "_ :: proc"] io_reads_def io_writes_def or_die_def
        del: macho_loader.simps)
  then have "go = (Panic Exit_Error, ended K entry k t)" by (simp only: ended_run)
  then show ?thesis
    using self assms(2) by (simp add: start_def assms(1) io_bind_def io_reads_def flip: go_def)
qed

text \<open>C16: a program runs. If the linker relocates itself, the executable holds an ARM64 image, the kernel knows a
  shared cache at or above its unslid address that can be attached, the linker's own binds resolve, the path of
  the executable is text, the kernel grants memory and protections, and the image is loadable, with all the
  libraries on disk it needs, then from some depth of recursion on \<open>start\<close> asks for the base of the cache and
  for the calls of a complete link of the image, in order and nothing else, jumps once to the entry point with
  the program's own arguments, environment and strings, and when the program comes back exits with status 0.\<close>

theorem program_runs:
  assumes "stack_read (pr_mem s) info = k"
    and "read_magic (raw_slice (pr_mem s) (sk_dylinker_header k) 4) = Ok magic"
    and "chained_fixups_parse_all E (with_bytes (raw_slice (pr_mem s) (sk_dylinker_header k) (sk_dylinker_size k))
          (macho_endian_from_magic magic)) = Ok fs"
    and "fixup_all_chained_fixups E (sk_dylinker_header k) 0 [] [] None True fs (pr_mem s) = Ok m"
    and "read_magic (raw_slice m (sk_executable_header k) 4) = Ok magic'"
    and "arm64_container_create E (with_bytes (raw_slice m (sk_executable_header k) (sk_executable_size k))
          (macho_endian_from_magic magic')) (sk_executable_header k) = Ok (img, base)"
    and "dyld_shared_cache_base_address_get K (s\<lparr>pr_mem := m\<rparr>) = (Ok (1, cache_base), s1)"
    and "wsub (overflow_checks E) cache_base DYLD_LIKELY_UNSLID_VM_ADDR = Ok slide"
    and "from_existing E (pr_mem s1) cache_base slide dsc_new = Ok cache"
    and "tls_functions_self_bind_hack E (sk_dylinker_header k) (filter is_bind fs) cache (pr_mem s1) = Ok m1"
    and "exe_dir (overflow_checks E) m1 (sk_argv k) = Ok (Some dir)"
    and "kernel_grants K" "loadable E K cache dir img"
  shows "\<exists>n t vm entry es. (\<forall>fuel \<ge> n. start E K fuel info s = ((Panic Exit_Error, True), t)) \<and>
    linked E K cache dir True img (vm, entry) es \<and>
    pr_trace t = pr_trace s @ Svc SHARED_REGION_CHECK_NP [Out 8] # es @
      [Run entry [sk_argc k, sk_argv k, sk_envp k, sk_apple k], Svc SYS_EXIT [W 0]]"
proof -
  let ?s1 = "s1\<lparr>pr_mem := m1\<rparr>"
  obtain n vm entry t where load: "\<And>fuel. n \<le> fuel \<Longrightarrow> macho_loader E K fuel cache img base dir None ?s1 = (Ok (vm, entry), t)"
    using loadable_loads [OF assms(12,13)] unfolding loads_def by fast
  obtain es where es: "pr_trace t = pr_trace ?s1 @ es" "linked E K cache dir True img (vm, entry) es"
    using leavesD [OF leaves_loader load [OF order.refl]] by auto
  have "start E K fuel info s = ((Panic Exit_Error, True), ended K entry k t)" if "n \<le> fuel" for fuel
    by (rule start_runs [OF assms(1-11) load [OF that]])
  moreover have "pr_trace s1 = pr_trace s @ [Svc SHARED_REGION_CHECK_NP [Out 8]]"
    using assms(7) by (auto simp: dyld_shared_cache_base_address_get_def io_bind_def syscall_run)
  ultimately show ?thesis
    using ended_run(2) es by (intro exI [of _ n] exI [of _ "ended K entry k t"] exI [of _ vm] exI [of _ entry] exI [of _ es]) simp
qed

theorem program_runs_witness:
  "\<exists>n t. start (scroll_ref True) sample_machine n 0x1000 sample_process = ((Panic Exit_Error, True), t) \<and>
     pr_trace t ! 1 = Svc SYS_OPEN [In [0x2F, 0x6C, 0], W 0, W 0] \<and>
     (\<exists>entry. drop (length (pr_trace t) - 2) (pr_trace t) = [Run entry [1, 0x2000, 0x2008, 0x2008], Svc SYS_EXIT [W 0]])"
proof -
  let ?E = "scroll_ref True" and ?s = sample_process
  obtain cache where cache: "from_existing ?E sample_mem 0x180000000 0 dsc_new = Ok cache" "dsc_libraries cache = []"
    by (rule sample_cache_attached [of sample_mem 0]) (auto simp: sample_mem_parts)
  have mem: "pr_mem ?s = sample_mem" "?s\<lparr>pr_mem := sample_mem\<rparr> = ?s" "pr_trace ?s = []"
    "\<And>es. pr_mem (?s\<lparr>pr_trace := es\<rparr>) = sample_mem" by (simp_all add: sample_process_def)
  have endian: "macho_endian_from_magic MH_MAGIC_64 = Little" by (simp add: macho_endian_from_magic_def)
  define k where "k = stack_read sample_mem 0x1000"
  have k: "sk_dylinker_header k = 0x4000" "sk_executable_header k = 0x10000" "sk_dylinker_size k = 32" "sk_executable_size k = 328"
    "sk_argc k = 1" "sk_argv k = 0x2000" "sk_envp k = 0x2008" "sk_apple k = 0x2008"
    by (simp_all add: k_def sample_mem_stack)
  have tls_step: "tls_functions_self_bind_hack ?E 0x4000 (filter is_bind []) cache m = Ok m" for m
    by (simp add: tls_functions_self_bind_hack_def)
  have base_step: "wsub True 0x180000000 DYLD_LIKELY_UNSLID_VM_ADDR = Ok 0" by (simp add: wsub_def DYLD_LIKELY_UNSLID_VM_ADDR_def)
  have steps: "stack_read (pr_mem ?s) 0x1000 = k"
    "read_magic (raw_slice (pr_mem ?s) (sk_dylinker_header k) 4) = Ok MH_MAGIC_64"
    "chained_fixups_parse_all ?E (with_bytes (raw_slice (pr_mem ?s) (sk_dylinker_header k) (sk_dylinker_size k))
       (macho_endian_from_magic MH_MAGIC_64)) = Ok []"
    "fixup_all_chained_fixups ?E (sk_dylinker_header k) 0 [] [] None True [] (pr_mem ?s) = Ok sample_mem"
    "read_magic (raw_slice sample_mem (sk_executable_header k) 4) = Ok MH_MAGIC_64"
    "arm64_container_create ?E (with_bytes (raw_slice sample_mem (sk_executable_header k) (sk_executable_size k))
       (macho_endian_from_magic MH_MAGIC_64)) (sk_executable_header k) = Ok (sample_app, 0x10000)"
    "dyld_shared_cache_base_address_get sample_machine (?s\<lparr>pr_mem := sample_mem\<rparr>) =
       (Ok (1, 0x180000000), ?s\<lparr>pr_trace := [Svc SHARED_REGION_CHECK_NP [Out 8]]\<rparr>)"
    "wsub (overflow_checks ?E) 0x180000000 DYLD_LIKELY_UNSLID_VM_ADDR = Ok 0"
    "from_existing ?E (pr_mem (?s\<lparr>pr_trace := [Svc SHARED_REGION_CHECK_NP [Out 8]]\<rparr>)) 0x180000000 0 dsc_new = Ok cache"
    "tls_functions_self_bind_hack ?E (sk_dylinker_header k) (filter is_bind []) cache
       (pr_mem (?s\<lparr>pr_trace := [Svc SHARED_REGION_CHECK_NP [Out 8]]\<rparr>)) = Ok sample_mem"
    "exe_dir (overflow_checks ?E) sample_mem (sk_argv k) = Ok (Some [0x2F, 0x61])"
    unfolding mem k endian sample_mem_parts overflow_ref
    by (simp_all only: k_def sample_magic sample_linker_fixups sample_executable sample_exe_dir sample_machine_base
        fixup_all_chained_fixups.simps tls_step base_step cache mem append_Nil)
  from program_runs [OF steps sample_machine_grants sample_app_loadable [OF cache(2)]]
  obtain n t vm entry es where run: "start ?E sample_machine n 0x1000 ?s = ((Panic Exit_Error, True), t)"
    "linked ?E sample_machine cache [0x2F, 0x61] True sample_app (vm, entry) es"
    "pr_trace t = [Svc SHARED_REGION_CHECK_NP [Out 8]] @ es @ [Run entry [1, 0x2000, 0x2008, 0x2008], Svc SYS_EXIT [W 0]]"
    by (auto simp: k mem)
  have "\<exists>es'. es = Svc SYS_OPEN [In [0x2F, 0x6C, 0], W 0, W 0] # es'"
  proof -
    obtain p deps name where p: "macho_parser ?E sample_app = Ok p" "dependencies_collect (overflow_checks ?E) p cache = Ok deps"
      "fv_deref deps = Ok [([0x2F, 0x6C], False)]" "user_dylib_disk_path_resolve [0x2F, 0x6C] (pi_rpath p) [0x2F, 0x61] = Ok [0x2F, 0x6C, 0]"
      by (rule sample_app_needs [OF cache(2)])
    from run(2) p(1-3) obtain es1 es2 where es: "es = es1 @ es2"
      "libraries_linked ?E sample_machine cache [0x2F, 0x61] (pi_rpath p) [([0x2F, 0x6C], False)] es1"
      by (auto elim!: linked_cases)
    from es(2) p(4) obtain es3 es4 where "es1 = es3 @ es4" "file_mapped [0x2F, 0x6C, 0] es3"
      by (auto elim!: libraries_linked_cases)
    with es(1) show ?thesis by (auto simp: file_mapped_def const_defs)
  qed
  with run show ?thesis by (intro exI [of _ n] exI [of _ t]) auto
qed

end
