(* ===== verification/Spec2Isabelle.thy ===== *)
theory Spec2Isabelle
  imports Rust_Prelude Macho_Bindings Dsc_Bindings Scroll Container Fixed_Vec Exports_Trie
    Macho_Image Allocator Dylib Dyld_Shared_Cache Fixups Bind_Entries Loader_Parser Process Loader Entrypoint Image_Types
    Macho_Flags Ptrauth Dyld_Infos Vec_Views Global_Alloc Link_Order
    Loadable Sample_System Sample_Cache Sample_Images Sample_Process Linked_Image Program_Run
begin

text \<open>
  dynld is a dynamic linker for macOS on ARM64, written in Rust without a standard library. The kernel
  (in practice the launcher of the repository) maps it together with an executable and enters it through
  \<open>src/src/__dyld_start.s\<close>. It relocates itself, chooses the ARM64 image of the executable, attaches
  the shared cache with the system libraries, loads the executable and, recursively, the libraries
  that are not in the cache, binds their symbols, runs their initializers and jumps to the program.
  This development models the Rust sources under \<open>src/src\<close>.

  \<^bold>\<open>Conventions.\<close> A machine integer is a word of its width and a byte string a list of bytes. A call
  returns a value of \<open>'a res\<close>: \<open>Ok\<close>, \<open>Err\<close> with the program's own message, \<open>Panic\<close> with the kind of
  panic or of undefined behaviour, or \<open>Diverge\<close>. Arithmetic that panics in builds with overflow checks
  and wraps in the others goes through \<open>wadd\<close>, \<open>wsub\<close> and \<open>wmul\<close>, whose flag is the kind of build: the
  theorems hold for both unless they fix it. Raw pointer arithmetic always wraps. A method \<open>m\<close> of a type
  keeps its name, with a short prefix where it would clash; each \<open>Result\<close> or \<open>Option\<close> that the code
  propagates with \<open>?\<close> is one bind (\<open>rbind\<close>, \<open>obind\<close>, and \<open>io_bind\<close> for the calls that have effects).

  \<^bold>\<open>The parts and their theories\<close>, in the order they build on each other:

  \<^item> \<open>Rust_Prelude\<close>: outcomes, checked arithmetic, UTF-8, searches, the interface \<open>memory\<close> of a store of
    records, and the collections \<open>res_simps\<close>, \<open>const_defs\<close> and \<open>word_bounds\<close>.
  \<^item> \<open>Macho_Bindings\<close>, \<open>Macho_Flags\<close>, \<open>Dsc_Bindings\<close> and \<open>Dyld_Infos\<close>: the types of \<open>bindings_macho.rs\<close>
    (\<open>Macho_Flags\<close> has those that no code reads), \<open>bindings_dsc.rs\<close> and \<open>dsc.rs\<close> with their layouts and
    bit fields. The lemmas compute the sizes and offsets, show that bit fields cover a word without
    overlap, and that it can be put together again from them.
  \<^item> \<open>Ptrauth\<close> (\<open>ptrauth.rs\<close>): the pointer authentication functions as the instructions they are, over the
    unit of the processor as a parameter. Nothing calls them: the module is not part of the build.
  \<^item> \<open>Scroll\<close>: the readers that the \<open>scroll\<close> crate derives are not in the repository. They are the
    parameter \<open>env\<close>, and what the code needs of them, that a read succeeds only inside the bytes, is the
    locale \<open>scroll_bounds\<close>. \<open>scroll_ref\<close> is one family of readers with that property, and what the
    witnesses compute with.
  \<^item> \<open>Container\<close> (\<open>container.rs\<close>): an image as bytes and an endianness; all reads, and ULEB128.
  \<^item> \<open>Fixed_Vec\<close> (\<open>array.rs\<close>): vectors and strings of fixed capacity over cells that may be
    uninitialised, and the draining iterator. The locale \<open>bounded_vec\<close> is what clients rely on.
    \<open>Vec_Views\<close> has the trait \<open>UninitArray\<close> as a locale, the borrowed slices and iterators, and what
    \<open>into_inner_slice\<close> hands out.
  \<^item> \<open>Exports_Trie\<close> and \<open>Macho_Image\<close> (\<open>macho_image.rs\<close>, \<open>image.rs\<close>): the walk over the load commands, the
    queries on it, and the search of the exports trie, against a tree of names.
  \<^item> \<open>Allocator\<close> (\<open>allocator.rs\<close>): chunks, the free list inside the freed memory, and the spin lock. The
    answers of the kernel to requests for memory are an argument; \<open>Global_Alloc\<close> (\<open>impl GlobalAlloc\<close>)
    puts the Mach traps of the process there, and shows that nothing else changes.
  \<^item> \<open>Dylib\<close> (\<open>dylib.rs\<close>) and \<open>Dyld_Shared_Cache\<close> (\<open>dyld_shared_cache.rs\<close>): symbols of one library,
    the chase of re-exports, and the libraries of the shared cache, which is read from memory.
  \<^item> \<open>Fixups\<close> (\<open>fixups.rs\<close>): the chains of fixups of an image, and their application to a memory of bytes.
    \<open>Bind_Entries\<close>: the entries that bind, from their fields.
  \<^item> \<open>Loader_Parser\<close> and \<open>Loader\<close> (\<open>loader.rs\<close>): what the load commands of an image say, the libraries it
    needs and their paths; mapping the segments, loading the libraries, fixups, protections and
    initializers. \<open>Image_Types\<close> shows what holds of every image the parser accepts.
  \<^item> \<open>Process\<close> (\<open>syscalls.rs\<close>, \<open>libc.rs\<close>, \<open>mach.rs\<close>, \<open>mmap.rs\<close>, \<open>print.rs\<close>, \<open>jump.rs\<close>, \<open>tlv.rs\<close>,
    \<open>user_dylibs.rs\<close>): the state of the process is its memory and the trace of the system calls, the
    calls of other code and the calls of libtlv it has made. What answers them is the parameter
    \<open>machine\<close>: the kernel, the code that is jumped to, and libtlv. The one call of libdsc, for the base
    of the shared cache, is modelled from its C source.
  \<^item> \<open>Entrypoint\<close> (\<open>__dyld_start.s\<close>, \<open>entrypoint.rs\<close>, \<open>main.rs\<close>): \<open>start\<close>, the whole run up to the jump and
    the exit, and the panic handler.
  \<^item> \<open>Link_Order\<close>: the grammar of the traces of a link (\<open>linked\<close>, \<open>libraries_linked\<close>), the specification
    that the loader and the process are shown to refine.
  \<^item> \<open>Linked_Image\<close>: the memory a load leaves. \<open>Loadable\<close>: what it takes of an image, and of all it needs, to be
    loaded, binds to symbols of the libraries on disk included. \<open>Program_Run\<close>: a whole run. \<open>Sample_Images\<close>,
    \<open>Sample_Cache\<close> and \<open>Sample_Process\<close> are a process for them, down to the bytes of its memory: an
    executable with a pointer to bind to its library, the library with a pointer to rebase and an export, a
    linker, a shared cache and the structure the kernel passes. \<open>Sample_System\<close> is a shared cache whose libSystem
    re-exports a library with a symbol, for the witnesses that resolve one.

  \<^bold>\<open>What is shown.\<close>

  \<^item> Reference semantics: the trie search is lookup in a finite map; a fixed vector is a bounded list;
    symbol resolution and the chase of re-exports find an address exactly when a derivation of hops
    within the budget leads to it, unless a library on the way fails, and then they end in its failure;
    ULEB128 and the packed pointer formats decode what was encoded.
  \<^item> Memory: live blocks of the allocator stay aligned, disjoint and apart from the free list; the
    fixups write the pointers they denote and nothing else; the segments end up where they belong,
    with the exact condition under which they fit the region allocated for them. Together: what memory
    holds when a load has succeeded.
  \<^item> Robustness: on arbitrary bytes the parsers end, read inside the image, and fail only in the ways
    listed; accepted images are well formed; each unsupported bind stops with its own error.
  \<^item> Order of effects: opening a library, bringing an image to life, writing messages, and a whole
    load of an executable that needs system libraries only, as a trace of system calls. Whatever the
    kernel answers and however deep the libraries are nested, a load asks for the calls of the grammar,
    and a process that exits without having written a message has made a complete link of the image in
    the bytes of its executable and jumped to it. Where the comments of the source and the code
    disagree on what is right (the ordinals of libraries, \<open>@loader_path\<close>), the property states both, and
    when they are the same. A program whose image and libraries are loadable does run.
  \<^item> Termination and success: chains of fixups, the scan for initializers, output, allocation, and the recursion
    over libraries that do not need themselves; a library that needs itself is loaded without end.
    However \<open>start\<close> is left, the process has asked for an exit.

  \<^bold>\<open>Fuel and bounds.\<close> The visit budget of the trie walk and the depth of re-exports are the code's own.
  Loops the code does not bound are partial functions with \<open>None\<close> for not returning (chains of fixups,
  initializer offsets, the length of an argument), shown to return on images below 2 to the 63 or 32
  bytes. \<open>macho_loader\<close> takes the depth of recursion as fuel: \<open>loader_terminates\<close> says how much is enough
  and that more does not matter. The panic handler takes fuel for panics raised while it prints.

  \<^bold>\<open>Faithfulness.\<close> A pointer that is kept as a slice (the bytes of the executable, of a mapped library, of
  a loaded library) is the bytes at the time the slice is made. \<open>copy_nonoverlapping\<close> reads all its
  bytes before it writes. A call of other code is one step that may change memory in any way the
  \<open>machine\<close> says, and comes back. Reading a value outside its enum, uninitialised cells, and accesses
  outside an object, undefined in Rust, are panics of their own.

  \<^bold>\<open>Not modelled.\<close> The text of a formatted argument (a message is the pieces its format string is made
  of) and the text of a panic, a parameter; libtlv, which is vendored and called through one function;
  \<open>dyld_all_image_infos_get\<close> of libdsc, which nothing calls; the launcher, a separate program in C; tests
  and build files. Threads other than those that take the allocator's lock do not occur in the program.
\<close>

end
